(* ===== verification/Prelude.thy ===== *)
theory Prelude
  imports Main "HOL-Library.Word"
begin

text \<open>
  The vocabulary every component of the kernel model shares.

  The kernel is 32-bit x86 code: \<open>int\<close>, \<open>long\<close>, \<open>size_t\<close> and every pointer have 32 bits. A machine
  integer is a word of its width (\<open>libc/include/types.h\<close>); a signed one is the same word, read through
  \<open>sint\<close> where the code compares or divides it as a signed value. Memory is the flat address space the
  processor sees: one byte per 32-bit address. An outcome of a computation is a value of
  \<open>'a exec\<close>: \<open>None\<close> when the code never returns (a spinning lock, a cyclic list),
  \<open>Some (Inl f)\<close> when it stops in a fault, \<open>Some (Inr x)\<close> when it returns \<open>x\<close>.
\<close>

unbundle bit_operations_syntax

section \<open>Machine words and outcomes\<close>

type_synonym u8 = "8 word"
type_synonym u16 = "16 word"
type_synonym u32 = "32 word"
type_synonym u64 = "64 word"
type_synonym s32 = "32 word"
type_synonym addr = "32 word"
type_synonym mem = "addr \<Rightarrow> u8"

text \<open>
  What stops the kernel: a division by zero raises a CPU exception, a failed \<open>ASSERT\<close> and an explicit
  \<open>panic\<close> print a message and halt, and an access outside an array has no defined result in C.
\<close>

datatype fault = Div_Zero | Assert_Failed | Panic | Out_Of_Bounds

type_synonym 'a exec = "(fault + 'a) option"

abbreviation ret :: "'a \<Rightarrow> 'a exec" where "ret x \<equiv> Some (Inr x)"
abbreviation fail :: "fault \<Rightarrow> 'a exec" where "fail f \<equiv> Some (Inl f)"

definition bindX :: "'a exec \<Rightarrow> ('a \<Rightarrow> 'b exec) \<Rightarrow> 'b exec" where
  "bindX m k = (case m of None \<Rightarrow> None | Some (Inl f) \<Rightarrow> Some (Inl f) | Some (Inr x) \<Rightarrow> k x)"

named_theorems exec_simps \<open>evaluation of outcomes\<close>
named_theorems mem_simps \<open>reads over writes\<close>
named_theorems heap_simps \<open>kernel heap headers\<close>

lemma bindX_simps [simp, exec_simps]:
  "bindX None k = None"
  "bindX (fail f) k = fail f"
  "bindX (ret x) k = k x"
  by (simp_all add: bindX_def)

lemma bindX_eq_ret [exec_simps]: "bindX m k = ret y \<longleftrightarrow> (\<exists>x. m = ret x \<and> k x = ret y)"
  by (auto simp: bindX_def split: option.splits sum.splits)

lemma bindX_retE:
  assumes "bindX m k = ret y"
  obtains x where "m = ret x" "k x = ret y"
  using assms by (auto simp: bindX_eq_ret)

lemma bindX_assoc: "bindX (bindX m k) l = bindX m (\<lambda>x. bindX (k x) l)"
  by (simp add: bindX_def split: option.splits sum.splits)

text \<open>A recursive call may stand under \<open>bindX\<close> in a \<open>partial_function\<close>.\<close>

lemma bindX_mono [partial_function_mono]:
  assumes "mono_option m" "\<And>y. mono_option (\<lambda>f. k y f)"
  shows "mono_option (\<lambda>f. bindX (m f) (\<lambda>y. k y f))"
proof -
  have "bindX a l = Option.bind a (\<lambda>r. case r of Inl f \<Rightarrow> fail f | Inr x \<Rightarrow> l x)"
    for a :: "'c exec" and l :: "'c \<Rightarrow> 'd exec"
    by (simp add: bindX_def split: option.splits sum.splits)
  moreover have "mono_option (\<lambda>f. Option.bind (m f) (\<lambda>r. case r of Inl f \<Rightarrow> fail f | Inr x \<Rightarrow> k x f))"
  proof (rule bind_mono [OF assms(1)])
    fix r
    show "mono_option (\<lambda>f. case r of Inl f \<Rightarrow> fail f | Inr x \<Rightarrow> k x f)"
      by (cases r) (simp_all add: assms(2) option.const_mono)
  qed
  ultimately show ?thesis by simp
qed

text \<open>A \<open>for\<close> loop over a list, in the outcomes.\<close>

primrec foldX :: "('a \<Rightarrow> 's \<Rightarrow> 's exec) \<Rightarrow> 'a list \<Rightarrow> 's \<Rightarrow> 's exec" where
  "foldX f [] s = ret s"
| "foldX f (x # xs) s = bindX (f x s) (foldX f xs)"

lemma bindX_cong [fundef_cong]: "m = m' \<Longrightarrow> (\<And>x. m' = ret x \<Longrightarrow> k x = k' x) \<Longrightarrow> bindX m k = bindX m' k'"
  by (auto simp: bindX_def split: option.splits sum.splits)

lemma foldX_append: "foldX f (xs @ ys) s = bindX (foldX f xs s) (foldX f ys)"
  by (induction xs arbitrary: s) (auto simp: bindX_assoc intro!: bindX_cong)

lemma foldX_map: "foldX f (map g xs) s = foldX (\<lambda>x. f (g x)) xs s"
  by (induction xs arbitrary: s) (auto intro!: bindX_cong)

lemma foldX_if: "foldX (\<lambda>x s. if P x then f x s else ret s) xs s = foldX f (filter P xs) s"
  by (induction xs arbitrary: s) (auto intro!: bindX_cong)

lemma foldX_concat: "foldX f (concat xss) s = foldX (\<lambda>xs. foldX f xs) xss s"
  by (induction xss arbitrary: s) (auto simp: foldX_append intro!: bindX_cong)

text \<open>\<open>ASSERT(x)\<close> of \<open>kernel/include/debug.h\<close> in the debug build, the configuration the makefile has on.\<close>

definition ASSERT :: "bool \<Rightarrow> unit exec" where
  "ASSERT b = (if b then ret () else fail Assert_Failed)"

lemma ASSERT_simps [simp, exec_simps]:
  "ASSERT True = ret ()" "ASSERT False = fail Assert_Failed"
  by (simp_all add: ASSERT_def)

lemma ASSERT_eq_ret [simp]: "ASSERT b = ret u \<longleftrightarrow> b"
  by (simp add: ASSERT_def)

text \<open>\<open>BIT(x)\<close>: \<open>1 << x\<close> on a 32-bit \<open>int\<close>.\<close>

definition BIT :: "nat \<Rightarrow> u32" where
  "BIT x = push_bit x 1"

lemma bit_BIT: "bit (BIT x) n \<longleftrightarrow> n = x \<and> x < 32"
  by (auto simp: BIT_def push_bit_eq_mult bit_exp_iff)

lemma and_BIT_eq_0: "x < 32 \<Longrightarrow> (v AND BIT x = 0) \<longleftrightarrow> \<not> bit v x"
proof -
  assume x: "x < 32"
  have "bit (v AND BIT x) x = bit v x" using x by (simp add: bit_and_iff bit_BIT)
  moreover have "v AND BIT x = 0" if "\<not> bit v x"
    using that by (intro bit_word_eqI) (auto simp: bit_and_iff bit_BIT)
  ultimately show ?thesis by auto
qed

text \<open>Searching two lists that correspond.\<close>

lemma find_list_all2:
  "list_all2 R xs ys \<Longrightarrow> (\<And>x y. R x y \<Longrightarrow> P x = Q y) \<Longrightarrow>
   (case find P xs of None \<Rightarrow> find Q ys = None | Some x \<Rightarrow> \<exists>y. find Q ys = Some y \<and> R x y)"
  by (induction rule: list_all2_induct) (auto split: option.split)

section \<open>Word arithmetic\<close>

lemma unat_u32_lt [simp]: "unat (x :: u32) < 4294967296"
  using unsigned_less [of x] by simp

lemma unat_u8_lt [simp]: "unat (x :: u8) < 256"
  using unsigned_less [of x] by simp

lemma unat_add_nowrap: "unat x + unat y < 4294967296 \<Longrightarrow> unat (x + y :: u32) = unat x + unat y"
  by (simp add: unat_word_ariths)

lemma unat_sub_nowrap: "unat y \<le> unat x \<Longrightarrow> unat (x - y :: u32) = unat x - unat y"
  by (simp add: unat_sub word_le_nat_alt)

lemma unat_mod_word: "unat (x mod y :: u32) = unat x mod unat y"
  by (simp add: unat_mod)

lemma unat_div_word: "unat (x div y :: u32) = unat x div unat y"
  by (simp add: unat_div)

lemma unat_of_nat_u32 [simp]: "n < 4294967296 \<Longrightarrow> unat (of_nat n :: u32) = n"
  by (simp add: unat_of_nat)

lemma of_nat_unat_u32 [simp]: "of_nat (unat (x :: u32)) = x"
  by simp

lemma word_eq_unatI: "unat x = unat y \<Longrightarrow> x = (y :: u32)"
  by (simp add: word_unat_eq_iff)

text \<open>Signed values: a sum or difference that stays within 32 bits is exact.\<close>

lemma sint_s32_range: "- 2147483648 \<le> sint (x :: s32) \<and> sint x < 2147483648"
  using sint_ge [of x] sint_lt [of x] by simp

lemma signed_take_bit_31: "- 2147483648 \<le> k \<Longrightarrow> k < 2147483648 \<Longrightarrow> signed_take_bit 31 k = (k :: int)"
  by (intro signed_take_bit_int_eq_self) simp_all

lemma sint_add_nowrap:
  "- 2147483648 \<le> sint x + sint y \<Longrightarrow> sint x + sint y < 2147483648 \<Longrightarrow>
   sint (x + y :: s32) = sint x + sint y"
  by (simp add: sint_word_ariths signed_take_bit_31)

lemma sint_sub_nowrap:
  "- 2147483648 \<le> sint x - sint y \<Longrightarrow> sint x - sint y < 2147483648 \<Longrightarrow>
   sint (x - y :: s32) = sint x - sint y"
  by (simp add: sint_word_ariths signed_take_bit_31)

lemma sint_of_nat_s32: "n < 2147483648 \<Longrightarrow> sint (of_nat n :: s32) = int n"
  by (simp add: signed_of_nat signed_take_bit_31)

lemma sint_of_nat_pred: "n < 2147483648 \<Longrightarrow> sint (of_nat n - 1 :: s32) = int n - 1"
  by (subst sint_sub_nowrap) (simp_all add: sint_of_nat_s32)

section \<open>Flat memory\<close>

text \<open>Little-endian loads and stores of 16, 32 and 64 bits, byte by byte.\<close>

definition load16 :: "mem \<Rightarrow> addr \<Rightarrow> u16" where
  "load16 m a = ucast (m a) OR push_bit 8 (ucast (m (a + 1)))"

definition load32 :: "mem \<Rightarrow> addr \<Rightarrow> u32" where
  "load32 m a = ucast (m a) OR push_bit 8 (ucast (m (a + 1)))
     OR push_bit 16 (ucast (m (a + 2))) OR push_bit 24 (ucast (m (a + 3)))"

definition store32 :: "mem \<Rightarrow> addr \<Rightarrow> u32 \<Rightarrow> mem" where
  "store32 m a v = m(a := ucast v, a + 1 := ucast (drop_bit 8 v),
     a + 2 := ucast (drop_bit 16 v), a + 3 := ucast (drop_bit 24 v))"

definition load64 :: "mem \<Rightarrow> addr \<Rightarrow> u64" where
  "load64 m a = ucast (load32 m a) OR push_bit 32 (ucast (load32 m (a + 4)))"

definition store64 :: "mem \<Rightarrow> addr \<Rightarrow> u64 \<Rightarrow> mem" where
  "store64 m a v = store32 (store32 m a (ucast v)) (a + 4) (ucast (drop_bit 32 v))"

text \<open>
  The offset of an address from a base, as a number: \<open>x\<close> lies in the \<open>n\<close> bytes at \<open>a\<close> when
  \<open>unat (x - a) < n\<close>. Ranges may wrap around the end of the address space, as the processor's do.
\<close>

definition in_range :: "addr \<Rightarrow> addr \<Rightarrow> nat \<Rightarrow> bool" where
  "in_range x a n \<longleftrightarrow> unat (x - a) < n"

text \<open>A range of \<open>Suc n\<close> bytes is its first byte and the \<open>n\<close> bytes after it.\<close>

lemma in_range_0 [simp]: "\<not> in_range x a 0"
  by (simp add: in_range_def)

lemma unat_minus_1_u32 [simp]: "unat (- 1 :: u32) = 4294967295"
  by (simp add: unsigned_minus_1_eq_mask mask_eq_exp_minus_1)

lemma in_range_Suc: "n < 4294967296 \<Longrightarrow> in_range x a (Suc n) \<longleftrightarrow> x = a \<or> in_range x (a + 1) n"
proof (cases "x = a")
  case False
  then have nz: "x - a \<noteq> 0" by simp
  have "unat (x - (a + 1)) = unat (x - a) - 1"
    using unat_minus_one [OF nz] by (simp add: diff_diff_add)
  moreover have "0 < unat (x - a)" using nz by (simp add: unat_gt_0)
  ultimately show ?thesis using False by (auto simp: in_range_def)
qed (simp add: in_range_def)

lemma not_in_range_next: "n < 4294967296 \<Longrightarrow> \<not> in_range a (a + 1) n"
  by (simp add: in_range_def)

text \<open>Addresses by their index from a base.\<close>

lemma in_range_iff: "n \<le> 4294967296 \<Longrightarrow> in_range x p n \<longleftrightarrow> (\<exists>k<n. x = p + of_nat k)"
proof
  assume "in_range x p n"
  then have "unat (x - p) < n" "x = p + of_nat (unat (x - p))" by (simp_all add: in_range_def)
  then show "\<exists>k<n. x = p + of_nat k" by blast
next
  assume "n \<le> 4294967296" "\<exists>k<n. x = p + of_nat k"
  then show "in_range x p n" by (auto simp: in_range_def)
qed

lemma index_eq_iff:
  "k < 4294967296 \<Longrightarrow> l < 4294967296 \<Longrightarrow> (p + of_nat k = (p :: addr) + of_nat l) \<longleftrightarrow> k = l"
  by (metis add_left_cancel unat_of_nat_u32)

lemma in_range_offset: "in_range x (a + of_nat i) n \<Longrightarrow> i + n \<le> k \<Longrightarrow> k \<le> 4294967296 \<Longrightarrow> in_range x a k"
proof -
  assume x: "in_range x (a + of_nat i) n" and k: "i + n \<le> k" "k \<le> 4294967296"
  from x have "\<exists>j<n. x = a + of_nat i + of_nat j" using k by (subst (asm) in_range_iff) simp_all
  then obtain j where "j < n" "x = a + of_nat (i + j)" by (auto simp: add.assoc)
  then show ?thesis using k by (subst in_range_iff) (auto intro: exI [of _ "i + j"])
qed

text \<open>A range that does not wrap around is an interval of numbers.\<close>

lemma in_range_interval:
  "unat a + n \<le> 4294967296 \<Longrightarrow> in_range x a n \<longleftrightarrow> unat a \<le> unat x \<and> unat x < unat a + n"
proof -
  assume n: "unat a + n \<le> 4294967296"
  show ?thesis
  proof (cases "a \<le> x")
    case True
    then have "unat (x - a) = unat x - unat a" by (simp add: unat_sub_nowrap word_le_nat_alt)
    then show ?thesis using True by (auto simp: in_range_def word_le_nat_alt)
  next
    case False
    then have "unat (x - a) = 4294967296 + unat x - unat a"
      by (simp add: unat_sub_if' word_le_nat_alt not_le)
    then show ?thesis using False n by (auto simp: in_range_def word_le_nat_alt not_le)
  qed
qed

lemma in_range_4: "in_range x a 4 \<longleftrightarrow> x = a \<or> x = a + 1 \<or> x = a + 2 \<or> x = a + 3"
proof -
  have "in_range x a 4 \<longleftrightarrow> x - a \<in> {0, 1, 2, 3}"
    unfolding in_range_def by unat_arith
  also have "\<dots> \<longleftrightarrow> x = a \<or> x = a + 1 \<or> x = a + 2 \<or> x = a + 3"
    by (auto simp: diff_eq_eq add.commute)
  finally show ?thesis .
qed

lemma store32_other [mem_simps]: "\<not> in_range x a 4 \<Longrightarrow> store32 m a v x = m x"
  by (auto simp: in_range_4 store32_def)

lemma load32_store32_same [simp, mem_simps]: "load32 (store32 m a v) a = v"
proof (rule bit_word_eqI)
  fix n assume n: "n < LENGTH(32)"
  then have "n < 32" by simp
  then consider "n < 8" | "8 \<le> n" "n < 16" | "16 \<le> n" "n < 24" | "24 \<le> n" "n < 32"
    by linarith
  then show "bit (load32 (store32 m a v) a) n = bit v n"
    by cases (auto simp: load32_def store32_def bit_simps)
qed

lemma load32_cong:
  assumes "\<And>x. in_range x a 4 \<Longrightarrow> m x = m' x"
  shows "load32 m a = load32 m' a"
  using assms by (simp add: load32_def in_range_4)

lemma load32_store32_other:
  assumes "4 \<le> unat (b - a)" "4 \<le> unat (a - b)"
  shows "load32 (store32 m a v) b = load32 m b"
proof (rule load32_cong)
  fix x assume "in_range x b 4"
  with assms have "\<not> in_range x a 4" unfolding in_range_def by unat_arith
  then show "store32 m a v x = m x" by (rule store32_other)
qed

end
