(* ===== verification/Sync.thy ===== *)
theory Sync
  imports Prelude
begin

text \<open>
  The mutex of \<open>kernel/sched/sync.c\<close>: its state, its three operations, the interface the rest of the
  kernel uses it through (locale \<open>lock\<close>, interpreted on the code's operations), and the interleavings
  of several threads that run \<open>mutex_lock\<close> with interrupts enabled.
\<close>

section \<open>The mutex\<close>

datatype task_struct = Task (next_waiting: "task_struct option")

record mutex_struct =
  locked :: s32
  waiting :: "task_struct option"

definition mutex_init :: "mutex_struct \<Rightarrow> mutex_struct" where
  "mutex_init mtx = mtx\<lparr>locked := 0, waiting := None\<rparr>"

text \<open>
  With the scheduler calls commented out, the \<open>goto check_mutex\<close> reads the same field again: nothing in the
  loop changes the mutex, so the function returns only if the lock is free when it is called.
\<close>

partial_function (option) mutex_lock :: "mutex_struct \<Rightarrow> mutex_struct exec" where
  "mutex_lock mtx = (if locked mtx \<noteq> 0 then mutex_lock mtx else ret (mtx\<lparr>locked := 1\<rparr>))"

definition mutex_unlock :: "mutex_struct \<Rightarrow> mutex_struct" where
  "mutex_unlock mtx =
     (let mtx = mtx\<lparr>locked := 0\<rparr> in
      case waiting mtx of None \<Rightarrow> mtx | Some t \<Rightarrow> mtx\<lparr>waiting := next_waiting t\<rparr>)"

definition held :: "mutex_struct \<Rightarrow> bool" where
  "held mtx \<longleftrightarrow> locked mtx \<noteq> 0"

lemma mutex_lock_free: "\<not> held mtx \<Longrightarrow> mutex_lock mtx = ret (mtx\<lparr>locked := 1\<rparr>)"
  by (subst mutex_lock.simps) (simp add: held_def)

lemma mutex_lock_returns: "mutex_lock mtx = Some r \<Longrightarrow> \<not> held mtx"
proof (rule mutex_lock.raw_induct [where P = "\<lambda>mtx r. \<not> held mtx"])
  fix f :: "mutex_struct \<Rightarrow> mutex_struct exec" and mtx r
  assume "\<And>mtx r. f mtx = Some r \<Longrightarrow> \<not> held mtx"
    and "(if locked mtx \<noteq> 0 then f mtx else ret (mtx\<lparr>locked := 1\<rparr>)) = Some r"
  then show "\<not> held mtx" by (auto simp: held_def split: if_splits)
qed

lemma mutex_lock_held: "held mtx \<Longrightarrow> mutex_lock mtx = None"
  using mutex_lock_returns by (cases "mutex_lock mtx") auto

lemma held_simps [simp]:
  "held (mtx\<lparr>locked := 1\<rparr>)" "\<not> held (mutex_init mtx)" "\<not> held (mutex_unlock mtx)"
  by (auto simp: held_def mutex_init_def mutex_unlock_def Let_def split: option.splits)

section \<open>The interface of a lock\<close>

text \<open>
  What a caller relies on: taking a free lock returns with the lock held, taking a held one never
  returns, and releasing leaves it free.
\<close>

locale lock =
  fixes acquire :: "'l \<Rightarrow> 'l exec"
    and release :: "'l \<Rightarrow> 'l"
    and is_held :: "'l \<Rightarrow> bool"
  assumes acquire_free: "\<not> is_held l \<Longrightarrow> \<exists>l'. acquire l = ret l' \<and> is_held l'"
    and acquire_held: "is_held l \<Longrightarrow> acquire l = None"
    and release_free: "\<not> is_held (release l)"
begin

lemma acquire_returns_iff: "acquire l \<noteq> None \<longleftrightarrow> \<not> is_held l"
  using acquire_free acquire_held by fastforce

lemma acquire_no_fault: "acquire l \<noteq> fail f"
  using acquire_free acquire_held by (cases "is_held l") fastforce+

lemma acquire_twice: "acquire l = ret l' \<Longrightarrow> acquire l' = None"
  using acquire_free acquire_held by (cases "is_held l") fastforce+

text \<open>A balanced critical section can be entered again; one that leaves without releasing cannot.\<close>

lemma section_reenter:
  "\<not> is_held l \<Longrightarrow> bindX (acquire l) (\<lambda>l'. acquire (release l')) \<noteq> None"
  using acquire_free release_free acquire_returns_iff by (fastforce simp: bindX_def)

lemma section_leak: "bindX (acquire l) acquire = None"
  using acquire_twice acquire_no_fault
  by (cases "acquire l") (auto simp: bindX_def split: sum.splits)

end

interpretation mutex: lock mutex_lock mutex_unlock held
  by unfold_locales (auto simp: mutex_lock_free mutex_lock_held)

section \<open>Threads that share a mutex\<close>

text \<open>
  Each thread runs \<open>mutex_lock\<close> (a test of \<open>locked\<close>, then the store of 1), its critical section and
  \<open>mutex_unlock\<close>. The flag \<open>preempt\<close> says whether another thread may run between the test and the store:
  the calls of \<open>cli()\<close> and \<open>sti()\<close> that would exclude it are commented out in the source, so with
  interrupts on it may; the test and the store are one step when nothing runs in between.
\<close>

datatype lock_pc = At_Check | At_Store | In_Section

record lock_system =
  lk :: mutex_struct
  pcs :: "nat \<Rightarrow> lock_pc"

definition lock_system_init :: lock_system where
  "lock_system_init = \<lparr>lk = \<lparr>locked = 0, waiting = None\<rparr>, pcs = (\<lambda>_. At_Check)\<rparr>"

inductive lock_step :: "bool \<Rightarrow> lock_system \<Rightarrow> lock_system \<Rightarrow> bool" for preempt where
  spin: "pcs s i = At_Check \<Longrightarrow> locked (lk s) \<noteq> 0 \<Longrightarrow> lock_step preempt s s"
| check: "pcs s i = At_Check \<Longrightarrow> locked (lk s) = 0 \<Longrightarrow> preempt \<Longrightarrow>
    lock_step preempt s (s\<lparr>pcs := (pcs s)(i := At_Store)\<rparr>)"
| store: "pcs s i = At_Store \<Longrightarrow>
    lock_step preempt s (s\<lparr>lk := (lk s)\<lparr>locked := 1\<rparr>, pcs := (pcs s)(i := In_Section)\<rparr>)"
| check_store: "pcs s i = At_Check \<Longrightarrow> mutex_lock (lk s) = ret mtx \<Longrightarrow> \<not> preempt \<Longrightarrow>
    lock_step preempt s (s\<lparr>lk := mtx, pcs := (pcs s)(i := In_Section)\<rparr>)"
| leave: "pcs s i = In_Section \<Longrightarrow>
    lock_step preempt s (s\<lparr>lk := mutex_unlock (lk s), pcs := (pcs s)(i := At_Check)\<rparr>)"

inductive lock_reachable :: "bool \<Rightarrow> lock_system \<Rightarrow> bool" for preempt where
  start: "lock_reachable preempt lock_system_init"
| step: "lock_reachable preempt s \<Longrightarrow> lock_step preempt s t \<Longrightarrow> lock_reachable preempt t"

inductive_cases atomic_stepE: "lock_step False s t"

definition lock_inv :: "lock_system \<Rightarrow> bool" where
  "lock_inv s \<longleftrightarrow>
     (\<forall>i. pcs s i \<noteq> At_Store) \<and>
     (\<forall>i j. pcs s i = In_Section \<longrightarrow> pcs s j = In_Section \<longrightarrow> i = j) \<and>
     (held (lk s) \<longleftrightarrow> (\<exists>i. pcs s i = In_Section))"

lemma lock_inv_init: "lock_inv lock_system_init"
  by (simp add: lock_inv_def lock_system_init_def held_def)

lemma lock_step_inv: "lock_step False s t \<Longrightarrow> lock_inv s \<Longrightarrow> lock_inv t"
proof (erule atomic_stepE)
  fix i mtx
  assume inv: "lock_inv s" and pc: "pcs s i = At_Check" and l: "mutex_lock (lk s) = ret mtx"
    and t: "t = s\<lparr>lk := mtx, pcs := (pcs s)(i := In_Section)\<rparr>"
  from l have "\<not> held (lk s)" by (rule mutex_lock_returns)
  with inv l have "\<And>j. pcs s j \<noteq> In_Section" "held mtx"
    by (auto simp: lock_inv_def mutex_lock_free)
  with inv t show "lock_inv t" by (auto simp: lock_inv_def)
next
  fix i
  assume inv: "lock_inv s" and pc: "pcs s i = In_Section"
    and t: "t = s\<lparr>lk := mutex_unlock (lk s), pcs := (pcs s)(i := At_Check)\<rparr>"
  then show "lock_inv t" by (auto simp: lock_inv_def)
qed (auto simp: lock_inv_def)

lemma lock_reachable_inv: "lock_reachable False s \<Longrightarrow> lock_inv s"
  by (induction rule: lock_reachable.induct) (auto intro: lock_inv_init lock_step_inv)

section \<open>Properties\<close>

text \<open>
  \<open>mutex_lock\<close> returns exactly when the mutex is free; then it changes nothing but \<open>locked\<close>, and a
  second call on the result never returns. \<open>mutex_unlock\<close> frees the mutex and takes the first waiting
  task off the queue.
\<close>

theorem mutex_lock_unlock_spec:
  "(mutex_lock mtx \<noteq> None \<longleftrightarrow> \<not> held mtx) \<and>
   (\<forall>mtx'. mutex_lock mtx = ret mtx' \<longrightarrow>
      mtx' = mtx\<lparr>locked := 1\<rparr> \<and> mutex_lock mtx' = None \<and>
      locked (mutex_unlock mtx') = 0 \<and>
      waiting (mutex_unlock mtx') = Option.bind (waiting mtx) next_waiting)"
proof -
  have "waiting (mutex_unlock m) = Option.bind (waiting m) next_waiting" and "locked (mutex_unlock m) = 0"
    for m by (auto simp: mutex_unlock_def Let_def split: option.splits)
  then show ?thesis
    by (cases "held mtx") (auto simp: mutex_lock_free mutex_lock_held)
qed

theorem mutex_lock_unlock_spec_witness:
  "mutex_lock \<lparr>locked = 0, waiting = None\<rparr> = ret \<lparr>locked = 1, waiting = None\<rparr> \<and>
   mutex_lock \<lparr>locked = 1, waiting = None\<rparr> = None"
  using mutex_lock_unlock_spec [of "\<lparr>locked = 0, waiting = None\<rparr>"]
  by (simp add: mutex_lock_free held_def)

text \<open>
  C11: Mutual exclusion. When nothing runs between the test of \<open>locked\<close> and the store of 1, no two threads
  are in the critical section at the same time, in any reachable state.
\<close>

theorem mutual_exclusion:
  assumes "lock_reachable False s" "pcs s i = In_Section" "pcs s j = In_Section"
  shows "i = j"
  using lock_reachable_inv [OF assms(1)] assms(2,3) by (simp add: lock_inv_def)

lemma reach_one_in_section:
  "lock_reachable False (lock_system_init
     \<lparr>lk := \<lparr>locked = 1, waiting = None\<rparr>, pcs := (pcs lock_system_init)(i := In_Section)\<rparr>)"
proof -
  have "lock_step False lock_system_init (lock_system_init
     \<lparr>lk := (lk lock_system_init)\<lparr>locked := 1\<rparr>, pcs := (pcs lock_system_init)(i := In_Section)\<rparr>)"
    by (rule lock_step.check_store) (auto simp: lock_system_init_def mutex_lock_free held_def)
  from lock_reachable.step [OF lock_reachable.start this]
  show ?thesis by (simp add: lock_system_init_def)
qed

theorem mutual_exclusion_witness:
  "\<exists>s. lock_reachable False s \<and> pcs s 3 = In_Section \<and> pcs s 4 \<noteq> In_Section"
proof (intro exI conjI notI)
  let ?s = "lock_system_init
     \<lparr>lk := \<lparr>locked = 1, waiting = None\<rparr>, pcs := (pcs lock_system_init)(3 := In_Section)\<rparr>"
  show "lock_reachable False ?s" by (rule reach_one_in_section)
  show pc: "pcs ?s 3 = In_Section" by simp
  show False if "pcs ?s 4 = In_Section"
    using mutual_exclusion [OF reach_one_in_section that pc] by simp
qed

lemma reach_check:
  "lock_reachable True \<lparr>lk = m, pcs = p\<rparr> \<Longrightarrow> p i = At_Check \<Longrightarrow> locked m = 0 \<Longrightarrow>
   lock_reachable True \<lparr>lk = m, pcs = p(i := At_Store)\<rparr>"
  using lock_step.check [of "\<lparr>lk = m, pcs = p\<rparr>" i True] by (auto intro: lock_reachable.step)

lemma reach_store:
  "lock_reachable True \<lparr>lk = m, pcs = p\<rparr> \<Longrightarrow> p i = At_Store \<Longrightarrow>
   lock_reachable True \<lparr>lk = m\<lparr>locked := 1\<rparr>, pcs = p(i := In_Section)\<rparr>"
  using lock_step.store [of "\<lparr>lk = m, pcs = p\<rparr>" i True] by (auto intro: lock_reachable.step)

text \<open>
  C40: Without the interrupt masking that the source has commented out the lock does not exclude: two
  threads that both pass the test before either stores reach their critical sections together.
\<close>

theorem mutex_preemption_race:
  "\<exists>s. lock_reachable True s \<and> pcs s 0 = In_Section \<and> pcs s 1 = In_Section"
proof -
  define free :: mutex_struct where "free = \<lparr>locked = 0, waiting = None\<rparr>"
  define p :: "nat \<Rightarrow> lock_pc" where "p = (\<lambda>_. At_Check)"
  have "lock_reachable True \<lparr>lk = free, pcs = p\<rparr>"
    unfolding free_def p_def lock_system_init_def [symmetric] by (rule lock_reachable.start)
  then have "lock_reachable True \<lparr>lk = free, pcs = p(0 := At_Store)\<rparr>"
    by (rule reach_check) (simp_all add: free_def p_def)
  then have "lock_reachable True \<lparr>lk = free, pcs = p(0 := At_Store, 1 := At_Store)\<rparr>"
    by (rule reach_check) (simp_all add: free_def p_def)
  from reach_store [OF this, of 0]
  have "lock_reachable True \<lparr>lk = free\<lparr>locked := 1\<rparr>,
      pcs = p(0 := At_Store, 1 := At_Store, 0 := In_Section)\<rparr>" by simp
  from reach_store [OF this, of 1]
  have "lock_reachable True \<lparr>lk = free\<lparr>locked := 1, locked := 1\<rparr>,
      pcs = p(0 := At_Store, 1 := At_Store, 0 := In_Section, 1 := In_Section)\<rparr>" by simp
  then show ?thesis by (intro exI conjI) (assumption | simp)+
qed

end
