(* ===== verification/CString.thy ===== *)
theory CString
  imports Prelude
begin

text \<open>
  The memory and string functions of the kernel's C library, \<open>libc/string.c\<close>, over flat memory. Every
  function takes the memory and returns the memory it leaves behind (and its result); a C string is a
  pointer to bytes that end in a zero. The loops whose end depends on finding that zero are
  \<open>partial_function\<close>s: with no zero byte anywhere they would not return. The predicate \<open>cstr m p s\<close>
  relates a pointer to the list of bytes it stands for, and each function is proved to compute, on the
  lists, what its name says, and to write nowhere else.
\<close>

section \<open>memset, memcpy, bzero\<close>

primrec memset_loop :: "nat \<Rightarrow> mem \<Rightarrow> addr \<Rightarrow> u8 \<Rightarrow> mem" where
  "memset_loop 0 m mptr value = m"
| "memset_loop (Suc n) m mptr value = memset_loop n (m(mptr := value)) (mptr + 1) value"

definition memset :: "mem \<Rightarrow> addr \<Rightarrow> u8 \<Rightarrow> u32 \<Rightarrow> mem \<times> addr" where
  "memset m p value n = (memset_loop (unat n) m p value, p)"

primrec memcpy_loop :: "nat \<Rightarrow> mem \<Rightarrow> addr \<Rightarrow> addr \<Rightarrow> mem" where
  "memcpy_loop 0 m dstp srcp = m"
| "memcpy_loop (Suc n) m dstp srcp = memcpy_loop n (m(dstp := m srcp)) (dstp + 1) (srcp + 1)"

definition memcpy :: "mem \<Rightarrow> addr \<Rightarrow> addr \<Rightarrow> u32 \<Rightarrow> mem \<times> addr" where
  "memcpy m dest src n = (memcpy_loop (unat n) m dest src, dest)"

primrec bzero_loop :: "nat \<Rightarrow> mem \<Rightarrow> addr \<Rightarrow> mem" where
  "bzero_loop 0 m ptr = m"
| "bzero_loop (Suc n) m ptr = bzero_loop n (m(ptr := 0)) (ptr + 1)"

definition bzero :: "mem \<Rightarrow> addr \<Rightarrow> u32 \<Rightarrow> mem" where
  "bzero m s n = bzero_loop (unat n) m s"

lemma memset_loop_eq:
  "n \<le> 4294967296 \<Longrightarrow> memset_loop n m p v = (\<lambda>x. if in_range x p n then v else m x)"
proof (induction n arbitrary: m p)
  case 0
  then show ?case by simp
next
  case (Suc n)
  then show ?case by (auto simp: in_range_Suc not_in_range_next fun_eq_iff)
qed

lemma bzero_loop_memset: "bzero_loop n m p = memset_loop n m p 0"
  by (induction n arbitrary: m p) auto

text \<open>
  The copy goes upwards: it is the copy of the original bytes unless the destination starts inside the
  source range, above its first byte.
\<close>

lemma memcpy_loop_eq:
  assumes "n \<le> 4294967296" "d = s \<or> n \<le> unat (d - s)"
  shows "memcpy_loop n m d s = (\<lambda>x. if in_range x d n then m (s + (x - d)) else m x)"
  using assms
proof (induction n arbitrary: m d s)
  case 0
  then show ?case by simp
next
  case (Suc n)
  then have n: "n < 4294967296" by simp
  have "d + 1 = s + 1 \<or> n \<le> unat ((d + 1) - (s + 1))" using Suc.prems by auto
  from Suc.IH [OF _ this] n
  have IH: "memcpy_loop n (m(d := m s)) (d + 1) (s + 1) =
    (\<lambda>x. if in_range x (d + 1) n then (m(d := m s)) ((s + 1) + (x - (d + 1))) else (m(d := m s)) x)"
    by simp
  have sd: "s + 1 + (x - (d + 1)) = s + (x - d)" for x by simp
  show ?case
  proof
    fix x
    show "memcpy_loop (Suc n) m d s x = (if in_range x d (Suc n) then m (s + (x - d)) else m x)"
    proof (cases "in_range x (d + 1) n")
      case True
      have "s + (x - d) = d \<Longrightarrow> d = s"
      proof -
        assume "s + (x - d) = d"
        then have "x - d = d - s" by (metis add_diff_cancel_left')
        with True n Suc.prems(2) show "d = s"
          using in_range_Suc [of n x d] by (auto simp: in_range_def)
      qed
      then have "(m(d := m s)) (s + (x - d)) = m (s + (x - d))" by (metis fun_upd_apply)
      with True n IH show ?thesis by (simp add: in_range_Suc sd del: fun_upd_apply)
    next
      case False
      with n IH show ?thesis by (auto simp: in_range_Suc)
    qed
  qed
qed

section \<open>Strings\<close>

primrec cstr :: "mem \<Rightarrow> addr \<Rightarrow> u8 list \<Rightarrow> bool" where
  "cstr m p [] \<longleftrightarrow> m p = 0"
| "cstr m p (c # cs) \<longleftrightarrow> m p = c \<and> c \<noteq> 0 \<and> cstr m (p + 1) cs"

partial_function (option) strlen_loop :: "mem \<Rightarrow> addr \<Rightarrow> u32 \<Rightarrow> u32 exec" where
  "strlen_loop m s len = (if m s \<noteq> 0 then strlen_loop m (s + 1) (len + 1) else ret len)"

definition strlen :: "mem \<Rightarrow> addr \<Rightarrow> u32 exec" where
  "strlen m s = strlen_loop m s 0"

text \<open>\<open>char\<close> is signed on this target: \<open>s1[i] < s2[i]\<close> is the signed comparison.\<close>

partial_function (option) strcmp_loop :: "mem \<Rightarrow> addr \<Rightarrow> addr \<Rightarrow> u32 \<Rightarrow> s32 exec" where
  "strcmp_loop m s1 s2 i =
     (if m (s1 + i) \<noteq> m (s2 + i) then ret (if m (s1 + i) <s m (s2 + i) then - 1 else 1)
      else if m (s1 + i) = 0 then ret 0
      else strcmp_loop m s1 s2 (i + 1))"

definition strcmp :: "mem \<Rightarrow> addr \<Rightarrow> addr \<Rightarrow> s32 exec" where
  "strcmp m s1 s2 = strcmp_loop m s1 s2 0"

partial_function (option) strcpy_loop :: "mem \<Rightarrow> addr \<Rightarrow> addr \<Rightarrow> mem exec" where
  "strcpy_loop m dest src =
     (if m src \<noteq> 0 then strcpy_loop (m(dest := m src)) (dest + 1) (src + 1) else ret (m(dest := 0)))"

definition strcpy :: "mem \<Rightarrow> addr \<Rightarrow> addr \<Rightarrow> (mem \<times> addr) exec" where
  "strcpy m dest src = bindX (strcpy_loop m dest src) (\<lambda>m. ret (m, dest))"

text \<open>\<open>while (*dest++); dest--;\<close> leaves \<open>dest\<close> on the terminator; the copy is the loop of \<open>strcpy\<close>.\<close>

partial_function (option) strend_loop :: "mem \<Rightarrow> addr \<Rightarrow> addr exec" where
  "strend_loop m dest = (if m dest \<noteq> 0 then strend_loop m (dest + 1) else ret dest)"

definition strcat :: "mem \<Rightarrow> addr \<Rightarrow> addr \<Rightarrow> (mem \<times> addr) exec" where
  "strcat m dest src =
     bindX (strend_loop m dest) (\<lambda>d. bindX (strcpy_loop m d src) (\<lambda>m. ret (m, dest)))"

lemma cstr_nz: "cstr m p s \<Longrightarrow> 0 \<notin> set s"
  by (induction s arbitrary: p) auto

lemma cstr_cong:
  assumes "\<And>x. in_range x p (Suc (length s)) \<Longrightarrow> m x = m' x" "length s < 4294967296"
  shows "cstr m p s = cstr m' p s"
  using assms
proof (induction s arbitrary: p)
  case Nil
  then show ?case by (simp add: in_range_def)
next
  case (Cons c s)
  from Cons.prems have "m p = m' p" by (simp add: in_range_def)
  moreover have "cstr m (p + 1) s = cstr m' (p + 1) s"
    using Cons.prems by (intro Cons.IH) (auto simp: in_range_Suc)
  ultimately show ?case by simp
qed

lemma strlen_loop_cstr: "cstr m p s \<Longrightarrow> strlen_loop m p len = ret (len + of_nat (length s))"
  by (induction s arbitrary: p len) (simp_all add: strlen_loop.simps algebra_simps)

lemma strend_loop_cstr: "cstr m p s \<Longrightarrow> strend_loop m p = ret (p + of_nat (length s))"
  by (induction s arbitrary: p) (simp_all add: strend_loop.simps algebra_simps)

text \<open>The order \<open>strcmp\<close> computes: the first difference decides, by signed characters, a proper prefix is smaller.\<close>

fun strcmp_spec :: "u8 list \<Rightarrow> u8 list \<Rightarrow> s32" where
  "strcmp_spec [] [] = 0"
| "strcmp_spec [] (d # t) = (if 0 <s d then - 1 else 1)"
| "strcmp_spec (c # s) [] = (if c <s 0 then - 1 else 1)"
| "strcmp_spec (c # s) (d # t) =
     (if c \<noteq> d then (if c <s d then - 1 else 1) else strcmp_spec s t)"

lemma strcmp_spec_eq_0: "0 \<notin> set s \<Longrightarrow> 0 \<notin> set t \<Longrightarrow> strcmp_spec s t = 0 \<longleftrightarrow> s = t"
  by (induction s t rule: strcmp_spec.induct) auto

lemma strcmp_loop_cstr:
  "cstr m (p + i) s \<Longrightarrow> cstr m (q + i) t \<Longrightarrow> strcmp_loop m p q i = ret (strcmp_spec s t)"
proof (induction s t arbitrary: i rule: strcmp_spec.induct)
  case (4 c s d t)
  then show ?case by (subst strcmp_loop.simps) (auto simp: algebra_simps)
qed (subst strcmp_loop.simps, auto)+

text \<open>The copy of a string is the copy of its bytes and its terminator.\<close>

lemma strcpy_loop_cstr:
  assumes "cstr m p s" "length s < 4294967295" "d = p \<or> Suc (length s) \<le> unat (d - p)"
  shows "strcpy_loop m d p = ret (memcpy_loop (Suc (length s)) m d p)"
  using assms
proof (induction s arbitrary: m p d)
  case Nil
  then show ?case by (simp add: strcpy_loop.simps [of m d p] fun_upd_def)
next
  case (Cons c s)
  have "cstr (m(d := m p)) (p + 1) s"
  proof (cases "d = p")
    case True
    then have "m(d := m p) = m" by (simp add: fun_upd_idem)
    with Cons.prems show ?thesis by simp
  next
    case False
    then have nz: "d - p \<noteq> 0" by simp
    have "unat (d - (p + 1)) = unat (d - p) - 1"
      using unat_minus_one [OF nz] by (simp add: diff_diff_add)
    then have "\<not> in_range d (p + 1) (Suc (length s))"
      using Cons.prems False by (auto simp: in_range_def)
    then have "cstr (m(d := m p)) (p + 1) s = cstr m (p + 1) s"
      using Cons.prems by (intro cstr_cong) auto
    with Cons.prems show ?thesis by simp
  qed
  moreover have "d + 1 = p + 1 \<or> Suc (length s) \<le> unat ((d + 1) - (p + 1))"
    using Cons.prems by auto
  ultimately have "strcpy_loop (m(d := m p)) (d + 1) (p + 1) =
      ret (memcpy_loop (Suc (length s)) (m(d := m p)) (d + 1) (p + 1))"
    using Cons.prems(2) by (intro Cons.IH) (assumption | simp)+
  moreover have "strcpy_loop m d p = strcpy_loop (m(d := m p)) (d + 1) (p + 1)"
    using Cons.prems(1) by (subst strcpy_loop.simps) auto
  ultimately show ?case by (simp only: memcpy_loop.simps list.size add_Suc_right add_0_right)
qed

section \<open>Bytes written in a row\<close>

primrec put_bytes :: "mem \<Rightarrow> addr \<Rightarrow> u8 list \<Rightarrow> mem" where
  "put_bytes m p [] = m"
| "put_bytes m p (b # bs) = put_bytes (m(p := b)) (p + 1) bs"

lemma put_bytes_append:
  "put_bytes m p (bs @ cs) = put_bytes (put_bytes m p bs) (p + of_nat (length bs)) cs"
  by (induction bs arbitrary: m p) (simp_all add: algebra_simps)

lemma put_bytes_other:
  "length bs \<le> 4294967296 \<Longrightarrow> \<not> in_range x p (length bs) \<Longrightarrow> put_bytes m p bs x = m x"
proof (induction bs arbitrary: m p)
  case (Cons b bs)
  then show ?case by (simp add: in_range_Suc)
qed simp

lemma put_bytes_nth:
  assumes "k < length bs" "length bs \<le> 4294967296"
  shows "put_bytes m p bs (p + of_nat k) = bs ! k"
  using assms
proof (induction bs arbitrary: m p k)
  case (Cons b bs)
  show ?case
  proof (cases k)
    case 0
    then show ?thesis using put_bytes_other [of bs p "p + 1" "m(p := b)"] Cons.prems by (simp add: not_in_range_next)
  next
    case (Suc j)
    then show ?thesis using Cons.IH [of j "m(p := b)" "p + 1"] Cons.prems by (simp add: algebra_simps del: fun_upd_apply)
  qed
qed simp

lemma cstr_put_bytes:
  "0 \<notin> set s \<Longrightarrow> length s < 4294967295 \<Longrightarrow> cstr (put_bytes m p (s @ [0])) p s"
proof (induction s arbitrary: m p)
  case (Cons c s)
  have "put_bytes (m(p := c)) (p + 1) (s @ [0]) p = (m(p := c)) p"
    using Cons.prems by (intro put_bytes_other) (auto simp: not_in_range_next)
  with Cons show ?case by simp
qed simp

lemma cstr_unique: "cstr m p s \<Longrightarrow> cstr m p t \<Longrightarrow> s = t"
proof (induction s arbitrary: p t)
  case Nil
  then show ?case by (cases t) auto
next
  case (Cons c s)
  then show ?case by (cases t) auto
qed

lemma cstr_index:
  "cstr m p s \<longleftrightarrow> (\<forall>k<length s. m (p + of_nat k) = s ! k) \<and> m (p + of_nat (length s)) = 0 \<and> 0 \<notin> set s"
proof (induction s arbitrary: p)
  case (Cons c s)
  have "(\<forall>k<length (c # s). m (p + of_nat k) = (c # s) ! k) \<longleftrightarrow>
      m p = c \<and> (\<forall>k<length s. m (p + 1 + of_nat k) = s ! k)"
    by (auto simp: less_Suc_eq_0_disj algebra_simps)
  with Cons show ?case by (auto simp: algebra_simps)
qed simp

section \<open>reverse\<close>

text \<open>\<open>for (i = 0, j = strlen(s) - 1; i < j; i++, j--)\<close> swaps \<open>s[i]\<close> and \<open>s[j]\<close>; the indices are \<open>int\<close>s.\<close>

function reverse_loop :: "mem \<Rightarrow> addr \<Rightarrow> s32 \<Rightarrow> s32 \<Rightarrow> mem" where
  "reverse_loop m s i j =
     (if i <s j then
        let c = m (s + i);
            m = m(s + i := m (s + j));
            m = m(s + j := c)
        in reverse_loop m s (i + 1) (j - 1)
      else m)"
  by pat_completeness auto
termination
proof (relation "measure (\<lambda>(m, s, i, j). nat (sint j - sint i))")
  fix m :: mem and s :: addr and i j :: s32 and x xa xb
  assume "i <s j"
  then have "sint i < sint j" by (simp add: word_sless_alt)
  moreover have "sint (i + 1) = sint i + 1" "sint (j - 1) = sint j - 1"
    using \<open>sint i < sint j\<close> sint_s32_range [of i] sint_s32_range [of j]
    by (simp_all add: sint_add_nowrap sint_sub_nowrap)
  ultimately show "((xb, s, i + 1, j - 1), (m, s, i, j)) \<in> measure (\<lambda>(m, s, i, j). nat (sint j - sint i))"
    by simp
qed simp

declare reverse_loop.simps [simp del]

text \<open>
  The loop from index \<open>a\<close> over \<open>n\<close> bytes exchanges the byte \<open>k\<close> with the byte \<open>n - 1 - k\<close>; induction takes
  the two ends off.
\<close>

lemma reverse_loop_done: "n \<le> 1 \<Longrightarrow> a + n < 2147483648 \<Longrightarrow>
  reverse_loop m s (of_nat a) (of_nat (a + n) - 1) = m"
proof -
  assume n: "n \<le> 1" "a + n < 2147483648"
  note sn = sint_of_nat_pred [OF n(2)]
  have "\<not> (of_nat a :: s32) <s of_nat (a + n) - 1"
    using n by (simp only: word_sless_alt sn) (simp add: sint_of_nat_s32)
  then show ?thesis by (subst reverse_loop.simps) simp
qed

lemma reverse_loop_step: "2 \<le> n \<Longrightarrow> a + n < 2147483648 \<Longrightarrow>
  reverse_loop m s (of_nat a) (of_nat (a + n) - 1) =
  reverse_loop (m(s + of_nat a := m (s + of_nat (a + n - 1)), s + of_nat (a + n - 1) := m (s + of_nat a)))
    s (of_nat (Suc a)) (of_nat (Suc a + (n - 2)) - 1)"
proof -
  assume n: "2 \<le> n" "a + n < 2147483648"
  note sn = sint_of_nat_pred [OF n(2)]
  have less: "(of_nat a :: s32) <s of_nat (a + n) - 1"
    using n by (simp only: word_sless_alt sn) (simp add: sint_of_nat_s32)
  have j: "of_nat (a + n) - 1 = (of_nat (a + n - 1) :: s32)" using n by (simp add: of_nat_diff)
  have j': "of_nat (a + n - 1) - 1 = (of_nat (Suc a + (n - 2)) - 1 :: s32)"
    using n by (simp add: of_nat_diff)
  show ?thesis
    using less unfolding j
    by (subst reverse_loop.simps) (simp only: if_True Let_def j' of_nat_Suc add.commute)
qed

lemma reverse_loop_spec:
  fixes m :: mem and s :: addr
  assumes "a + n < 2147483648"
  defines "m' \<equiv> reverse_loop m s (of_nat a) (of_nat (a + n) - 1)"
  shows "(\<forall>k<n. m' (s + of_nat (a + k)) = m (s + of_nat (a + (n - 1 - k)))) \<and>
     (\<forall>x. \<not> in_range x (s + of_nat a) n \<longrightarrow> m' x = m x)"
  using assms(1) unfolding m'_def
proof (induction n arbitrary: a m rule: less_induct)
  case (less n)
  show ?case
  proof (cases "n \<le> 1")
    case True
    with less.prems show ?thesis
      by (simp only: reverse_loop_done) (auto simp: le_Suc_eq)
  next
    case False
    then have n: "2 \<le> n" "a + n < 2147483648" using less.prems by auto
    define ix where "ix k = s + of_nat k" for k
    define m1 where "m1 = m(ix a := m (ix (a + n - 1)), ix (a + n - 1) := m (ix a))"
    define r where "r = reverse_loop m1 s (of_nat (Suc a)) (of_nat (Suc a + (n - 2)) - 1)"
    have ix: "ix k = ix l \<longleftrightarrow> k = l" if "k < 4294967296" "l < 4294967296" for k l
      unfolding ix_def using that by (rule index_eq_iff)
    have range: "in_range x (ix b) l \<longleftrightarrow> (\<exists>k<l. x = ix (b + k))" if "l \<le> 4294967296" for x b l
      using that unfolding ix_def by (subst in_range_iff) (simp_all add: algebra_simps)
    have smaller: "n - 2 < n" "Suc a + (n - 2) < 2147483648" using n by linarith+
    note IH = less.IH [OF smaller, of m1, folded ix_def r_def]
    have far: "\<not> in_range (ix a) (ix (Suc a)) (n - 2)" "\<not> in_range (ix (a + n - 1)) (ix (Suc a)) (n - 2)"
      and ends: "ix a \<noteq> ix (a + n - 1)"
      using n by (auto simp: range ix)
    have m1: "m1 (ix a) = m (ix (a + n - 1))" "m1 (ix (a + n - 1)) = m (ix a)"
      "x \<noteq> ix a \<Longrightarrow> x \<noteq> ix (a + n - 1) \<Longrightarrow> m1 x = m x" for x
      using ends by (simp_all add: m1_def)
    have "r (ix (a + k)) = m (ix (a + (n - 1 - k)))" if k: "k < n" for k
    proof -
      consider "k = 0" | "k = n - 1" "k \<noteq> 0" | j where "k = Suc j" "j < n - 2"
        using k n by (cases k) (auto, linarith)
      then show ?thesis
      proof cases
        case 1
        have "r (ix a) = m1 (ix a)" using IH far by blast
        with m1 1 n show ?thesis by simp
      next
        case 2
        have "r (ix (a + n - 1)) = m1 (ix (a + n - 1))" using IH far by blast
        with m1 2 n show ?thesis by simp
      next
        case 3
        then have "r (ix (Suc a + j)) = m1 (ix (Suc a + (n - 2 - 1 - j)))" using IH by blast
        moreover have "Suc a + (n - 2 - 1 - j) = a + (n - 1 - k)" "Suc a + j = a + k"
          using 3 n by linarith+
        moreover have "ix (a + (n - 1 - k)) \<noteq> ix a" "ix (a + (n - 1 - k)) \<noteq> ix (a + n - 1)"
          using 3 n by (simp_all add: ix)
        ultimately show ?thesis using m1(3) by metis
      qed
    qed
    moreover have "r x = m x" if x: "\<not> in_range x (ix a) n" for x
    proof -
      have out: "x \<noteq> ix (a + k)" if "k < n" for k
        using x n that by (simp add: range)
      have "x \<noteq> ix a" "x \<noteq> ix (a + n - 1)" using out [of 0] out [of "n - 1"] n by simp_all
      then have "m1 x = m x" by (rule m1)
      moreover have "\<not> in_range x (ix (Suc a)) (n - 2)"
        using out [of "Suc _"] n by (auto simp: range)
      ultimately show ?thesis using IH by metis
    qed
    moreover have "reverse_loop m s (of_nat a) (of_nat (a + n) - 1) = r"
      unfolding reverse_loop_step [OF n] r_def m1_def ix_def ..
    ultimately show ?thesis unfolding ix_def by blast
  qed
qed

definition reverse :: "mem \<Rightarrow> addr \<Rightarrow> (mem \<times> addr) exec" where
  "reverse m s = bindX (strlen m s) (\<lambda>len. ret (reverse_loop m s 0 (len - 1), s))"

lemma reverse_cstr:
  assumes "cstr m p s" "length s < 2147483648"
  shows "\<exists>m'. reverse m p = ret (m', p) \<and> cstr m' p (rev s) \<and>
     (\<forall>x. \<not> in_range x p (length s) \<longrightarrow> m' x = m x)"
proof -
  define m' where "m' = reverse_loop m p 0 (of_nat (length s) - 1)"
  have spec: "\<forall>k<length s. m' (p + of_nat k) = m (p + of_nat (length s - 1 - k))"
    "\<forall>x. \<not> in_range x p (length s) \<longrightarrow> m' x = m x"
    using reverse_loop_spec [of 0 "length s" m p] assms(2) unfolding m'_def by simp_all
  have "reverse m p = ret (m', p)"
    using assms(1) by (simp add: reverse_def strlen_def strlen_loop_cstr m'_def)
  moreover have "cstr m' p (rev s)"
  proof -
    have "m' (p + of_nat (length s)) = m (p + of_nat (length s))"
      using assms(2) spec(2) by (simp add: in_range_def)
    moreover have "m' (p + of_nat k) = rev s ! k" if "k < length s" for k
    proof -
      have "m' (p + of_nat k) = m (p + of_nat (length s - 1 - k))" using spec(1) that by blast
      also have "\<dots> = s ! (length s - 1 - k)"
        using assms(1) that unfolding cstr_index by (metis diff_Suc_less diff_diff_left length_pos_if_in_set
            less_nat_zero_code not_gr_zero plus_1_eq_Suc)
      finally show ?thesis using that by (simp add: rev_nth)
    qed
    ultimately show ?thesis using assms(1) by (simp add: cstr_index)
  qed
  ultimately show ?thesis using spec(2) by blast
qed

section \<open>Numbers\<close>

definition nchar :: "s32 \<Rightarrow> u8" where
  "nchar x =
     (let x = (if x <s 0 then - x else x)
      in if x <s 10 then ucast (0x30 + x) else ucast (0x61 + x - 10))"

text \<open>\<open>for (i = 0; x > 0; i++) \<dots>\<close> of \<open>utoa\<close>: the digits, lowest first.\<close>

function utoa_loop :: "mem \<Rightarrow> addr \<Rightarrow> u32 \<Rightarrow> u32 \<Rightarrow> mem \<times> u32" where
  "utoa_loop m buf x i =
     (if x > 0 then utoa_loop (m(buf + i := nchar (x mod 10))) buf (x div 10) (i + 1) else (m, i))"
  by pat_completeness auto
termination
  by (relation "measure (\<lambda>(m, buf, x, i). unat x)") (auto simp: unat_div_word word_less_nat_alt)

declare utoa_loop.simps [simp del]

text \<open>\<open>while (pad-- > 0) buf[i++] = '0';\<close>\<close>

function pad_loop :: "mem \<Rightarrow> addr \<Rightarrow> u32 \<Rightarrow> s32 \<Rightarrow> mem \<times> u32" where
  "pad_loop m buf i pad = (if 0 <s pad then pad_loop (m(buf + i := 0x30)) buf (i + 1) (pad - 1) else (m, i))"
  by pat_completeness auto
termination
proof (relation "measure (\<lambda>(m, buf, i, pad). nat (sint pad))")
  fix m :: mem and buf :: addr and i :: u32 and pad :: s32
  assume "0 <s pad"
  then have "0 < sint pad" by (simp add: word_sless_alt)
  moreover from this have "sint (pad - 1) = sint pad - 1"
    using sint_s32_range [of pad] by (subst sint_sub_nowrap) auto
  ultimately show "((m(buf + i := 0x30), buf, i + 1, pad - 1), (m, buf, i, pad))
      \<in> measure (\<lambda>(m, buf, i, pad). nat (sint pad))" by simp
qed simp

declare pad_loop.simps [simp del]

definition utoa :: "mem \<Rightarrow> u32 \<Rightarrow> addr \<Rightarrow> s32 \<Rightarrow> (mem \<times> addr) exec" where
  "utoa m x buf pad =
     (let pad = (if pad <s 1 then 1 else pad);
          (m, i) = utoa_loop m buf x 0;
          (m, i) = pad_loop m buf i (pad - i);
          m = m(buf + i := 0)
      in bindX (reverse m buf) (\<lambda>(m, _). ret (m, buf)))"

definition itoa :: "mem \<Rightarrow> s32 \<Rightarrow> addr \<Rightarrow> s32 \<Rightarrow> (mem \<times> addr) exec" where
  "itoa m x buf pad =
     (let x = (if x <s 0 then - x else x)
      in bindX (utoa m x buf pad) (\<lambda>(m, _). ret (m, buf)))"

text \<open>\<open>for (int i = len - 1; i >= 0; i--)\<close>; the first argument is \<open>i + 1\<close>.\<close>

primrec atoi_loop :: "nat \<Rightarrow> mem \<Rightarrow> addr \<Rightarrow> s32 \<Rightarrow> s32 \<Rightarrow> s32" where
  "atoi_loop 0 m nptr x base = x"
| "atoi_loop (Suc i) m nptr x base =
     atoi_loop i m nptr (x + (scast (m (nptr + of_nat i)) - 0x30) * base) (base * 10)"

definition atoi :: "mem \<Rightarrow> addr \<Rightarrow> s32 exec" where
  "atoi m nptr =
     bindX (strlen m nptr) (\<lambda>len. ret (atoi_loop (nat (sint (len - 1) + 1)) m nptr 0 1))"

text \<open>
  \<open>for (int i = 7; i >= 0; i--)\<close> of \<open>xtoa\<close>; the first argument is \<open>i + 1\<close>, \<open>begin\<close> the flag that is still
  set while only zeros have been seen.
\<close>

primrec xtoa_loop :: "nat \<Rightarrow> mem \<Rightarrow> u32 \<Rightarrow> addr \<Rightarrow> s32 \<Rightarrow> bool \<Rightarrow> mem \<times> addr" where
  "xtoa_loop 0 m x buf pad begin_flag = (m, buf)"
| "xtoa_loop (Suc i) m x buf pad begin_flag =
     (let c = nchar (drop_bit (i * 4) x AND 0xf)
      in if c = 0x30 \<and> begin_flag \<and> pad \<le>s of_nat i
         then xtoa_loop i m x buf pad begin_flag
         else xtoa_loop i (m(buf := c)) x (buf + 1) pad False)"

definition xtoa :: "mem \<Rightarrow> u32 \<Rightarrow> addr \<Rightarrow> s32 \<Rightarrow> mem \<times> addr" where
  "xtoa m x buf pad =
     (let pad = (if pad <s 1 then 1 else pad);
          (m, b) = xtoa_loop 8 m x buf pad True
      in (m(b := 0), buf))"

subsection \<open>The decimal digits\<close>

fun rdigits :: "nat \<Rightarrow> u8 list" where
  "rdigits n = (if n = 0 then [] else (48 + of_nat (n mod 10)) # rdigits (n div 10))"

declare rdigits.simps [simp del]

lemma rdigits_0 [simp]: "rdigits 0 = []"
  by (simp add: rdigits.simps)

definition decimal :: "nat \<Rightarrow> nat \<Rightarrow> u8 list" where
  "decimal n pad = replicate (pad - length (rdigits n)) 48 @ rev (rdigits n)"

lemma u32_small_cases: "x < of_nat n \<Longrightarrow> n < 4294967296 \<Longrightarrow> \<exists>k<n. (x :: u32) = of_nat k"
  by (metis of_nat_unat_u32 unat_of_nat_u32 word_less_nat_alt)

lemma nchar_hex: "x < 16 \<Longrightarrow> nchar x = (if x < 10 then 48 + of_nat (unat x) else 87 + of_nat (unat x))"
proof -
  assume "x < 16"
  then obtain k where k: "k < 16" "x = of_nat k" using u32_small_cases [of x 16] by auto
  then have "k \<in> set [0..<16]" by simp
  then show ?thesis unfolding k(2) by (simp add: upt_rec) (elim disjE; simp add: nchar_def word_sless_alt)
qed

lemma nchar_digit: "x < 10 \<Longrightarrow> nchar x = 48 + of_nat (unat x)"
proof -
  assume x: "x < 10"
  then have "x < 16" by (simp add: word_less_nat_alt)
  with x show ?thesis by (simp add: nchar_hex)
qed

lemma rdigits_pos: "0 < n \<Longrightarrow> rdigits n = (48 + of_nat (n mod 10)) # rdigits (n div 10)"
  by (simp add: rdigits.simps [of n])

lemma digit_nonzero: "d < 10 \<Longrightarrow> (48 + of_nat d :: u8) \<noteq> 0"
proof -
  assume d: "d < 10"
  have "unat (48 + of_nat d :: u8) = 48 + d" using d by (simp add: unat_word_ariths unat_of_nat)
  then show ?thesis by auto
qed

lemma rdigits_nonzero: "0 \<notin> set (rdigits n)"
proof (induction n rule: rdigits.induct)
  case (1 n)
  show ?case
  proof (cases "n = 0")
    case False
    with 1 show ?thesis using digit_nonzero [of "n mod 10"] by (simp add: rdigits_pos)
  qed simp
qed

lemma length_rdigits: "n < 10 ^ k \<Longrightarrow> length (rdigits n) \<le> k"
proof (induction k arbitrary: n)
  case (Suc k)
  then show ?case by (cases "n = 0") (auto simp: rdigits_pos)
qed simp

lemma length_rdigits_u32: "length (rdigits (unat (x :: u32))) \<le> 10"
  by (rule length_rdigits) (rule less_le_trans [OF unat_u32_lt], simp)

lemma div_mod_10: "unat (x mod 10 :: u32) = unat x mod 10" "unat (x div 10 :: u32) = unat x div 10"
  by (simp_all add: unat_mod_word unat_div_word)

lemma utoa_loop_eq:
  "utoa_loop m buf x i =
    (put_bytes m (buf + i) (rdigits (unat x)), i + of_nat (length (rdigits (unat x))))"
proof (induction m buf x i rule: utoa_loop.induct)
  case (1 m buf x i)
  show ?case
  proof (cases "x = 0")
    case True
    then show ?thesis by (simp add: utoa_loop.simps)
  next
    case False
    then have "0 < x" "0 < unat x" by (simp_all add: word_gt_0 unat_gt_0)
    moreover have "x mod 10 < 10" by (simp add: word_less_nat_alt unat_mod_word)
    ultimately show ?thesis
      using 1 by (simp add: utoa_loop.simps [of m buf x i] rdigits_pos nchar_digit div_mod_10 add.assoc
          del: fun_upd_apply)
  qed
qed

lemma pad_loop_eq:
  "pad_loop m buf i pad =
    (put_bytes m (buf + i) (replicate (nat (sint pad)) 48), i + of_nat (nat (sint pad)))"
proof (induction m buf i pad rule: pad_loop.induct)
  case (1 m buf i pad)
  show ?case
  proof (cases "0 <s pad")
    case False
    then show ?thesis by (simp add: pad_loop.simps word_sless_alt)
  next
    case True
    then have pos: "0 < sint pad" by (simp add: word_sless_alt)
    then have "sint (pad - 1) = sint pad - 1"
      using sint_s32_range [of pad] by (subst sint_sub_nowrap) auto
    then have "nat (sint pad) = Suc (nat (sint (pad - 1)))" using pos by simp
    with 1 True show ?thesis
      by (simp add: pad_loop.simps [of m buf i pad] add.assoc del: fun_upd_apply)
  qed
qed

lemma length_decimal: "length (decimal n pad) = max pad (length (rdigits n))"
  by (auto simp: decimal_def)

lemma decimal_nonzero: "0 \<notin> set (decimal n pad)"
  using rdigits_nonzero by (auto simp: decimal_def)

text \<open>The minimal field width \<open>utoa\<close> and \<open>xtoa\<close> work with.\<close>

definition field :: "s32 \<Rightarrow> nat" where
  "field pad = (if sint pad < 1 then 1 else nat (sint pad))"

lemma field_bound: "1 \<le> field pad" "field pad < 2147483648"
  using sint_s32_range [of pad] by (auto simp: field_def)

lemma utoa_digits:
  "utoa m x buf pad =
    bindX (reverse (put_bytes m buf (rev (decimal (unat x) (field pad)) @ [0])) buf) (\<lambda>(m, _). ret (m, buf))"
proof -
  let ?ds = "rdigits (unat x)" and ?p = "if pad <s 1 then 1 else pad"
  let ?l = "of_nat (length ?ds) :: u32"
  have p: "int (field pad) = sint ?p" by (auto simp: field_def word_sless_alt)
  have l: "sint ?l = int (length ?ds)" using length_rdigits_u32 [of x] by (intro sint_of_nat_s32) simp
  have "sint (?p - ?l) = sint ?p - int (length ?ds)"
    using length_rdigits_u32 [of x] p field_bound [of pad] l
    by (subst sint_sub_nowrap) linarith+
  then have n: "nat (sint (?p - ?l)) = field pad - length ?ds" using p by simp
  have "put_bytes m buf (rev (decimal (unat x) (field pad)) @ [0]) =
     (put_bytes (put_bytes m buf ?ds) (buf + ?l) (replicate (field pad - length ?ds) 48))
       (buf + (?l + of_nat (field pad - length ?ds)) := 0)"
    by (simp add: decimal_def put_bytes_append add.assoc)
  then show ?thesis
    by (simp only: utoa_def utoa_loop_eq pad_loop_eq Let_def split n add_0_left add_0_right)
qed

lemma utoa_cstr:
  "\<exists>m'. utoa m x buf pad = ret (m', buf) \<and> cstr m' buf (decimal (unat x) (field pad)) \<and>
     (\<forall>y. \<not> in_range y buf (Suc (max (field pad) (length (rdigits (unat x))))) \<longrightarrow> m' y = m y)"
proof -
  let ?d = "decimal (unat x) (field pad)"
  let ?m = "put_bytes m buf (rev ?d @ [0])"
  have len: "length ?d < 2147483648"
    using length_rdigits_u32 [of x] field_bound [of pad] by (simp add: length_decimal)
  then have "cstr ?m buf (rev ?d)"
    using decimal_nonzero by (intro cstr_put_bytes) auto
  from reverse_cstr [OF this] len obtain m' where m':
    "reverse ?m buf = ret (m', buf)" "cstr m' buf ?d" "\<forall>y. \<not> in_range y buf (length ?d) \<longrightarrow> m' y = ?m y"
    by auto
  have "m' y = m y" if "\<not> in_range y buf (Suc (length ?d))" for y
  proof -
    have "?m y = m y" using that len by (intro put_bytes_other) auto
    moreover have "\<not> in_range y buf (length ?d)" using that by (auto simp: in_range_def)
    ultimately show ?thesis using m'(3) by simp
  qed
  with m' show ?thesis by (auto simp: utoa_digits length_decimal)
qed

subsection \<open>Reading the digits back\<close>

lemma atoi_loop_digits:
  "(\<And>k. k < n \<Longrightarrow> m (p + of_nat k) = s ! k) \<Longrightarrow> n \<le> length s \<Longrightarrow>
   atoi_loop n m p x base = x + base * foldr (\<lambda>c acc. (scast c - 48) + 10 * acc) (rev (take n s)) 0"
proof (induction n arbitrary: x base)
  case (Suc n)
  from Suc.prems have "take (Suc n) s = take n s @ [s ! n]" "m (p + of_nat n) = s ! n"
    by (simp_all add: take_Suc_conv_app_nth)
  with Suc show ?case by (simp add: algebra_simps)
qed simp

lemma scast_digit: "d < 10 \<Longrightarrow> (scast (48 + of_nat d :: u8) :: s32) - 48 = of_nat d"
proof -
  assume "d < 10"
  then have "d \<in> set [0..<10]" by simp
  then show ?thesis by (simp add: upt_rec) (elim disjE; simp)
qed

lemma foldr_rdigits: "foldr (\<lambda>c acc. (scast c - 48) + 10 * acc) (rdigits n) (0 :: s32) = of_nat n"
proof (induction n rule: rdigits.induct)
  case (1 n)
  show ?case
  proof (cases "n = 0")
    case False
    have "(of_nat (n mod 10) + 10 * of_nat (n div 10) :: s32) = of_nat n"
      by (metis mod_mult_div_eq of_nat_add of_nat_mult of_nat_numeral)
    then show ?thesis using 1 False by (simp add: rdigits_pos scast_digit)
  qed simp
qed

lemma foldr_decimal: "foldr (\<lambda>c acc. (scast c - 48) + 10 * acc) (rev (decimal n pad)) (0 :: s32) = of_nat n"
proof -
  have "foldr (\<lambda>c acc. (scast c - 48) + 10 * acc) (replicate k (48 :: u8)) (0 :: s32) = 0" for k
    by (induction k) simp_all
  then show ?thesis by (simp add: decimal_def foldr_rdigits)
qed

lemma atoi_cstr:
  assumes "cstr m p s" "length s < 2147483648"
  shows "atoi m p = ret (foldr (\<lambda>c acc. (scast c - 48) + 10 * acc) (rev s) 0)"
proof -
  have "nat (sint (of_nat (length s) - 1 :: s32) + 1) = length s"
    using assms(2) by (simp add: sint_of_nat_pred)
  then show ?thesis
    using assms(1) atoi_loop_digits [of "length s" m p s 0 1]
    by (simp add: atoi_def strlen_def strlen_loop_cstr cstr_index)
qed

subsection \<open>Hexadecimal\<close>

primrec xtoa_out :: "nat \<Rightarrow> u32 \<Rightarrow> nat \<Rightarrow> bool \<Rightarrow> u8 list" where
  "xtoa_out 0 x p b = []"
| "xtoa_out (Suc i) x p b =
     (let c = nchar (drop_bit (i * 4) x AND 15)
      in if c = 48 \<and> b \<and> p \<le> i then xtoa_out i x p b else c # xtoa_out i x p False)"

definition hexval :: "u8 \<Rightarrow> nat" where
  "hexval c = (if c < 58 then unat c - 48 else unat c - 87)"

lemma xtoa_loop_out:
  assumes "int p = sint pad" "n < 2147483648"
  shows "xtoa_loop n m x buf pad b = (put_bytes m buf (xtoa_out n x p b), buf + of_nat (length (xtoa_out n x p b)))"
  using assms(2)
proof (induction n arbitrary: m buf b)
  case (Suc n)
  then have "pad \<le>s of_nat n \<longleftrightarrow> sint pad \<le> int n" by (simp add: word_sle_eq sint_of_nat_s32)
  also have "\<dots> \<longleftrightarrow> p \<le> n" using assms(1) by linarith
  finally have "pad \<le>s of_nat n \<longleftrightarrow> p \<le> n" .
  with Suc show ?case by (simp add: Let_def algebra_simps)
qed simp

lemma nibble: "unat (drop_bit (i * 4) (x :: u32) AND 15) = unat x div 16 ^ i mod 16"
  and nibble_less: "drop_bit (i * 4) (x :: u32) AND 15 < 16"
proof -
  have "drop_bit (i * 4) x AND 15 = take_bit 4 (drop_bit (i * 4) x)"
    by (simp add: take_bit_eq_mask mask_eq_exp_minus_1)
  then have "unat (drop_bit (i * 4) x AND 15) = take_bit 4 (drop_bit (i * 4) (unat x))"
    by (simp only: unsigned_take_bit_eq unat_drop_bit_eq)
  also have "\<dots> = unat x div 2 ^ (i * 4) mod 2 ^ 4" by (simp only: take_bit_eq_mod drop_bit_eq_div)
  also have "(2 :: nat) ^ (i * 4) = 16 ^ i" by (simp add: power_mult mult.commute [of i])
  finally show *: "unat (drop_bit (i * 4) x AND 15) = unat x div 16 ^ i mod 16" by simp
  show "drop_bit (i * 4) x AND 15 < 16"
    by (simp add: word_less_nat_alt *)
qed

lemma hex_digit_cases: "d < 16 \<Longrightarrow> hexval (nchar d) = unat d \<and> nchar d \<noteq> 0 \<and> (nchar d = 48 \<longleftrightarrow> d = 0)"
proof -
  assume "d < 16"
  then obtain k where k: "k < 16" "d = of_nat k" using u32_small_cases [of d 16] by auto
  then have "k \<in> set [0..<16]" by simp
  then show ?thesis unfolding k(2)
    by (simp add: upt_rec) (elim disjE; simp add: nchar_def word_sless_alt hexval_def)
qed

lemma xtoa_out_value:
  "(b \<Longrightarrow> a = 0) \<Longrightarrow>
   foldl (\<lambda>a c. 16 * a + hexval c) a (xtoa_out n x p b) = a * 16 ^ n + unat x mod 16 ^ n"
proof (induction n arbitrary: a b)
  case (Suc n)
  let ?d = "drop_bit (n * 4) x AND 15"
  have split: "unat x mod 16 ^ Suc n = 16 ^ n * unat ?d + unat x mod 16 ^ n"
    by (simp add: nibble mod_mult2_eq mult.commute [of 16])
  note hex = hex_digit_cases [OF nibble_less [of n x]]
  show ?case
  proof (cases "nchar ?d = 48 \<and> b \<and> p \<le> n")
    case True
    with hex have "unat ?d = 0" by simp
    with True Suc split show ?thesis by (simp add: Let_def)
  next
    case False
    then have out: "xtoa_out (Suc n) x p b = nchar ?d # xtoa_out n x p False" by (auto simp: Let_def)
    have "foldl (\<lambda>a c. 16 * a + hexval c) (16 * a + unat ?d) (xtoa_out n x p False) =
        (16 * a + unat ?d) * 16 ^ n + unat x mod 16 ^ n"
      by (rule Suc.IH) simp
    with hex split show ?thesis unfolding out by (simp add: algebra_simps)
  qed
qed simp

lemma xtoa_out_nonzero: "0 \<notin> set (xtoa_out n x p b)"
  using hex_digit_cases [OF nibble_less] by (induction n arbitrary: b) (auto simp: Let_def)

lemma xtoa_out_length: "length (xtoa_out n x p b) \<le> n" "min n p \<le> length (xtoa_out n x p b)"
  "\<not> b \<Longrightarrow> length (xtoa_out n x p b) = n"
  by (induction n arbitrary: b) (auto simp: Let_def intro: le_SucI)

lemma xtoa_out_hd: "p < length (xtoa_out n x p True) \<Longrightarrow> hd (xtoa_out n x p True) \<noteq> 48"
  by (induction n) (auto simp: Let_def xtoa_out_length split: if_splits)

lemma strcat_cstr:
  assumes "cstr m d s" "cstr m p t" "length s + length t < 4294967295"
    and apart: "Suc (length t) \<le> unat ((d + of_nat (length s)) - p)"
  shows "\<exists>m'. strcat m d p = ret (m', d) \<and> cstr m' d (s @ t) \<and>
    (\<forall>x. \<not> in_range x (d + of_nat (length s)) (Suc (length t)) \<longrightarrow> m' x = m x)"
proof -
  let ?e = "d + of_nat (length s)"
  define m' where "m' = memcpy_loop (Suc (length t)) m ?e p"
  have m': "m' = (\<lambda>x. if in_range x ?e (Suc (length t)) then m (p + (x - ?e)) else m x)"
    unfolding m'_def using assms by (intro memcpy_loop_eq) auto
  have "strcpy_loop m ?e p = ret m'"
    unfolding m'_def using assms by (intro strcpy_loop_cstr) auto
  then have cat: "strcat m d p = ret (m', d)"
    using assms(1) by (simp add: strcat_def strend_loop_cstr)
  have new: "m' (d + of_nat (length s + k)) = m (p + of_nat k)" if "k \<le> length t" for k
  proof -
    have "d + of_nat (length s + k) - ?e = of_nat k" by simp
    moreover have "in_range (d + of_nat (length s + k)) ?e (Suc (length t))"
      using that assms(3) by (simp add: in_range_def)
    ultimately show ?thesis by (simp add: m')
  qed
  have old: "m' (d + of_nat k) = m (d + of_nat k)" if "k < length s" for k
  proof -
    have "\<not> in_range (d + of_nat k) ?e (Suc (length t))"
    proof
      assume "in_range (d + of_nat k) ?e (Suc (length t))"
      then obtain j where j: "j < Suc (length t)" "d + of_nat k = ?e + of_nat j"
        using assms(3) by (subst (asm) in_range_iff) auto
      then have "d + of_nat k = d + of_nat (length s + j)" by (simp add: add.assoc)
      then show False using j(1) that assms(3) by (subst (asm) index_eq_iff) auto
    qed
    then show ?thesis by (simp add: m')
  qed
  have "cstr m' d (s @ t)" unfolding cstr_index
  proof (intro conjI allI impI)
    fix k assume "k < length (s @ t)"
    then consider "k < length s" | j where "k = length s + j" "j < length t"
      by (metis add_diff_inverse_nat length_append nat_add_left_cancel_less)
    then show "m' (d + of_nat k) = (s @ t) ! k"
    proof cases
      case 1
      then show ?thesis using assms(1) old by (simp add: cstr_index nth_append)
    next
      case 2
      then have "m' (d + of_nat k) = m (p + of_nat j)" using new [of j] by simp
      also have "\<dots> = t ! j" using assms(2) 2 by (simp add: cstr_index)
      finally show ?thesis using 2 by (simp add: nth_append)
    qed
  next
    show "m' (d + of_nat (length (s @ t))) = 0"
      using new [of "length t"] assms(2) by (simp add: cstr_index)
    show "0 \<notin> set (s @ t)" using assms(1,2) by (simp add: cstr_index)
  qed
  with cat show ?thesis by (auto simp: m')
qed

section \<open>Properties\<close>

text \<open>
  C36: \<open>memset\<close> and \<open>bzero\<close> write the value to exactly the \<open>n\<close> bytes at the pointer; \<open>memcpy\<close> copies \<open>n\<close>
  bytes, also between overlapping buffers as long as the destination does not start inside the source.
\<close>

theorem memory_functions_spec:
  "memset m p v n = ((\<lambda>x. if in_range x p (unat n) then v else m x), p) \<and>
   bzero m p n = (\<lambda>x. if in_range x p (unat n) then 0 else m x) \<and>
   (dest = src \<or> unat n \<le> unat (dest - src) \<longrightarrow>
     memcpy m dest src n = ((\<lambda>x. if in_range x dest (unat n) then m (src + (x - dest)) else m x), dest))"
  by (auto simp: memset_def bzero_def memcpy_def bzero_loop_memset memset_loop_eq memcpy_loop_eq less_imp_le)

theorem memory_functions_spec_witness:
  "fst (memcpy (\<lambda>x. ucast x) 0x1000 0x2000 16) 0x1003 = 3 \<and> fst (memcpy (\<lambda>x. ucast x) 0x1000 0x2000 16) 0x1010 = 0x10"
  using memory_functions_spec [of "\<lambda>x. ucast x" 0 0 16 "0x1000" "0x2000"] by (simp add: in_range_def)

text \<open>
  On strings, \<open>strlen\<close> counts the characters and \<open>strcmp\<close> computes the lexicographic order by signed
  characters; it returns 0 exactly for equal strings.
\<close>

theorem strlen_strcmp_spec:
  assumes "cstr m p s" "cstr m q t"
  shows "strlen m p = ret (of_nat (length s)) \<and> strcmp m p q = ret (strcmp_spec s t) \<and>
    (strcmp m p q = ret 0 \<longleftrightarrow> s = t)"
proof -
  have "strcmp m p q = ret (strcmp_spec s t)"
    using assms by (simp add: strcmp_def strcmp_loop_cstr)
  moreover have "strcmp_spec s t = 0 \<longleftrightarrow> s = t"
    using assms by (simp add: strcmp_spec_eq_0 cstr_nz)
  ultimately show ?thesis using assms(1) by (simp add: strlen_def strlen_loop_cstr)
qed

text \<open>A memory that holds \<open>ls\<close> at 0x100 and \<open>\<acute>\<close> (0xB4, a negative \<open>char\<close>) at 0x200, for the instances below.\<close>

definition sample_mem :: mem where
  "sample_mem = (\<lambda>_. 0)(0x100 := 0x6c, 0x101 := 0x73, 0x200 := 0xB4)"

lemma sample_cstr: "cstr sample_mem 0x100 [0x6c, 0x73]" "cstr sample_mem 0x200 [0xB4]"
  by (simp_all add: sample_mem_def)

theorem strlen_strcmp_spec_witness:
  "strlen sample_mem 0x100 = ret 2 \<and> strcmp sample_mem 0x100 0x200 = ret 1"
  using strlen_strcmp_spec [OF sample_cstr] by (simp add: word_sless_alt)

text \<open>
  \<open>strcat\<close> appends: the destination holds the concatenation, the result is the destination pointer,
  and only the bytes from the old terminator on are written. It asks that the source does not begin in
  the bytes that are written.
\<close>

theorem strcat_spec:
  assumes "cstr m d s" "cstr m p t" "length s + length t < 4294967295"
    and "Suc (length t) \<le> unat ((d + of_nat (length s)) - p)"
  shows "\<exists>m'. strcat m d p = ret (m', d) \<and> cstr m' d (s @ t) \<and>
    (\<forall>x. \<not> in_range x (d + of_nat (length s)) (Suc (length t)) \<longrightarrow> m' x = m x)"
  using assms by (rule strcat_cstr)

theorem strcat_spec_witness:
  "\<exists>m'. strcat sample_mem 0x100 0x200 = ret (m', 0x100) \<and> cstr m' 0x100 [0x6c, 0x73, 0xB4]"
  using strcat_spec [OF sample_cstr] by auto

text \<open>
  C24: \<open>utoa\<close> writes the decimal digits of its argument, padded with zeros to the field width (at least one
  digit), and a terminator, and writes nothing outside these bytes: a buffer of
  \<open>max (field pad) 10 + 1\<close> bytes is enough. \<open>atoi\<close> reads the number back.
\<close>

theorem utoa_atoi_roundtrip:
  "\<exists>m'. utoa m x buf pad = ret (m', buf) \<and>
     cstr m' buf (decimal (unat x) (field pad)) \<and>
     length (decimal (unat x) (field pad)) \<le> max (field pad) 10 \<and>
     (\<forall>y. \<not> in_range y buf (Suc (length (decimal (unat x) (field pad)))) \<longrightarrow> m' y = m y) \<and>
     atoi m' buf = ret x"
proof -
  have len: "length (decimal (unat x) (field pad)) \<le> max (field pad) 10"
    using length_rdigits_u32 [of x] by (auto simp: length_decimal)
  obtain m' where m': "utoa m x buf pad = ret (m', buf)" "cstr m' buf (decimal (unat x) (field pad))"
    "\<forall>y. \<not> in_range y buf (Suc (length (decimal (unat x) (field pad)))) \<longrightarrow> m' y = m y"
    using utoa_cstr [of m x buf pad] by (auto simp: length_decimal)
  have "atoi m' buf = ret x"
    using atoi_cstr [OF m'(2)] len field_bound [of pad] foldr_decimal [of "unat x"] by simp
  with m' len show ?thesis by blast
qed

theorem utoa_atoi_roundtrip_witness:
  "\<exists>m'. utoa (\<lambda>_. 0xff) 1234 0x100 6 = ret (m', 0x100) \<and> cstr m' 0x100 [48, 48, 49, 50, 51, 52] \<and>
     atoi m' 0x100 = ret 1234"
proof -
  have "decimal (unat (1234 :: u32)) (field 6) = [48, 48, 49, 50, 51, 52]"
    by (simp add: decimal_def field_def rdigits_pos) (simp add: eval_nat_numeral)
  then show ?thesis using utoa_atoi_roundtrip [of "\<lambda>_. 0xff" 1234 "0x100" 6] by auto
qed

text \<open>
  \<open>xtoa\<close> writes a hexadecimal numeral of its argument: at most 8 digits, at least the field width (as
  far as 8 digits reach), no leading zero beyond the width.
\<close>

theorem xtoa_spec:
  "\<exists>m' s. xtoa m x buf pad = (m', buf) \<and> cstr m' buf s \<and>
     foldl (\<lambda>a c. 16 * a + hexval c) 0 s = unat x \<and>
     min 8 (field pad) \<le> length s \<and> length s \<le> 8 \<and> (field pad < length s \<longrightarrow> hd s \<noteq> 48) \<and>
     (\<forall>y. \<not> in_range y buf (Suc (length s)) \<longrightarrow> m' y = m y)"
proof -
  let ?p = "if pad <s 1 then 1 else pad" and ?s = "xtoa_out 8 x (field pad) True"
  have p: "int (field pad) = sint ?p" by (auto simp: field_def word_sless_alt)
  have "xtoa m x buf pad = (put_bytes m buf (?s @ [0]), buf)"
    using xtoa_loop_out [OF p, of 8 m x buf True]
    by (simp add: xtoa_def put_bytes_append Let_def)
  moreover have "cstr (put_bytes m buf (?s @ [0])) buf ?s"
    using xtoa_out_length(1) [of 8 x "field pad" True] xtoa_out_nonzero by (intro cstr_put_bytes) auto
  moreover have "put_bytes m buf (?s @ [0]) y = m y" if "\<not> in_range y buf (Suc (length ?s))" for y
    using that xtoa_out_length(1) [of 8 x "field pad" True] by (intro put_bytes_other) auto
  moreover have "foldl (\<lambda>a c. 16 * a + hexval c) 0 ?s = unat x"
    using xtoa_out_value [where b = True and a = 0 and n = 8 and x = x and p = "field pad"] by (simp del: xtoa_out.simps)
  ultimately show ?thesis
    using xtoa_out_length(1,2) [where n = 8 and x = x and p = "field pad" and b = True]
      xtoa_out_hd [of "field pad" 8 x] by blast
qed

theorem xtoa_spec_witness: "\<exists>s. cstr (fst (xtoa (\<lambda>_. 0) 0xbeef 0x100 2)) 0x100 s \<and> length s \<le> 8"
  using xtoa_spec [of "\<lambda>_. 0" "0xbeef" "0x100" 2] by auto

text \<open>
  \<open>itoa\<close> drops the sign: a number and its negation give the same text in memory, so \<open>kprintf\<close> of \<open>%d\<close>
  prints \<open>-5\<close> and \<open>5\<close> alike.
\<close>

theorem itoa_drops_sign: "itoa m (- x) buf pad = itoa m x buf pad"
proof (cases "x = 0 \<or> x = - x")
  case False
  have "sint x \<noteq> - 2147483648"
  proof
    assume "sint x = - 2147483648"
    moreover have "x = of_int (sint x)" by simp
    ultimately have "x = of_int (- 2147483648)" by metis
    with False show False by simp
  qed
  then have "sint (- x) = - sint x"
    using sint_s32_range [of x] sint_sub_nowrap [of 0 x] by simp
  moreover have "sint x \<noteq> 0"
  proof
    assume "sint x = 0"
    moreover have "x = of_int (sint x)" by simp
    ultimately show False using False by simp
  qed
  ultimately show ?thesis by (simp add: itoa_def word_sless_alt Let_def)
next
  case True
  then have "- x = x" by (metis minus_zero)
  then show ?thesis by (simp only:)
qed

end
