(* ===== verification/Errno.thy ===== *)
theory Errno
  imports Prelude
begin

text \<open>
  Error codes: \<open>libc/include/errno.h\<close>, and the table of messages and \<open>strerror\<close> of \<open>libc/string.c\<close>. A function
  that fails returns the negated code as an \<open>int\<close>.
\<close>

section \<open>The codes\<close>

definition errno_h :: "(string \<times> u32) list" where
  "errno_h = [
     (''SUCCESS'', 0), (''EPERM'', 1), (''ENOENT'', 2), (''ESRCH'', 3), (''EINTR'', 4), (''EIO'', 5),
     (''ENXIO'', 6), (''E2BIG'', 7), (''ENOEXEC'', 8), (''EBADF'', 9), (''ECHILD'', 10), (''EAGAIN'', 11),
     (''ENOMEM'', 12), (''EACCES'', 13), (''EFAULT'', 14), (''ENOTBLK'', 15), (''EBUSY'', 16),
     (''EEXIST'', 17), (''EXDEV'', 18), (''ENODEV'', 19), (''ENOTDIR'', 20), (''EISDIR'', 21),
     (''EINVAL'', 22), (''ENFILE'', 23), (''EMFILE'', 24), (''ENOTTY'', 25), (''ETXTBSY'', 26),
     (''EFBIG'', 27), (''ENOSPC'', 28), (''ESPIPE'', 29), (''EROFS'', 30), (''EMLINK'', 31), (''EPIPE'', 32),
     (''EDOM'', 33), (''ERANGE'', 34), (''EDEADLK'', 35), (''ENAMETOOLONG'', 36), (''ENOLCK'', 37),
     (''ENOSYS'', 38), (''ENOTEMPTY'', 39), (''ELOOP'', 40), (''EWOULDBLOCK'', 11), (''ENOMSG'', 42),
     (''EIDRM'', 43), (''ECHRNG'', 44), (''EL2NSYNC'', 45), (''EL3HLT'', 46), (''EL3RST'', 47),
     (''ELNRNG'', 48), (''EUNATCH'', 49), (''ENOCSI'', 50), (''EL2HLT'', 51), (''EBADE'', 52), (''EBADR'', 53),
     (''EXFULL'', 54), (''ENOANO'', 55), (''EBADRQC'', 56), (''EBADSLT'', 57), (''EDEADLOCK'', 35),
     (''EBFONT'', 59), (''ENOSTR'', 60), (''ENODATA'', 61), (''ETIME'', 62), (''ENOSR'', 63), (''ENONET'', 64),
     (''ENOPKG'', 65), (''EREMOTE'', 66), (''ENOLINK'', 67), (''EADV'', 68), (''ESRMNT'', 69), (''ECOMM'', 70),
     (''EPROTO'', 71), (''EMULTIHOP'', 72), (''EDOTDOT'', 73), (''EBADMSG'', 74), (''EOVERFLOW'', 75),
     (''ENOTUNIQ'', 76), (''EBADFD'', 77), (''EREMCHG'', 78), (''ELIBACC'', 79), (''ELIBBAD'', 80),
     (''ELIBSCN'', 81), (''ELIBMAX'', 82), (''ELIBEXEC'', 83), (''EILSEQ'', 84), (''ERESTART'', 85),
     (''ESTRPIPE'', 86), (''EUSERS'', 87), (''ENOTSOCK'', 88), (''EDESTADDRREQ'', 89), (''EMSGSIZE'', 90),
     (''EPROTOTYPE'', 91), (''ENOPROTOOPT'', 92), (''EPROTONOSUPPORT'', 93), (''ESOCKTNOSUPPORT'', 94),
     (''EOPNOTSUPP'', 95), (''EPFNOSUPPORT'', 96), (''EAFNOSUPPORT'', 97), (''EADDRINUSE'', 98),
     (''EADDRNOTAVAIL'', 99), (''ENETDOWN'', 100), (''ENETUNREACH'', 101), (''ENETRESET'', 102),
     (''ECONNABORTED'', 103), (''ECONNRESET'', 104), (''ENOBUFS'', 105), (''EISCONN'', 106),
     (''ENOTCONN'', 107), (''ESHUTDOWN'', 108), (''ETOOMANYREFS'', 109), (''ETIMEDOUT'', 110),
     (''ECONNREFUSED'', 111), (''EHOSTDOWN'', 112), (''EHOSTUNREACH'', 113), (''EALREADY'', 114),
     (''EINPROGRESS'', 115), (''ESTALE'', 116), (''EUCLEAN'', 117), (''ENOTNAM'', 118), (''ENAVAIL'', 119),
     (''EISNAM'', 120), (''EREMOTEIO'', 121), (''EDQUOT'', 122), (''ENOMEDIUM'', 123), (''EMEDIUMTYPE'', 124),
     (''ECANCELED'', 125), (''ENOKEY'', 126), (''EKEYEXPIRED'', 127), (''EKEYREVOKED'', 128),
     (''EKEYREJECTED'', 129), (''EOWNERDEAD'', 130), (''ENOTRECOVERABLE'', 131), (''ERFKILL'', 132),
     (''EHWPOISON'', 133), (''ENOTSUP'', 95), (''EFSNOTSUP'', 134), (''ECONFLICT'', 135)
   ]"

text \<open>The ones the modelled code uses, by name.\<close>

definition SUCCESS :: u32 where "SUCCESS = 0"
definition ENOENT :: u32 where "ENOENT = 2"
definition EIO :: u32 where "EIO = 5"
definition ENODEV :: u32 where "ENODEV = 19"
definition ENOTDIR :: u32 where "ENOTDIR = 20"
definition ENOSYS :: u32 where "ENOSYS = 38"
definition EFSNOTSUP :: u32 where "EFSNOTSUP = 134"
definition ECONFLICT :: u32 where "ECONFLICT = 135"
definition EAGAIN :: u32 where "EAGAIN = 11"
definition ENOTSUP :: u32 where "ENOTSUP = 95"

definition EHWPOISON :: u32 where "EHWPOISON = 133"

lemmas errno_defs [simp] = EHWPOISON_def SUCCESS_def ENOENT_def EIO_def ENODEV_def ENOTDIR_def ENOSYS_def EFSNOTSUP_def ECONFLICT_def EAGAIN_def ENOTSUP_def

lemma errno_h_used:
  "map (map_of errno_h) [''EHWPOISON'', ''SUCCESS'', ''ENOENT'', ''EIO'', ''ENODEV'', ''ENOTDIR'', ''ENOSYS'', ''EFSNOTSUP'', ''ECONFLICT'', ''EAGAIN'', ''ENOTSUP''] =
   map Some [EHWPOISON, SUCCESS, ENOENT, EIO, ENODEV, ENOTDIR, ENOSYS, EFSNOTSUP, ECONFLICT, EAGAIN, ENOTSUP]"
  by code_simp

section \<open>The messages\<close>

definition err_messages :: "string list" where
  "err_messages = [
     ''success'', ''operation not permitted'', ''no such file or directory'', ''no such process'',
     ''interrupted system call'', ''input/output error'', ''no such device or address'',
     ''argument list too long'', ''exec format error'', ''bad file descriptor'', ''no child processes'',
     ''resource temporarily unavailable'', ''cannot allocate memory'', ''permission denied'', ''bad address'',
     ''block device required'', ''device or resource busy'', ''file exists'', ''invalid cross-device link'',
     ''no such device'', ''not a directory'', ''is a directory'', ''invalid argument'',
     ''too many open files in system'', ''too many open files'', ''inappropriate ioctl for device'',
     ''text file busy'', ''file too large'', ''no space left on device'', ''illegal seek'',
     ''read-only file system'', ''too many links'', ''broken pipe'', ''numerical argument out of domain'',
     ''numerical result out of range'', ''resource deadlock avoided'', ''file name too long'',
     ''no locks available'', ''function not implemented'', ''directory not empty'',
     ''too many levels of symbolic links'', ''resource temporarily unavailable'',
     ''no message of desired type'', ''identifier removed'', ''channel number out of range'',
     ''level 2 not synchronized'', ''level 3 halted'', ''level 3 reset'', ''link number out of range'',
     ''protocol driver not attached'', ''no csi structure available'', ''level 2 halted'',
     ''invalid exchange'', ''invalid request descriptor'', ''exchange full'', ''no anode'',
     ''invalid request code'', ''invalid slot'', ''resource deadlock avoided'', ''bad font file format'',
     ''device not a stream'', ''no data available'', ''timer expired'', ''out of streams resources'',
     ''machine is not on the network'', ''package not installed'', ''object is remote'',
     ''link has been severed'', ''advertise error'', ''srmount error'', ''communication error on send'',
     ''protocol error'', ''multihop attempted'', ''rfs specific error'', ''bad message'',
     ''value too large for defined data type'', ''name not unique on network'',
     ''file descriptor in bad state'', ''remote address changed'', ''can not access a needed shared library'',
     ''accessing a corrupted shared library'', ''.lib section in a.out corrupted'',
     ''attempting to link in too many shared libraries'', ''cannot exec a shared library directly'',
     ''invalid or incomplete multibyte or wide character'', ''interrupted system call should be restarted'',
     ''streams pipe error'', ''too many users'', ''socket operation on non-socket'',
     ''destination address required'', ''message too long'', ''protocol wrong type for socket'',
     ''protocol not available'', ''protocol not supported'', ''socket type not supported'',
     ''operation not supported'', ''protocol family not supported'',
     ''address family not supported by protocol'', ''address already in use'',
     ''cannot assign requested address'', ''network is down'', ''network is unreachable'',
     ''network dropped connection on reset'', ''software caused connection abort'',
     ''connection reset by peer'', ''no buffer space available'', ''transport endpoint is already connected'',
     ''transport endpoint is not connected'', ''cannot send after transport endpoint shutdown'',
     ''too many references: cannot splice'', ''connection timed out'', ''connection refused'',
     ''host is down'', ''no route to host'', ''operation already in progress'', ''operation now in progress'',
     ''stale file handle'', ''structure needs cleaning'', ''not a xenix named type file'',
     ''no xenix semaphores available'', ''is a named type file'', ''remote i/o error'',
     ''disk quota exceeded'', ''no medium found'', ''wrong medium type'', ''operation canceled'',
     ''required key not available'', ''key has expired'', ''key has been revoked'',
     ''key was rejected by service'', ''owner died'', ''state not recoverable'',
     ''operation not possible due to rf-kill'', ''memory page has hardware error'',
     ''operation not supported'', ''filesystem not supported'', ''interference conflict''
   ]"

text \<open>
  The table has one pointer of four bytes per message, and \<open>sizeof\<close> counts bytes. An index between the
  two limits reads past the table, which has no defined result; \<open>None\<close> is the null pointer.
\<close>

definition strerror :: "u32 \<Rightarrow> string option exec" where
  "strerror err =
     (if err < of_nat (4 * length err_messages)
      then if unat err < length err_messages then ret (Some (err_messages ! unat err)) else fail Out_Of_Bounds
      else ret None)"

lemma length_err_messages: "length err_messages = 137"
  by code_simp

text \<open>
  Every error code of \<open>errno.h\<close> has a message. The bound \<open>strerror\<close> tests is the size of the table in
  bytes, not its number of entries: the null pointer is returned only from 548 on, and a code from 137
  up to 547 reads outside the table.
\<close>

theorem strerror_spec:
  "list_all (\<lambda>(_, c). unat c < length err_messages \<and> strerror c = ret (Some (err_messages ! unat c))) errno_h \<and>
   strerror err = (if err < 137 then ret (Some (err_messages ! unat err))
                   else if err < 548 then fail Out_Of_Bounds else ret None)"
proof
  show "strerror err = (if err < 137 then ret (Some (err_messages ! unat err))
                   else if err < 548 then fail Out_Of_Bounds else ret None)"
    by (auto simp: strerror_def length_err_messages word_less_nat_alt)
next
  have "list_all (\<lambda>(_, c). c < 136) errno_h" by code_simp
  then show "list_all (\<lambda>(_, c). unat c < length err_messages \<and> strerror c = ret (Some (err_messages ! unat c))) errno_h"
    by (auto simp: strerror_def length_err_messages word_less_nat_alt list_all_iff)
qed

text \<open>
  The table has one line more than there are codes. Up to code 133 the message is at its own index;
  the line for \<open>ENOTSUP\<close> (a second name of code 95) that follows shifts the two codes of this kernel: the
  message of \<open>EFSNOTSUP\<close> is the one meant for \<open>ENOTSUP\<close>, the message of \<open>ECONFLICT\<close> the one meant for \<open>EFSNOTSUP\<close>.
\<close>

theorem strerror_shifted:
  "strerror EHWPOISON = ret (Some ''memory page has hardware error'') \<and>
   strerror EFSNOTSUP = ret (Some ''operation not supported'') \<and>
   strerror ECONFLICT = ret (Some ''filesystem not supported'') \<and>
   strerror ENOTSUP = ret (Some ''operation not supported'') \<and>
   strerror (ECONFLICT + 1) = ret (Some ''interference conflict'')"
  by (simp add: strerror_def length_err_messages word_less_nat_alt del: errno_defs) code_simp

end
