(* ===== verification/Heap.thy ===== *)
theory Heap
  imports Sync CString
begin

text \<open>
  The kernel heap: \<open>kernel/include/heap.h\<close>, \<open>kernel/memory/heap.c\<close>, \<open>kmalloc.c\<close> and \<open>kfree.c\<close>, over flat
  memory. The heap is a doubly linked list of 24-byte headers (\<open>struct kheape_struct\<close>, packed) that lie
  in the memory they manage; each is followed by its payload. The model reads and writes the header
  fields as 32-bit little-endian loads and stores at the C offsets, so an access through a null or a
  stale pointer reads and writes what the machine would. The console output of \<open>kmalloc\<close> is not
  part of this state; \<open>heap_dump\<close> is in \<open>Fault_Report\<close>.
\<close>

section \<open>Headers\<close>

record kheape_struct =
  available :: u32
  e_size :: u32
  e_start :: addr
  e_next :: addr
  e_previous :: addr
  description :: addr

abbreviation sizeof_kheape :: u32 where "sizeof_kheape \<equiv> 24"

definition get_entry :: "mem \<Rightarrow> addr \<Rightarrow> kheape_struct" where
  "get_entry m a = \<lparr>available = load32 m a, e_size = load32 m (a + 4), e_start = load32 m (a + 8),
     e_next = load32 m (a + 12), e_previous = load32 m (a + 16), description = load32 m (a + 20)\<rparr>"

definition set_available :: "mem \<Rightarrow> addr \<Rightarrow> u32 \<Rightarrow> mem" where "set_available m a v = store32 m a v"
definition set_size :: "mem \<Rightarrow> addr \<Rightarrow> u32 \<Rightarrow> mem" where "set_size m a v = store32 m (a + 4) v"
definition set_start :: "mem \<Rightarrow> addr \<Rightarrow> addr \<Rightarrow> mem" where "set_start m a v = store32 m (a + 8) v"
definition set_next :: "mem \<Rightarrow> addr \<Rightarrow> addr \<Rightarrow> mem" where "set_next m a v = store32 m (a + 12) v"
definition set_previous :: "mem \<Rightarrow> addr \<Rightarrow> addr \<Rightarrow> mem" where "set_previous m a v = store32 m (a + 16) v"
definition set_description :: "mem \<Rightarrow> addr \<Rightarrow> addr \<Rightarrow> mem" where "set_description m a v = store32 m (a + 20) v"

lemmas set_defs = set_available_def set_size_def set_start_def set_next_def set_previous_def set_description_def

section \<open>The heap and its operations\<close>

record heap_state =
  heap_mtx :: mutex_struct
  heap_start :: addr
  hmem :: mem

definition setup_heap :: "heap_state \<Rightarrow> addr \<Rightarrow> u32 \<Rightarrow> heap_state" where
  "setup_heap h start_addr max_size =
     (let m = hmem h;
          m = set_available m start_addr 1;
          m = set_description m start_addr 0;
          m = set_next m start_addr 0;
          m = set_previous m start_addr 0;
          m = set_size m start_addr (max_size - sizeof_kheape);
          m = set_start m start_addr (start_addr + sizeof_kheape)
      in h\<lparr>hmem := m, heap_start := start_addr, heap_mtx := mutex_init (heap_mtx h)\<rparr>)"

definition link_new_entry :: "mem \<Rightarrow> addr \<Rightarrow> addr \<Rightarrow> mem \<times> addr" where
  "link_new_entry m addr prev =
     (let new_entry = addr;
          m = set_previous m new_entry prev;
          m = set_next m new_entry (e_next (get_entry m prev));
          m = (if e_next (get_entry m prev) \<noteq> 0
               then set_previous m (e_next (get_entry m prev)) new_entry else m);
          m = set_next m prev new_entry
      in (m, new_entry))"

definition alloc_entry :: "mem \<Rightarrow> addr \<Rightarrow> u32 \<Rightarrow> u32 \<Rightarrow> addr \<Rightarrow> mem \<times> addr" where
  "alloc_entry m entry start_offset sz descr =
     (let prev_size = e_size (get_entry m entry);
          (m, new_entry) =
            (if 4 * sizeof_kheape \<le> start_offset
             then let (m, new_entry) =
                        link_new_entry m (e_start (get_entry m entry) + start_offset - sizeof_kheape) entry;
                      m = set_size m entry (new_entry - e_start (get_entry m entry))
                  in (m, new_entry)
             else (m, entry));
          m = set_available m new_entry 0;
          m = set_description m new_entry descr;
          m = set_start m new_entry (e_start (get_entry m entry) + start_offset);
          m = (if 4 * sizeof_kheape < prev_size - sz
               then let (m, new_next) = link_new_entry m (e_start (get_entry m new_entry) + sz) new_entry;
                        m = set_start m new_next (new_next + sizeof_kheape);
                        m = set_available m new_next 1;
                        m = set_description m new_next 0;
                        m = set_size m new_next (prev_size - start_offset - sz - sizeof_kheape)
                    in set_size m new_entry sz
               else set_size m new_entry prev_size)
      in (m, e_start (get_entry m new_entry)))"

definition next_aligned_addr :: "addr \<Rightarrow> u32 \<Rightarrow> addr exec" where
  "next_aligned_addr addr align =
     (if align = 0 then fail Div_Zero
      else let remainder = addr mod align
           in if remainder = 0 then ret addr else ret (addr + (align - remainder)))"

partial_function (option) kmalloc_loop :: "mem \<Rightarrow> addr \<Rightarrow> u32 \<Rightarrow> u32 \<Rightarrow> addr \<Rightarrow> (mem \<times> addr) exec" where
  "kmalloc_loop m entry sz align descr =
     (if entry \<noteq> 0
      then bindX (next_aligned_addr (e_start (get_entry m entry)) align) (\<lambda>aligned.
             let start_offset = aligned - e_start (get_entry m entry);
                 min_size = sz + start_offset
             in if available (get_entry m entry) \<noteq> 0 \<and> min_size \<le> e_size (get_entry m entry)
                then ret (alloc_entry m entry start_offset sz descr)
                else kmalloc_loop m (e_next (get_entry m entry)) sz align descr)
      else ret (m, 0))"

definition kmalloc :: "heap_state \<Rightarrow> u32 \<Rightarrow> u32 \<Rightarrow> addr \<Rightarrow> (heap_state \<times> addr) exec" where
  "kmalloc h sz align descr =
     bindX (mutex_lock (heap_mtx h)) (\<lambda>mtx.
     bindX (kmalloc_loop (hmem h) (heap_start h) sz align descr) (\<lambda>(m, mptr).
     ret (h\<lparr>hmem := m, heap_mtx := mutex_unlock mtx\<rparr>, mptr)))"

text \<open>The three \<open>ASSERT\<close>s are code in the debug build.\<close>

definition merge_entries :: "mem \<Rightarrow> addr \<Rightarrow> addr \<Rightarrow> (mem \<times> addr) exec" where
  "merge_entries m first second =
     bindX (ASSERT (first < second)) (\<lambda>_.
     bindX (ASSERT (available (get_entry m first) \<noteq> 0 \<and> available (get_entry m second) \<noteq> 0)) (\<lambda>_.
     bindX (ASSERT (e_previous (get_entry m second) = first)) (\<lambda>_.
     let m = set_next m first (e_next (get_entry m second));
         m = set_start m first (first + sizeof_kheape);
         m = set_previous m (e_next (get_entry m second)) first;
         m = set_size m first ((e_start (get_entry m second) + e_size (get_entry m second))
               - e_start (get_entry m first))
     in ret (m, first))))"

definition kfree :: "heap_state \<Rightarrow> addr \<Rightarrow> heap_state exec" where
  "kfree h ptr =
     bindX (mutex_lock (heap_mtx h)) (\<lambda>mtx.
     if ptr < sizeof_kheape then ret (h\<lparr>heap_mtx := mtx\<rparr>)
     else
       let m = hmem h; heap_entry = ptr - sizeof_kheape
       in if available (get_entry m heap_entry) \<noteq> 0 \<or> e_size (get_entry m heap_entry) = 0
             \<or> e_start (get_entry m heap_entry) = 0
          then ret (h\<lparr>heap_mtx := mutex_unlock mtx\<rparr>)
          else
            let m = set_available m heap_entry 1;
                m = set_description m heap_entry 0
            in bindX (if available (get_entry m (e_previous (get_entry m heap_entry))) \<noteq> 0
                      then merge_entries m (e_previous (get_entry m heap_entry)) heap_entry
                      else ret (m, heap_entry)) (\<lambda>(m, heap_entry).
               bindX (if available (get_entry m (e_next (get_entry m heap_entry))) \<noteq> 0
                      then merge_entries m heap_entry (e_next (get_entry m heap_entry))
                      else ret (m, heap_entry)) (\<lambda>(m, _).
               ret (h\<lparr>hmem := m, heap_mtx := mutex_unlock mtx\<rparr>))))"

section \<open>Reading headers over writes\<close>

text \<open>Two headers are apart when their 24 bytes do not overlap.\<close>

definition apart :: "addr \<Rightarrow> addr \<Rightarrow> bool" where
  "apart a b \<longleftrightarrow> 24 \<le> unat (a - b) \<and> 24 \<le> unat (b - a)"

lemma apart_sym: "apart a b \<longleftrightarrow> apart b a"
  by (auto simp: apart_def)

lemma get_entry_cong:
  assumes "\<And>x. in_range x a 24 \<Longrightarrow> m x = m' x"
  shows "get_entry m a = get_entry m' a"
proof -
  have sub: "in_range x (a + of_nat i) 4 \<Longrightarrow> in_range x a 24" if "i \<le> 20" for i x
    using that by (auto intro: in_range_offset)
  show ?thesis
    using sub [of 0] sub [of 4] sub [of 8] sub [of 12] sub [of 16] sub [of 20]
    unfolding get_entry_def by (auto intro!: load32_cong assms)
qed

lemma store32_entry_other: "\<not> in_range x a 24 \<Longrightarrow> i \<le> 20 \<Longrightarrow> store32 m (a + of_nat i) v x = m x"
  by (rule store32_other) (auto dest: in_range_offset [where k = 24])

lemma set_other_byte [heap_simps]:
  assumes "\<not> in_range x a 24"
  shows "set_available m a v x = m x" "set_size m a v x = m x" "set_start m a v x = m x"
    "set_next m a v x = m x" "set_previous m a v x = m x" "set_description m a v x = m x"
  using store32_entry_other [OF assms, of 0] store32_entry_other [OF assms, of 4]
    store32_entry_other [OF assms, of 8] store32_entry_other [OF assms, of 12]
    store32_entry_other [OF assms, of 16] store32_entry_other [OF assms, of 20]
  by (simp_all add: set_defs)

lemma setup_heap_frame: "\<not> in_range x a 24 \<Longrightarrow> hmem (setup_heap h a mx) x = hmem h x"
  by (simp add: setup_heap_def Let_def heap_simps)

lemma apart_bytes: "apart a b \<Longrightarrow> in_range x b 24 \<Longrightarrow> \<not> in_range x a 24"
proof
  assume ab: "apart a b" and x: "in_range x b 24" "in_range x a 24"
  have "a - b = (x - b) - (x - a)" "b - a = (x - a) - (x - b)" by simp_all
  then have "unat (a - b) = unat (x - b) - unat (x - a) \<or> unat (b - a) = unat (x - a) - unat (x - b)"
    by (metis nat_le_linear unat_sub_nowrap)
  with ab x show False by (auto simp: apart_def in_range_def)
qed

lemma get_entry_set_other [heap_simps]:
  assumes "apart a b"
  shows "get_entry (set_available m a v) b = get_entry m b" "get_entry (set_size m a v) b = get_entry m b"
    "get_entry (set_start m a v) b = get_entry m b" "get_entry (set_next m a v) b = get_entry m b"
    "get_entry (set_previous m a v) b = get_entry m b" "get_entry (set_description m a v) b = get_entry m b"
  by (rule get_entry_cong, drule apart_bytes [OF assms], simp add: heap_simps)+

lemma get_entry_set_same [simp, heap_simps]:
  "get_entry (set_available m a v) a = (get_entry m a)\<lparr>available := v\<rparr>"
  "get_entry (set_size m a v) a = (get_entry m a)\<lparr>e_size := v\<rparr>"
  "get_entry (set_start m a v) a = (get_entry m a)\<lparr>e_start := v\<rparr>"
  "get_entry (set_next m a v) a = (get_entry m a)\<lparr>e_next := v\<rparr>"
  "get_entry (set_previous m a v) a = (get_entry m a)\<lparr>e_previous := v\<rparr>"
  "get_entry (set_description m a v) a = (get_entry m a)\<lparr>description := v\<rparr>"
  by (simp_all add: set_defs get_entry_def load32_store32_other)

end
