(* ===== verification/Heap_Refine.thy ===== *)
theory Heap_Refine
  imports Heap
begin

text \<open>
  What the kernel heap promises, and that \<open>kmalloc\<close> and \<open>kfree\<close> keep it. The abstract heap is the list of
  its blocks in address order, each free or used, with its payload size; the addresses follow from the
  start of the heap. The predicate \<open>heap_inv\<close> says that memory holds the headers of such a list: linked
  in both directions, contiguous, each payload right after its header.
\<close>

section \<open>Blocks in memory\<close>

text \<open>The address with a given number; kept folded, so that sums of numbers stay sums of numbers.\<close>

definition ad :: "nat \<Rightarrow> addr" where "ad n = of_nat n"

lemma ad_0 [simp]: "ad 0 = 0" by (simp add: ad_def)

lemma unat_ad [simp]: "n < 4294967296 \<Longrightarrow> unat (ad n) = n" by (simp add: ad_def)

lemma ad_unat [simp]: "ad (unat x) = x" by (simp add: ad_def)

lemma ad_eq_iff: "i < 4294967296 \<Longrightarrow> j < 4294967296 \<Longrightarrow> ad i = ad j \<longleftrightarrow> i = j"
  by (metis unat_ad)

lemma ad_eq_0 [simp]: "i < 4294967296 \<Longrightarrow> ad i = 0 \<longleftrightarrow> i = 0"
  using ad_eq_iff [of i 0] by simp

lemma ad_less: "i < 4294967296 \<Longrightarrow> j < 4294967296 \<Longrightarrow> ad i < ad j \<longleftrightarrow> i < j"
  by (simp add: word_less_nat_alt)

lemma ad_le: "i < 4294967296 \<Longrightarrow> j < 4294967296 \<Longrightarrow> ad i \<le> ad j \<longleftrightarrow> i \<le> j"
  by (simp add: word_le_nat_alt)

lemma ad_plus: "ad i + ad j = ad (i + j)" by (simp add: ad_def)

lemma ad_minus: "j \<le> i \<Longrightarrow> ad i - ad j = ad (i - j)" by (simp add: ad_def of_nat_diff)

lemma ad_plus_24: "ad i + 24 = ad (i + 24)" using ad_plus [of i 24] by (simp add: ad_def)

lemma ad_minus_24: "24 \<le> i \<Longrightarrow> ad i - 24 = ad (i - 24)" using ad_minus [of 24 i] by (simp add: ad_def)

lemma ad_numeral: "(numeral k :: addr) = ad (numeral k)" by (simp add: ad_def)

datatype block = Block (b_free: bool) (b_size: nat)

definition entry_ok :: "mem \<Rightarrow> addr \<Rightarrow> nat \<Rightarrow> block \<Rightarrow> addr \<Rightarrow> bool" where
  "entry_ok m p n b nx \<longleftrightarrow> 0 < n \<and> n + 24 + b_size b < 4294967296 \<and>
     available (get_entry m (ad n)) = (if b_free b then 1 else 0) \<and>
     e_size (get_entry m (ad n)) = ad (b_size b) \<and> e_start (get_entry m (ad n)) = ad (n + 24) \<and>
     e_previous (get_entry m (ad n)) = p \<and> e_next (get_entry m (ad n)) = nx"

primrec seg :: "mem \<Rightarrow> addr \<Rightarrow> nat \<Rightarrow> block list \<Rightarrow> addr \<Rightarrow> bool" where
  "seg m p n [] nx = True"
| "seg m p n (b # bs) nx =
     (entry_ok m p n b (if bs = [] then nx else ad (n + 24 + b_size b)) \<and>
      seg m (ad n) (n + 24 + b_size b) bs nx)"

definition heap_inv :: "heap_state \<Rightarrow> block list \<Rightarrow> bool" where
  "heap_inv h bs \<longleftrightarrow> bs \<noteq> [] \<and> seg (hmem h) 0 (unat (heap_start h)) bs 0"

primrec span :: "block list \<Rightarrow> nat" where
  "span [] = 0"
| "span (b # bs) = 24 + b_size b + span bs"

primrec hdrs :: "nat \<Rightarrow> block list \<Rightarrow> nat list" where
  "hdrs n [] = []"
| "hdrs n (b # bs) = n # hdrs (n + 24 + b_size b) bs"

definition last_hdr :: "addr \<Rightarrow> nat \<Rightarrow> block list \<Rightarrow> addr" where
  "last_hdr p n bs = (if bs = [] then p else ad (n + span (butlast bs)))"

lemma last_hdr_simps [simp]:
  "last_hdr p n [] = p"
  "last_hdr p n (b # bs) = last_hdr (ad n) (n + 24 + b_size b) bs"
  by (auto simp: last_hdr_def algebra_simps)

lemma span_append [simp]: "span (bs @ cs) = span bs + span cs"
  by (induction bs) auto

lemma hdrs_append: "hdrs n (bs @ cs) = hdrs n bs @ hdrs (n + span bs) cs"
  by (induction bs arbitrary: n) (auto simp: algebra_simps)

lemma seg_append:
  "seg m p n (bs @ cs) nx \<longleftrightarrow>
     seg m p n bs (if cs = [] then nx else ad (n + span bs)) \<and> seg m (last_hdr p n bs) (n + span bs) cs nx"
  by (induction bs arbitrary: p n) (auto simp: algebra_simps)

lemma hdrs_bounds: "k \<in> set (hdrs n bs) \<Longrightarrow> n \<le> k \<and> k + 24 \<le> n + span bs"
  by (induction bs arbitrary: n) (auto, fastforce+)

lemma seg_bound: "seg m p n bs nx \<Longrightarrow> bs \<noteq> [] \<Longrightarrow> 0 < n \<and> n + span bs < 4294967296"
proof (induction bs arbitrary: p n)
  case (Cons b bs)
  then show ?case by (cases "bs = []") (fastforce simp: entry_ok_def)+
qed simp

lemma entry_ok_frame: "get_entry m' (ad n) = get_entry m (ad n) \<Longrightarrow> entry_ok m' p n b nx = entry_ok m p n b nx"
  by (simp add: entry_ok_def)

lemma seg_frame:
  "(\<And>k. k \<in> set (hdrs n bs) \<Longrightarrow> get_entry m' (ad k) = get_entry m (ad k)) \<Longrightarrow>
   seg m' p n bs nx = seg m p n bs nx"
proof (induction bs arbitrary: p n)
  case (Cons b bs)
  have "seg m' (ad n) (n + 24 + b_size b) bs nx = seg m (ad n) (n + 24 + b_size b) bs nx"
    using Cons.prems by (intro Cons.IH) simp
  moreover have "entry_ok m' p n b x = entry_ok m p n b x" for x
    using Cons.prems [of n] by (intro entry_ok_frame) simp
  ultimately show ?case by simp
qed simp

lemma apart_ad:
  assumes "i + 24 \<le> j" "j + 24 \<le> 4294967296"
  shows "apart (ad i) (ad j)" "apart (ad j) (ad i)"
proof -
  have "unat (ad j - ad i) = j - i" using assms by (simp add: ad_minus)
  moreover have "unat (ad i - ad j) = 4294967296 - (j - i)"
    using assms by (simp add: unat_sub_if')
  ultimately show "apart (ad i) (ad j)" "apart (ad j) (ad i)" using assms unfolding apart_def
    by (simp_all, linarith+)
qed

text \<open>A segment whose first header only has its back link changed.\<close>

lemma seg_relink:
  assumes "seg m q n bs nx"
    and "bs \<noteq> [] \<Longrightarrow> get_entry m' (ad n) = (get_entry m (ad n))\<lparr>e_previous := q'\<rparr>"
    and "\<And>k. k \<in> set (hdrs n bs) \<Longrightarrow> k \<noteq> n \<Longrightarrow> get_entry m' (ad k) = get_entry m (ad k)"
  shows "seg m' q' n bs nx"
proof (cases bs)
  case (Cons b cs)
  have "seg m' (ad n) (n + 24 + b_size b) cs nx = seg m (ad n) (n + 24 + b_size b) cs nx"
  proof (rule seg_frame)
    fix k assume "k \<in> set (hdrs (n + 24 + b_size b) cs)"
    then show "get_entry m' (ad k) = get_entry m (ad k)"
      using assms(3) [of k] Cons hdrs_bounds [of k "n + 24 + b_size b" cs] by auto
  qed
  with assms Cons show ?thesis by (auto simp: entry_ok_def)
qed simp

section \<open>The abstract allocator\<close>

text \<open>The bytes to skip from \<open>a\<close> to the next multiple of \<open>al\<close>.\<close>

definition align_gap :: "nat \<Rightarrow> nat \<Rightarrow> nat" where
  "align_gap al a = (if a mod al = 0 then 0 else al - a mod al)"

text \<open>
  \<open>first_fit n sz al bs\<close> is the position of the first free block that has room for \<open>sz\<close> bytes after the
  alignment gap. \<open>carve\<close> is the block list that replaces it: no gap leaves at most one remainder; a gap of at
  least four headers becomes a free block of its own, with a remainder behind the allocation.
\<close>

primrec first_fit :: "nat \<Rightarrow> nat \<Rightarrow> nat \<Rightarrow> block list \<Rightarrow> nat option" where
  "first_fit n sz al [] = None"
| "first_fit n sz al (b # bs) =
     (if b_free b \<and> sz + align_gap al (n + 24) \<le> b_size b then Some 0
      else map_option Suc (first_fit (n + 24 + b_size b) sz al bs))"

definition carve :: "nat \<Rightarrow> nat \<Rightarrow> nat \<Rightarrow> block list" where
  "carve gap sz tot =
     (if gap = 0
      then if tot - sz > 96 then [Block False sz, Block True (tot - sz - 24)] else [Block False tot]
      else [Block True (gap - 24), Block False sz, Block True (tot - gap - sz - 24)])"

text \<open>
  A request is clean at a block when there is no gap, or the gap is large enough for a block of its own
  and the rest large enough for another header. The code does not check this; see the properties.
\<close>

definition clean :: "nat \<Rightarrow> nat \<Rightarrow> nat \<Rightarrow> bool" where
  "clean gap sz tot \<longleftrightarrow> gap = 0 \<or> 96 \<le> gap \<and> gap + sz + 24 \<le> tot"

definition block_addr :: "nat \<Rightarrow> block list \<Rightarrow> nat \<Rightarrow> nat" where
  "block_addr n bs i = n + span (take i bs)"

lemma first_fit_Some:
  "first_fit n sz al bs = Some i \<Longrightarrow>
   i < length bs \<and> b_free (bs ! i) \<and> sz + align_gap al (block_addr n bs i + 24) \<le> b_size (bs ! i)"
proof (induction bs arbitrary: n i)
  case (Cons b bs)
  show ?case
  proof (cases i)
    case 0
    with Cons.prems show ?thesis by (auto simp: block_addr_def split: if_splits)
  next
    case (Suc k)
    with Cons.prems have "first_fit (n + 24 + b_size b) sz al bs = Some k" by (auto split: if_splits)
    from Cons.IH [OF this] Suc show ?thesis by (simp add: block_addr_def add.assoc)
  qed
qed simp

lemma span_carve: "clean gap sz tot \<Longrightarrow> gap + sz \<le> tot \<Longrightarrow> span (carve gap sz tot) = 24 + tot"
  by (auto simp: carve_def clean_def)

section \<open>Replacing blocks\<close>

text \<open>
  The memory \<open>m'\<close> holds the blocks \<open>mid\<close> where \<open>m\<close> held others of \<open>w\<close> bytes in all, at \<open>N\<close>; the header \<open>E\<close>
  after them links back to the last of \<open>mid\<close>; nothing else has changed. When no header follows and \<open>Z\<close> is
  set, the bytes of a header at the null pointer may have changed too.
\<close>

definition reblock :: "mem \<Rightarrow> mem \<Rightarrow> addr \<Rightarrow> nat \<Rightarrow> block list \<Rightarrow> addr \<Rightarrow> nat \<Rightarrow> bool \<Rightarrow> bool" where
  "reblock m m' q N mid E w Z \<longleftrightarrow> seg m' q N mid E \<and>
     (E \<noteq> 0 \<or> Z \<longrightarrow> get_entry m' E = (get_entry m E)\<lparr>e_previous := last_hdr q N mid\<rparr>) \<and>
     (\<forall>x. \<not> in_range x (ad N) w \<and> (E \<noteq> 0 \<or> Z \<longrightarrow> \<not> in_range x E 24) \<longrightarrow> m' x = m x)"

lemma in_range_ad: "i + w \<le> 4294967296 \<Longrightarrow> in_range x (ad i) w \<longleftrightarrow> i \<le> unat x \<and> unat x < i + w"
proof (cases "i < 4294967296")
  case False
  assume "i + w \<le> 4294967296"
  with False have "w = 0" "i = 4294967296" by simp_all
  then show ?thesis by (simp add: not_le)
qed (simp add: in_range_interval)

lemma in_range_ad_sub:
  "in_range x (ad k) v \<Longrightarrow> i \<le> k \<Longrightarrow> k + v \<le> i + w \<Longrightarrow> i + w \<le> 4294967296 \<Longrightarrow> in_range x (ad i) w"
  by (auto simp: in_range_ad)

lemma reblock_entry:
  assumes "reblock m m' q N mid E w Z" "N + w \<le> 4294967296" "k + 24 \<le> 4294967296"
    "k + 24 \<le> N \<or> N + w \<le> k" "E \<noteq> 0 \<or> Z \<Longrightarrow> apart E (ad k)"
  shows "get_entry m' (ad k) = get_entry m (ad k)"
proof (rule get_entry_cong)
  fix x assume x: "in_range x (ad k) 24"
  with assms have "\<not> in_range x (ad N) w" by (auto simp: in_range_ad)
  moreover have "E \<noteq> 0 \<or> Z \<Longrightarrow> \<not> in_range x E 24" using apart_bytes [OF assms(5) x] by blast
  ultimately show "m' x = m x" using assms(1) by (simp add: reblock_def)
qed

lemma reblock_seg:
  assumes s: "seg m p n (pre @ old @ post) nx" and "old \<noteq> []" "mid \<noteq> []" "span mid = span old"
    and N: "N = n + span pre" and nx: "nx = 0"
    and r: "reblock m m' (last_hdr p n pre) N mid (if post = [] then nx else ad (N + span old)) (span old) Z"
    and Z: "Z \<Longrightarrow> 24 \<le> n"
  shows "seg m' p n (pre @ mid @ post) nx"
proof -
  let ?E = "if post = [] then nx else ad (N + span old)"
  note b = seg_bound [OF s]
  from assms have s3: "seg m p n pre (ad N)" "seg m (last_hdr (last_hdr p n pre) N old) (N + span old) post nx"
    by (simp_all add: seg_append add.assoc split: if_splits)
  have E: "k + 24 \<le> N + span old \<or> k \<noteq> N + span old \<and> k \<in> set (hdrs (N + span old) post) \<Longrightarrow>
      n \<le> k \<Longrightarrow> ?E \<noteq> 0 \<or> Z \<Longrightarrow> apart ?E (ad k)" for k
  proof -
    assume k: "k + 24 \<le> N + span old \<or> k \<noteq> N + span old \<and> k \<in> set (hdrs (N + span old) post)" and n: "n \<le> k" and "?E \<noteq> 0 \<or> Z"
    show "apart ?E (ad k)"
    proof (cases post)
      case Nil
      with \<open>?E \<noteq> 0 \<or> Z\<close> nx have "24 \<le> n" using Z by simp
      with k n Nil b N apart_ad [of 0 k] show ?thesis using nx \<open>old \<noteq> []\<close> by auto
    next
      case post: (Cons c cs)
    from k post hdrs_bounds [of k "N + span old + 24 + b_size c" cs]
    have "k + 24 \<le> N + span old \<or> N + span old + 24 \<le> k \<and> k + 24 \<le> n + span (pre @ old @ post)"
      using N by auto
    moreover have "n + span (pre @ old @ post) < 4294967296" using b \<open>old \<noteq> []\<close> by simp
    ultimately show ?thesis using N post
      by (elim disjE) (simp_all add: apart_ad(2) apart_ad(1))
    qed
  qed
  have bound: "N + span old + span post < 4294967296" using b N \<open>old \<noteq> []\<close> by simp
  have "seg m' p n pre (ad N)"
  proof (subst seg_frame [of n pre m' m])
    fix k assume "k \<in> set (hdrs n pre)"
    then have "k + 24 \<le> N" "n \<le> k" using hdrs_bounds N by simp_all
    then show "get_entry m' (ad k) = get_entry m (ad k)"
      using bound E by (intro reblock_entry [OF r]) auto
  qed (rule s3)
  moreover have "seg m' (last_hdr (last_hdr p n pre) N mid) (N + span old) post nx"
  proof (rule seg_relink [OF s3(2)])
    assume "post \<noteq> []"
    moreover have "ad (N + span old) \<noteq> 0" using bound b N \<open>old \<noteq> []\<close> by simp
    ultimately show "get_entry m' (ad (N + span old)) =
        (get_entry m (ad (N + span old)))\<lparr>e_previous := last_hdr (last_hdr p n pre) N mid\<rparr>"
      using r by (simp add: reblock_def)
  next
    fix k assume k: "k \<in> set (hdrs (N + span old) post)" "k \<noteq> N + span old"
    with hdrs_bounds [OF this(1)] show "get_entry m' (ad k) = get_entry m (ad k)"
      using bound E [of k] N by (intro reblock_entry [OF r]) auto
  qed
  moreover have "seg m' (last_hdr p n pre) N mid ?E" using r by (simp add: reblock_def)
  ultimately show ?thesis using \<open>span mid = span old\<close> \<open>mid \<noteq> []\<close> N
    by (cases "post = []") (simp_all add: seg_append add.assoc)
qed

lemma link_new_entry:
  assumes a: "apart M N" "apart N M" and E: "e_next (get_entry m N) = E"
    "E \<noteq> 0 \<Longrightarrow> apart M E \<and> apart E M \<and> apart N E \<and> apart E N"
  shows "snd (link_new_entry m M N) = M"
    "get_entry (fst (link_new_entry m M N)) M = (get_entry m M)\<lparr>e_previous := N, e_next := E\<rparr>"
    "get_entry (fst (link_new_entry m M N)) N = (get_entry m N)\<lparr>e_next := M\<rparr>"
    "E \<noteq> 0 \<Longrightarrow> get_entry (fst (link_new_entry m M N)) E = (get_entry m E)\<lparr>e_previous := M\<rparr>"
    "\<lbrakk>\<not> in_range x M 24; \<not> in_range x N 24; E \<noteq> 0 \<longrightarrow> \<not> in_range x E 24\<rbrakk> \<Longrightarrow> fst (link_new_entry m M N) x = m x"
  using assms by (simp_all add: link_new_entry_def Let_def heap_simps)

section \<open>Allocating from a block\<close>

text \<open>A free block at \<open>N\<close> before the header \<open>E\<close>, with what its neighbours need of it.\<close>

definition free_block :: "mem \<Rightarrow> addr \<Rightarrow> nat \<Rightarrow> nat \<Rightarrow> addr \<Rightarrow> bool" where
  "free_block m q N tot E \<longleftrightarrow> entry_ok m q N (Block True tot) E \<and>
     (E = 0 \<or> E = ad (N + 24 + tot) \<and> N + 24 + tot + 24 \<le> 4294967296 \<and>
      e_previous (get_entry m E) = ad N)"

lemma free_block_apart:
  assumes "free_block m q N tot E" "N \<le> k" "k + 24 \<le> N + 24 + tot" "E \<noteq> 0"
  shows "apart (ad k) E \<and> apart E (ad k)"
proof -
  have "E = ad (N + 24 + tot)" "N + 24 + tot + 24 \<le> 4294967296" using assms by (auto simp: free_block_def)
  then show ?thesis using assms(2,3) apart_ad [of k "N + 24 + tot"] by simp
qed

lemma alloc_whole:
  assumes f: "free_block m q N tot E" and sz: "sz \<le> tot" "tot - sz \<le> 96"
  shows "reblock m (fst (alloc_entry m (ad N) 0 (ad sz) d)) q N [Block False tot] E (24 + tot) False"
    and "snd (alloc_entry m (ad N) 0 (ad sz) d) = ad (N + 24)"
proof -
  have b: "N + 24 + tot < 4294967296" "N + tot < 4294967296" "0 < N" using f by (auto simp: free_block_def entry_ok_def)
  then have c: "\<not> 96 < ad tot - ad sz" using sz by (simp add: ad_minus word_less_nat_alt)
  have E: "E \<noteq> 0 \<Longrightarrow> apart (ad N) E" using free_block_apart [OF f, of N] by simp
  have r: "\<not> in_range x (ad N) (24 + tot) \<Longrightarrow> \<not> in_range x (ad N) 24" for x
    using b in_range_ad_sub [of x N 24 N "24 + tot"] by auto
  show "reblock m (fst (alloc_entry m (ad N) 0 (ad sz) d)) q N [Block False tot] E (24 + tot) False"
    "snd (alloc_entry m (ad N) 0 (ad sz) d) = ad (N + 24)"
    using f b c E r
    by (auto simp: alloc_entry_def reblock_def entry_ok_def free_block_def Let_def heap_simps)
qed

lemma alloc_front:
  assumes f: "free_block m q N tot E" and sz: "sz + 96 < tot"
  shows "reblock m (fst (alloc_entry m (ad N) 0 (ad sz) d)) q N
           [Block False sz, Block True (tot - sz - 24)] E (24 + tot) False"
    and "snd (alloc_entry m (ad N) 0 (ad sz) d) = ad (N + 24)"
proof -
  have b: "N + 24 + tot < 4294967296" "0 < N" using f by (auto simp: free_block_def entry_ok_def)
  have e: "available (get_entry m (ad N)) = 1" "e_size (get_entry m (ad N)) = ad tot"
    "e_start (get_entry m (ad N)) = ad (N + 24)" "e_previous (get_entry m (ad N)) = q"
    "e_next (get_entry m (ad N)) = E"
    using f by (simp_all add: free_block_def entry_ok_def)
  define M where "M = N + 24 + sz"
  have M: "ad (N + 24) + ad sz = ad M" by (simp add: ad_plus M_def)
  have c: "96 < ad tot - ad sz" "ad tot - ad sz - 24 = ad (tot - sz - 24)"
    using sz b by (simp_all add: ad_minus ad_minus_24 word_less_nat_alt)
  have aN: "apart (ad N) (ad M)" "apart (ad M) (ad N)"
    using sz b apart_ad [of N M] by (simp_all add: M_def)
  have aE: "apart (ad N) E" "apart E (ad N)" "apart (ad M) E" "apart E (ad M)" if "E \<noteq> 0"
    using free_block_apart [OF f _ _ that, of N] free_block_apart [OF f _ _ that, of M] sz
    by (simp_all add: M_def)
  have r: "\<not> in_range x (ad N) (24 + tot) \<Longrightarrow> \<not> in_range x (ad N) 24 \<and> \<not> in_range x (ad M) 24" for x
    using b sz in_range_ad_sub [of x N 24 N "24 + tot"] in_range_ad_sub [of x M 24 N "24 + tot"]
    by (auto simp: M_def)
  have M': "N + 24 + sz = M" "M + 24 + (tot - sz - 24) < 4294967296" "0 < M"
    using sz b by (simp_all add: M_def)
  show "reblock m (fst (alloc_entry m (ad N) 0 (ad sz) d)) q N
           [Block False sz, Block True (tot - sz - 24)] E (24 + tot) False"
    "snd (alloc_entry m (ad N) 0 (ad sz) d) = ad (N + 24)"
    using b M' c aN aE r
    by (auto simp: alloc_entry_def link_new_entry_def reblock_def entry_ok_def Let_def heap_simps M ad_plus_24 e)
qed

lemma alloc_gap:
  assumes f: "free_block m q N tot E" and sz: "96 \<le> gap" "gap + sz + 24 \<le> tot"
  shows "reblock m (fst (alloc_entry m (ad N) (ad gap) (ad sz) d)) q N
           [Block True (gap - 24), Block False sz, Block True (tot - gap - sz - 24)] E (24 + tot) False"
    and "snd (alloc_entry m (ad N) (ad gap) (ad sz) d) = ad (N + 24 + gap)"
proof -
  have b: "N + 24 + tot < 4294967296" "0 < N" using f by (auto simp: free_block_def entry_ok_def)
  have e: "available (get_entry m (ad N)) = 1" "e_size (get_entry m (ad N)) = ad tot"
    "e_start (get_entry m (ad N)) = ad (N + 24)" "e_previous (get_entry m (ad N)) = q"
    "e_next (get_entry m (ad N)) = E"
    using f by (simp_all add: free_block_def entry_ok_def)
  define M K where "M = N + gap" and "K = M + 24 + sz"
  have M: "ad (N + 24) + ad gap = ad (M + 24)" "ad (M + 24) - 24 = ad M" "ad M - ad (N + 24) = ad (gap - 24)"
      "ad (M + 24) + ad sz = ad K"
    using sz by (simp_all add: ad_plus ad_minus ad_minus_24 M_def K_def ac_simps)
  have c: "96 < ad tot - ad sz" "ad tot - ad gap - ad sz - 24 = ad (tot - gap - sz - 24)" "96 \<le> ad gap"
    using sz b by (simp_all add: ad_minus ad_minus_24 word_less_nat_alt word_le_nat_alt)
  have o: "N + 24 \<le> M" "M + 24 \<le> K" "K + 24 \<le> N + 24 + tot" using sz by (simp_all add: M_def K_def)
  have aN: "apart (ad N) (ad M)" "apart (ad M) (ad N)" "apart (ad N) (ad K)" "apart (ad K) (ad N)"
      "apart (ad M) (ad K)" "apart (ad K) (ad M)"
    using o b apart_ad [of N M] apart_ad [of N K] apart_ad [of M K] by simp_all
  have aE: "apart (ad N) E" "apart E (ad N)" "apart (ad M) E" "apart E (ad M)" "apart (ad K) E" "apart E (ad K)"
    if "E \<noteq> 0"
    using free_block_apart [OF f _ _ that, of N] free_block_apart [OF f _ _ that, of M]
      free_block_apart [OF f _ _ that, of K] o by simp_all
  have r: "\<not> in_range x (ad N) (24 + tot) \<Longrightarrow>
      \<not> in_range x (ad N) 24 \<and> \<not> in_range x (ad M) 24 \<and> \<not> in_range x (ad K) 24" for x
    using b o in_range_ad_sub [of x N 24 N "24 + tot"] in_range_ad_sub [of x M 24 N "24 + tot"]
      in_range_ad_sub [of x K 24 N "24 + tot"] by auto
  have M': "N + 24 + (gap - 24) = M" "M + 24 + sz = K" "K + 24 + (tot - gap - sz - 24) < 4294967296"
      "0 < M" "0 < K" "N + 24 + (gap - 24) < 4294967296" "M + 24 + sz < 4294967296"
    using sz b by (simp_all add: M_def K_def)
  have nz: "ad M \<noteq> 0" using M' by simp
  show "reblock m (fst (alloc_entry m (ad N) (ad gap) (ad sz) d)) q N
           [Block True (gap - 24), Block False sz, Block True (tot - gap - sz - 24)] E (24 + tot) False"
    using b M' c aN aE r nz
    by (auto simp: alloc_entry_def link_new_entry_def reblock_def entry_ok_def Let_def heap_simps M ad_plus_24 e)
  have p: "N + 24 + gap = M + 24" by (simp add: M_def)
  show "snd (alloc_entry m (ad N) (ad gap) (ad sz) d) = ad (N + 24 + gap)"
    unfolding p using c aN aE by (auto simp: alloc_entry_def link_new_entry_def Let_def heap_simps M ad_plus_24 e)
qed

text \<open>The three cases together, in a heap.\<close>

lemma seg_free_block:
  assumes s: "seg m p n (pre @ Block True tot # post) 0" and N: "N = n + span pre"
  shows "free_block m (last_hdr p n pre) N tot (if post = [] then 0 else ad (N + 24 + tot))"
proof -
  note b = seg_bound [OF s]
  show ?thesis
  proof (cases post)
    case Nil
    with s N show ?thesis by (simp add: seg_append free_block_def)
  next
    case (Cons c cs)
    with s N b show ?thesis by (simp add: seg_append free_block_def entry_ok_def)
  qed
qed

lemma alloc_entry_refines:
  fixes d :: addr
  assumes s: "seg m p n (pre @ Block True tot # post) 0" and N: "N = n + span pre"
    and c: "clean gap sz tot" "gap + sz \<le> tot"
  defines "r \<equiv> alloc_entry m (ad N) (ad gap) (ad sz) d"
  shows "seg (fst r) p n (pre @ carve gap sz tot @ post) 0" and "snd r = ad (N + 24 + gap)"
    and "reblock m (fst r) (last_hdr p n pre) N (carve gap sz tot)
           (if post = [] then 0 else ad (N + 24 + tot)) (24 + tot) False"
proof -
  note f = seg_free_block [OF s N]
  show re: "reblock m (fst r) (last_hdr p n pre) N (carve gap sz tot)
           (if post = [] then 0 else ad (N + 24 + tot)) (24 + tot) False"
    using c alloc_whole(1) [OF f, of sz d] alloc_front(1) [OF f, of sz d] alloc_gap(1) [OF f, of gap sz d]
    by (auto simp: r_def carve_def clean_def)
  show "snd r = ad (N + 24 + gap)"
    using c alloc_whole(2) [OF f, of sz d] alloc_front(2) [OF f, of sz d] alloc_gap(2) [OF f, of gap sz d]
    by (cases "gap = 0"; cases "sz + 96 < tot") (auto simp: r_def clean_def)
  have "seg m p n (pre @ [Block True tot] @ post) 0" using s by simp
  then show "seg (fst r) p n (pre @ carve gap sz tot @ post) 0"
  proof (rule reblock_seg)
    show "reblock m (fst r) (last_hdr p n pre) N (carve gap sz tot)
        (if post = [] then 0 else ad (N + span [Block True tot])) (span [Block True tot]) False"
      using re by (cases "post = []") (simp_all add: add.assoc)
  qed (use N span_carve [OF c] in \<open>auto simp: carve_def\<close>)
qed

lemma next_aligned_addr_gap:
  assumes "al \<noteq> 0"
  obtains x where "next_aligned_addr a al = ret x" "x - a = ad (align_gap (unat al) (unat a))"
proof (cases "a mod al = 0")
  case True
  then have "unat a mod unat al = 0" by (metis unat_mod_word unat_0)
  with True assms that show thesis by (simp add: next_aligned_addr_def align_gap_def)
next
  case False
  then have "unat a mod unat al \<noteq> 0" by (metis unat_mod_word unat_eq_zero)
  moreover have "unat a mod unat al \<le> unat al" using assms by (simp add: unat_gt_0 less_imp_le)
  then have "al - a mod al = ad (unat al - unat a mod unat al)"
    by (metis ad_minus ad_unat unat_mod_word)
  ultimately show thesis using False assms that by (simp add: next_aligned_addr_def align_gap_def)
qed

lemma align_gap_less: "0 < al \<Longrightarrow> align_gap al a < al"
  by (simp add: align_gap_def)

lemma align_gap_dvd: "0 < al \<Longrightarrow> al dvd a + align_gap al a"
proof -
  assume "0 < al"
  then have "a + (al - a mod al) = a div al * al + al" if "a mod al \<noteq> 0"
    using div_mult_mod_eq [of a al] mod_less_divisor [of al a] by linarith
  then show ?thesis using \<open>0 < al\<close> by (auto simp: align_gap_def)
qed

lemma kmalloc_loop_first_fit:
  assumes al: "al \<noteq> 0" "unat sz + unat al \<le> 4294967296"
  shows "seg m p n bs 0 \<Longrightarrow>
    kmalloc_loop m (if bs = [] then 0 else ad n) sz al d =
      (case first_fit n (unat sz) (unat al) bs of None \<Rightarrow> ret (m, 0)
       | Some i \<Rightarrow> ret (alloc_entry m (ad (block_addr n bs i))
                    (ad (align_gap (unat al) (block_addr n bs i + 24))) sz d))"
proof (induction bs arbitrary: p n)
  case Nil
  show ?case by (subst kmalloc_loop.simps) simp
next
  case (Cons b bs)
  let ?g = "align_gap (unat al) (n + 24)"
  from Cons.prems have e: "entry_ok m p n b (if bs = [] then 0 else ad (n + 24 + b_size b))" by simp
  then have n: "0 < n" "n + 24 + b_size b < 4294967296" by (auto simp: entry_ok_def)
  then have nz: "ad n \<noteq> 0" by simp
  have g: "?g < unat al" using al by (simp add: align_gap_less unat_gt_0)
  obtain x where x: "next_aligned_addr (ad (n + 24)) al = ret x" "x - ad (n + 24) = ad ?g"
    using next_aligned_addr_gap [OF al(1), of "ad (n + 24)"] n by auto
  have "sz + ad ?g = ad (unat sz + ?g)" by (metis ad_plus ad_unat)
  then have fit: "(sz + ad ?g \<le> ad (b_size b)) = (unat sz + ?g \<le> b_size b)"
    using n g al by (simp add: ad_le)
  have addr: "block_addr n (b # bs) (Suc i) = block_addr (n + 24 + b_size b) bs i" for i
    by (simp add: block_addr_def)
  have IH: "kmalloc_loop m (if bs = [] then 0 else ad (n + 24 + b_size b)) sz al d =
      (case first_fit (n + 24 + b_size b) (unat sz) (unat al) bs of None \<Rightarrow> ret (m, 0)
       | Some i \<Rightarrow> ret (alloc_entry m (ad (block_addr n (b # bs) (Suc i)))
                    (ad (align_gap (unat al) (block_addr n (b # bs) (Suc i) + 24))) sz d))"
    unfolding addr using Cons.prems by (intro Cons.IH [of "ad n"]) simp
  show ?case
    by (subst kmalloc_loop.simps)
      (use e nz x fit IH in \<open>auto simp: entry_ok_def block_addr_def [of _ _ 0] split: option.splits\<close>)
qed

section \<open>The bytes the heap has handed out\<close>

primrec used_bytes :: "nat \<Rightarrow> block list \<Rightarrow> nat set" where
  "used_bytes n [] = {}"
| "used_bytes n (b # bs) =
     (if b_free b then {} else {n + 24..<n + 24 + b_size b}) \<union> used_bytes (n + 24 + b_size b) bs"

lemma used_bytes_append: "used_bytes n (bs @ cs) = used_bytes n bs \<union> used_bytes (n + span bs) cs"
  by (induction bs arbitrary: n) (auto simp: add.assoc)

lemma used_bytes_bounds: "k \<in> used_bytes n bs \<Longrightarrow> n + 24 \<le> k \<and> k < n + span bs"
  by (induction bs arbitrary: n) (auto split: if_splits, fastforce+)

lemma reblock_used:
  assumes r: "reblock m m' q N mid (if post = [] then 0 else ad (N + w)) w Z"
    and N: "N = n + span pre" "N + w + span post < 4294967296" and Z: "Z \<Longrightarrow> 24 \<le> n"
    and x: "unat x \<in> used_bytes n pre \<union> used_bytes (N + w) post"
  shows "m' x = m x"
proof -
  have a: "\<not> in_range x (ad N) w"
    using x N used_bytes_bounds [of "unat x" n pre] used_bytes_bounds [of "unat x" "N + w" post]
    by (auto simp: in_range_ad)
  have e: "\<not> in_range x (if post = [] then 0 else ad (N + w)) 24"
    if "(if post = [] then 0 else ad (N + w)) \<noteq> 0 \<or> Z"
  proof (cases post)
    case Nil
    then have "24 \<le> unat x" using that x Z used_bytes_bounds [of "unat x" n pre] by simp
    then show ?thesis using Nil by (simp add: in_range_def)
  next
    case (Cons c cs)
    then show ?thesis
      using x N used_bytes_bounds [of "unat x" n pre] used_bytes_bounds [of "unat x" "N + w" post]
      by (auto simp: in_range_ad)
  qed
  show ?thesis using r a e unfolding reblock_def by blast
qed

section \<open>Freeing a block\<close>

lemma mark_free:
  assumes s: "seg m p n (pre @ Block False sz # post) 0" and N: "N = n + span pre"
  defines "m' \<equiv> set_description (set_available m (ad N) 1) (ad N) 0"
  shows "reblock m m' (last_hdr p n pre) N [Block True sz] (if post = [] then 0 else ad (N + 24 + sz))
           (24 + sz) False"
proof -
  note b = seg_bound [OF s]
  let ?E = "if post = [] then 0 else ad (N + 24 + sz)"
  from s N have e: "entry_ok m (last_hdr p n pre) N (Block False sz) ?E"
    by (cases "post = []") (simp_all add: seg_append)
  have E: "apart (ad N) ?E" "e_previous (get_entry m ?E) = ad N" if "?E \<noteq> 0"
  proof -
    from that obtain c cs where "post = c # cs" by (cases post) auto
    with s b N apart_ad [of N "N + 24 + sz"]
    show "apart (ad N) ?E" "e_previous (get_entry m ?E) = ad N" by (auto simp: seg_append entry_ok_def)
  qed
  have r: "\<not> in_range x (ad N) (24 + sz) \<Longrightarrow> \<not> in_range x (ad N) 24" for x
    using b N in_range_ad_sub [of x N 24 N "24 + sz"] by auto
  show ?thesis using e E r unfolding reblock_def m'_def
    by (simp add: entry_ok_def heap_simps)
qed

lemma merge_entries_refines:
  assumes s: "seg m p n (pre @ Block True s1 # Block True s2 # post) 0" and n: "24 \<le> n"
    and N: "N = n + span pre"
  obtains m' where "merge_entries m (ad N) (ad (N + 24 + s1)) = ret (m', ad N)"
    "reblock m m' (last_hdr p n pre) N [Block True (s1 + 24 + s2)]
       (if post = [] then 0 else ad (N + (48 + s1 + s2))) (48 + s1 + s2) True"
proof -
  note b = seg_bound [OF s]
  define M E where "M = N + 24 + s1" and "E = (if post = [] then 0 else ad (N + (48 + s1 + s2)))"
  have e: "entry_ok m (last_hdr p n pre) N (Block True s1) (ad M)" "entry_ok m (ad N) M (Block True s2) E"
    using s N by (auto simp: seg_append M_def E_def add.assoc)
  have o: "N + 24 \<le> M" "M + 24 + s2 < 4294967296" "N + (48 + s1 + s2) < 4294967296" "24 \<le> N"
    using b N n by (simp_all add: M_def)
  have lt: "ad N < ad M" using o by (simp add: ad_less)
  have aN: "apart (ad N) (ad M)" "apart (ad M) (ad N)" using o apart_ad [of N M] by simp_all
  have aE: "apart (ad N) E \<and> apart E (ad N) \<and> apart (ad M) E \<and> apart E (ad M)"
  proof (cases "post = []")
    case True
    then show "apart (ad N) E \<and> apart E (ad N) \<and> apart (ad M) E \<and> apart E (ad M)"
      using o apart_ad [of 0 N] apart_ad [of 0 M] by (simp_all add: E_def)
  next
    case False
    then obtain c cs where "post = c # cs" by (cases post) auto
    then have "N + (48 + s1 + s2) + 24 \<le> 4294967296" using b N by simp
    with False show "apart (ad N) E \<and> apart E (ad N) \<and> apart (ad M) E \<and> apart E (ad M)"
      using o apart_ad [of N "N + (48 + s1 + s2)"] apart_ad [of M "N + (48 + s1 + s2)"]
      by (simp_all add: E_def M_def)
  qed
  define m' where "m' = set_size (set_previous (set_start (set_next m (ad N) E) (ad N) (ad N + 24)) E (ad N))
      (ad N) (ad (M + 24) + ad s2 - (ad N + 24))"
  have "ad (M + 24) + ad s2 - (ad N + 24) = ad (s1 + 24 + s2)"
    by (simp add: ad_plus_24 ad_plus ad_minus M_def ac_simps)
  then have "entry_ok m' (last_hdr p n pre) N (Block True (s1 + 24 + s2)) E"
    using e aN aE o by (auto simp: m'_def entry_ok_def heap_simps ad_plus_24 M_def)
  moreover have "get_entry m' E = (get_entry m E)\<lparr>e_previous := ad N\<rparr>"
    using aE by (simp add: m'_def heap_simps)
  moreover have "m' x = m x" if "\<not> in_range x (ad N) (48 + s1 + s2)" "\<not> in_range x E 24" for x
  proof -
    have "\<not> in_range x (ad N) 24" using that(1) o in_range_ad_sub [of x N 24 N "48 + s1 + s2"] by auto
    with that(2) show ?thesis by (simp add: m'_def heap_simps)
  qed
  ultimately have "reblock m m' (last_hdr p n pre) N [Block True (s1 + 24 + s2)] E (48 + s1 + s2) True"
    by (simp add: reblock_def)
  moreover have "merge_entries m (ad N) (ad M) = ret (m', ad N)"
    using e aN aE lt by (simp add: merge_entries_def entry_ok_def Let_def heap_simps m'_def)
  ultimately show thesis using that by (simp add: M_def E_def)
qed

text \<open>What one such step keeps: the rest of the list, the null word, and the bytes handed out.\<close>

definition keeps :: "nat \<Rightarrow> block list \<Rightarrow> mem \<Rightarrow> mem \<Rightarrow> bool" where
  "keeps n bs m m' \<longleftrightarrow> available (get_entry m' 0) = available (get_entry m 0) \<and>
     (\<forall>x. unat x \<in> used_bytes n bs \<longrightarrow> m' x = m x)"

lemma keeps_trans: "keeps n bs m m' \<Longrightarrow> keeps n bs m' m'' \<Longrightarrow> keeps n bs m m''"
  by (simp add: keeps_def)

lemma keeps_refl [simp]: "keeps n bs m m"
  by (simp add: keeps_def)

lemma reblock_step:
  assumes s: "seg m p n (pre @ old @ post) 0" and o: "old \<noteq> []" "mid \<noteq> []" "span mid = span old"
    and N: "N = n + span pre" and n: "24 \<le> n"
    and r: "reblock m m' (last_hdr p n pre) N mid (if post = [] then 0 else ad (N + span old)) (span old) Z"
    and u: "used_bytes n bs \<subseteq> used_bytes n pre \<union> used_bytes (N + span old) post"
  shows "seg m' p n (pre @ mid @ post) 0" and "keeps n bs m m'"
proof -
  show "seg m' p n (pre @ mid @ post) 0"
    by (rule reblock_seg [OF s o N refl]) (use r n in auto)
  have b: "N + span old + span post < 4294967296" using seg_bound [OF s] o N by simp
  let ?E = "if post = [] then 0 else ad (N + span old)"
  have "available (get_entry m' 0) = available (get_entry m 0)"
  proof (cases "?E \<noteq> 0 \<or> Z")
    case False
    then have "get_entry m' (ad 0) = get_entry m (ad 0)"
      using r b n N by (intro reblock_entry [where N = N and w = "span old"]) auto
    then show ?thesis by simp
  next
    case True
    show ?thesis
    proof (cases post)
      case Nil
      with True r show ?thesis by (simp add: reblock_def)
    next
      case (Cons c cs)
      then have "apart ?E (ad 0)" using b n N apart_ad [of 0 "N + span old"] by simp
      then have "get_entry m' (ad 0) = get_entry m (ad 0)"
        using r b n N by (intro reblock_entry [where N = N and w = "span old"]) auto
      then show ?thesis by simp
    qed
  qed
  moreover have "m' x = m x" if "unat x \<in> used_bytes n bs" for x
    by (rule reblock_used [OF r N b]) (use that u n in auto)
  ultimately show "keeps n bs m m'" by (simp add: keeps_def)
qed

definition coalesce_left :: "block list \<Rightarrow> nat \<Rightarrow> block list \<times> nat" where
  "coalesce_left xs s =
     (if xs \<noteq> [] \<and> b_free (last xs) then (butlast xs, b_size (last xs) + 24 + s) else (xs, s))"

definition coalesce_right :: "nat \<Rightarrow> block list \<Rightarrow> nat \<times> block list" where
  "coalesce_right s ys =
     (if ys \<noteq> [] \<and> b_free (hd ys) then (s + 24 + b_size (hd ys), tl ys) else (s, ys))"

definition free_at :: "block list \<Rightarrow> nat \<Rightarrow> block list \<Rightarrow> block list" where
  "free_at xs s ys =
     (let (xs, s) = coalesce_left xs s; (s, ys) = coalesce_right s ys in xs @ Block True s # ys)"

lemma free_at_span: "span (free_at xs s ys) = span xs + 24 + s + span ys"
proof (cases xs rule: rev_cases)
  case Nil
  then show ?thesis by (cases ys) (auto simp: free_at_def coalesce_left_def coalesce_right_def)
next
  case (snoc ws w)
  then show ?thesis by (cases ys) (auto simp: free_at_def coalesce_left_def coalesce_right_def)
qed

lemma kfree_left:
  assumes s: "seg m 0 n (xs @ Block True s # ys) 0" and n: "24 \<le> n" and z: "available (get_entry m 0) = 0"
    and c: "coalesce_left xs s = (xs', s')"
  defines "e \<equiv> ad (n + span xs)"
  obtains m' where
    "(if available (get_entry m (e_previous (get_entry m e))) \<noteq> 0
      then merge_entries m (e_previous (get_entry m e)) e else ret (m, e)) = ret (m', ad (n + span xs'))"
    "seg m' 0 n (xs' @ Block True s' # ys) 0" "keeps n (xs @ Block True s # ys) m m'"
proof (cases xs rule: rev_cases)
  case Nil
  with s have "e_previous (get_entry m e) = 0" by (simp add: e_def entry_ok_def)
  with Nil c s z that show thesis by (simp add: coalesce_left_def e_def)
next
  case (snoc ws w)
  have e: "e_previous (get_entry m e) = ad (n + span ws)"
    "available (get_entry m (ad (n + span ws))) = (if b_free w then 1 else 0)"
    using s snoc by (auto simp: e_def seg_append entry_ok_def add.assoc)
  show thesis
  proof (cases "b_free w")
    case False
    with snoc c e s that show thesis by (simp add: coalesce_left_def e_def)
  next
    case True
    then have w: "w = Block True (b_size w)" by (cases w) simp
    have s': "seg m 0 n (ws @ [Block True (b_size w), Block True s] @ ys) 0" using s snoc w by simp
    then have s'': "seg m 0 n (ws @ Block True (b_size w) # Block True s # ys) 0" by simp
    obtain m' where m': "merge_entries m (ad (n + span ws)) (ad (n + span ws + 24 + b_size w)) = ret (m', ad (n + span ws))"
      "reblock m m' (last_hdr 0 n ws) (n + span ws) [Block True (b_size w + 24 + s)]
        (if ys = [] then 0 else ad (n + span ws + (48 + b_size w + s))) (48 + b_size w + s) True"
      using merge_entries_refines [OF s'' n refl] .
    have "e = ad (n + span ws + 24 + b_size w)" using snoc by (simp add: e_def add.assoc)
    moreover have sp: "span [Block True (b_size w), Block True s] = 48 + b_size w + s" by simp
    note st = reblock_step [OF s' _ _ _ refl n, of "[Block True (b_size w + 24 + s)]", unfolded sp, OF _ _ _ m'(2)]
    have "seg m' 0 n (ws @ [Block True (b_size w + 24 + s)] @ ys) 0"
      by (rule st(1) [where bs = "[]"]) simp_all
    moreover have "keeps n (xs @ Block True s # ys) m m'"
      by (rule st(2)) (use snoc True in \<open>simp_all add: used_bytes_append ac_simps\<close>)
    ultimately show thesis using that e m'(1) snoc c True by (simp add: coalesce_left_def)
  qed
qed

lemma kfree_right:
  assumes s: "seg m 0 n (xs @ Block True s # ys) 0" and n: "24 \<le> n" and z: "available (get_entry m 0) = 0"
    and c: "coalesce_right s ys = (s', ys')"
  defines "e \<equiv> ad (n + span xs)"
  obtains m' e' where
    "(if available (get_entry m (e_next (get_entry m e))) \<noteq> 0
      then merge_entries m e (e_next (get_entry m e)) else ret (m, e)) = ret (m', e')"
    "seg m' 0 n (xs @ Block True s' # ys') 0" "keeps n (xs @ Block True s # ys) m m'"
proof (cases ys)
  case Nil
  with s have "e_next (get_entry m e) = 0" by (simp add: e_def seg_append entry_ok_def)
  with Nil c s z that show thesis by (simp add: coalesce_right_def e_def)
next
  case (Cons w ws)
  have e: "e_next (get_entry m e) = ad (n + span xs + 24 + s)"
    "available (get_entry m (ad (n + span xs + 24 + s))) = (if b_free w then 1 else 0)"
    using s Cons by (auto simp: e_def seg_append entry_ok_def)
  show thesis
  proof (cases "b_free w")
    case False
    with Cons c e s that show thesis by (simp add: coalesce_right_def e_def)
  next
    case True
    then have w: "w = Block True (b_size w)" by (cases w) simp
    have s': "seg m 0 n (xs @ [Block True s, Block True (b_size w)] @ ws) 0" using s Cons w by simp
    then have s'': "seg m 0 n (xs @ Block True s # Block True (b_size w) # ws) 0" by simp
    obtain m' where m': "merge_entries m (ad (n + span xs)) (ad (n + span xs + 24 + s)) = ret (m', ad (n + span xs))"
      "reblock m m' (last_hdr 0 n xs) (n + span xs) [Block True (s + 24 + b_size w)]
        (if ws = [] then 0 else ad (n + span xs + (48 + s + b_size w))) (48 + s + b_size w) True"
      using merge_entries_refines [OF s'' n refl] .
    have sp: "span [Block True s, Block True (b_size w)] = 48 + s + b_size w" by simp
    note st = reblock_step [OF s' _ _ _ refl n, of "[Block True (s + 24 + b_size w)]", unfolded sp, OF _ _ _ m'(2)]
    have "seg m' 0 n (xs @ [Block True (s + 24 + b_size w)] @ ws) 0"
      by (rule st(1) [where bs = "[]"]) simp_all
    moreover have "keeps n (xs @ Block True s # ys) m m'"
      by (rule st(2)) (use Cons True in \<open>simp_all add: used_bytes_append ac_simps\<close>)
    ultimately show thesis using that e m'(1) Cons c True by (simp add: coalesce_right_def e_def)
  qed
qed

definition null_ok :: "heap_state \<Rightarrow> bool" where
  "null_ok h \<longleftrightarrow> 24 \<le> unat (heap_start h) \<and> available (get_entry (hmem h) 0) = 0"


end
