(* ===== verification/Heap_Props.thy ===== *)
theory Heap_Props
  imports Heap_Refine
begin

text \<open>
  The contracts of \<open>setup_heap\<close>, \<open>kmalloc\<close> and \<open>kfree\<close> over the abstract block list of \<open>Heap_Refine\<close>, the
  allocator interface the other components use (locale \<open>allocator\<close>, interpreted on the kernel heap), and
  the requests for which the code does not keep its heap.
\<close>

lemma unat_u32_succ: "unat (x :: u32) \<le> 4294967295"
  using unat_u32_lt [of x] by linarith

section \<open>Setting the heap up\<close>

lemma setup_heap_seg:
  assumes "0 < unat a" "24 \<le> unat mx" "unat a + unat mx < 4294967296"
  shows "heap_inv (setup_heap h a mx) [Block True (unat mx - 24)]"
proof -
  have "unat (mx - 24) = unat mx - 24" using assms by (simp add: unat_sub_nowrap)
  then have "mx - 24 = ad (unat mx - 24)" by (metis ad_unat)
  moreover have "a + 24 = ad (unat a + 24)" using ad_plus_24 [of "unat a"] by simp
  ultimately show ?thesis using assms
    by (simp add: heap_inv_def setup_heap_def Let_def entry_ok_def)
qed

lemma setup_heap_null:
  assumes "24 \<le> unat a" "unat a + 24 \<le> 4294967296" "available (get_entry (hmem h) 0) = 0"
  shows "null_ok (setup_heap h a mx)"
  using assms apart_ad [of 0 "unat a"] by (simp add: null_ok_def setup_heap_def Let_def heap_simps)

lemma setup_heap_simps [simp]:
  "\<not> held (heap_mtx (setup_heap h a mx))" "heap_start (setup_heap h a mx) = a"
  by (simp_all add: setup_heap_def Let_def)

text \<open>
  \<open>setup_heap\<close> turns a memory region that does not reach the end of the address space into a heap of
  one free block of all but 24 of its bytes, with the lock free; it writes only the 24 bytes of that header.
\<close>

theorem setup_heap_spec:
  assumes "0 < start_addr" "24 \<le> max_size" "unat start_addr + unat max_size < 4294967296"
  shows "heap_inv (setup_heap h start_addr max_size) [Block True (unat max_size - 24)] \<and>
    heap_start (setup_heap h start_addr max_size) = start_addr \<and>
    \<not> held (heap_mtx (setup_heap h start_addr max_size)) \<and>
    {x. hmem (setup_heap h start_addr max_size) x \<noteq> hmem h x} \<subseteq> {x. in_range x start_addr 24}"
  using assms setup_heap_frame [of _ start_addr h max_size]
  by (auto intro!: setup_heap_seg simp: word_less_nat_alt word_le_nat_alt)

definition zero_heap :: heap_state where
  "zero_heap = \<lparr>heap_mtx = \<lparr>locked = 0, waiting = None\<rparr>, heap_start = 0, hmem = (\<lambda>_. 0)\<rparr>"

lemma zero_heap_null: "available (get_entry (hmem zero_heap) 0) = 0"
  by (simp add: zero_heap_def get_entry_def load32_def)

theorem setup_heap_spec_witness:
  "heap_inv (setup_heap zero_heap 4096 1024) [Block True 1000]"
  using setup_heap_spec [of 4096 1024 zero_heap] by simp

lemma demo_heap:
  "heap_inv (setup_heap zero_heap 4096 1024) [Block True 1000]" "null_ok (setup_heap zero_heap 4096 1024)"
  using setup_heap_seg [of 4096 1024 zero_heap] setup_heap_null [of 4096 zero_heap 1024] zero_heap_null
  by simp_all

section \<open>Allocation\<close>

lemma heap_inv_bounds: "heap_inv h bs \<Longrightarrow> 0 < unat (heap_start h) \<and> unat (heap_start h) + span bs < 4294967296"
  using seg_bound [of "hmem h" 0 "unat (heap_start h)" bs 0] by (simp add: heap_inv_def)

definition alloc_blocks :: "nat \<Rightarrow> block list \<Rightarrow> nat \<Rightarrow> nat \<Rightarrow> nat \<Rightarrow> block list" where
  "alloc_blocks n bs i al sz =
     take i bs @ carve (align_gap al (block_addr n bs i + 24)) sz (b_size (bs ! i)) @ drop (Suc i) bs"

lemma used_bytes_split:
  assumes "i < length bs" "b_free (bs ! i)"
  shows "used_bytes n bs = used_bytes n (take i bs) \<union> used_bytes (block_addr n bs i + (24 + b_size (bs ! i))) (drop (Suc i) bs)"
proof -
  have "used_bytes n bs = used_bytes n (take i bs @ bs ! i # drop (Suc i) bs)"
    using assms by (simp add: id_take_nth_drop [symmetric])
  also have "\<dots> = used_bytes n (take i bs) \<union>
      used_bytes (block_addr n bs i + (24 + b_size (bs ! i))) (drop (Suc i) bs)"
    using assms by (simp add: used_bytes_append block_addr_def add.assoc)
  finally show ?thesis .
qed

lemma span_take_nth: "i < length bs \<Longrightarrow> span bs = span (take i bs) + (24 + b_size (bs ! i)) + span (drop (Suc i) bs)"
  using id_take_nth_drop [of i bs] span_append [of "take i bs" "bs ! i # drop (Suc i) bs"] by simp

lemma kmalloc_step:
  assumes inv: "heap_inv h bs" and al: "al \<noteq> 0" "unat sz + unat al \<le> 4294967296"
    and free: "\<not> held (heap_mtx h)"
    and fit: "first_fit (unat (heap_start h)) (unat sz) (unat al) bs = Some i"
    and g: "g = align_gap (unat al) (block_addr (unat (heap_start h)) bs i + 24)"
    and c: "clean g (unat sz) (b_size (bs ! i))"
  obtains h' where
    "kmalloc h sz al d = ret (h', ad (block_addr (unat (heap_start h)) bs i + 24 + g))"
    "heap_inv h' (alloc_blocks (unat (heap_start h)) bs i (unat al) (unat sz))"
    "heap_start h' = heap_start h" "\<not> held (heap_mtx h')"
    "\<And>x. unat x \<in> used_bytes (unat (heap_start h)) bs \<Longrightarrow> hmem h' x = hmem h x"
    "null_ok h \<Longrightarrow> null_ok h'"
proof -
  define n where "n = unat (heap_start h)"
  define N tot where "N = block_addr n bs i" and "tot = b_size (bs ! i)"
  from first_fit_Some [OF fit] have i: "i < length bs" "b_free (bs ! i)" "unat sz + g \<le> tot"
    by (simp_all add: g tot_def)
  define r where "r = alloc_entry (hmem h) (ad N) (ad g) sz d"
  have bs: "bs = take i bs @ Block True tot # drop (Suc i) bs"
    using id_take_nth_drop [OF i(1)] i(2) by (cases "bs ! i") (simp add: tot_def)
  have s: "seg (hmem h) 0 n (take i bs @ Block True tot # drop (Suc i) bs) 0"
    using inv bs by (simp add: heap_inv_def n_def)
  have N: "N = n + span (take i bs)" by (simp add: N_def block_addr_def)
  have A: "seg (fst r) 0 n (take i bs @ carve g (unat sz) tot @ drop (Suc i) bs) 0"
    "snd r = ad (N + 24 + g)"
    "reblock (hmem h) (fst r) (last_hdr 0 n (take i bs)) N (carve g (unat sz) tot)
       (if drop (Suc i) bs = [] then 0 else ad (N + 24 + tot)) (24 + tot) False"
    using alloc_entry_refines [OF s N, where gap = g and sz = "unat sz" and d = d] c i(3)
    by (simp_all add: r_def tot_def add.commute)
  have "N + (24 + tot) = N + 24 + tot" by simp
  with A(3) have A3: "reblock (hmem h) (fst r) (last_hdr 0 n (take i bs)) N (carve g (unat sz) tot)
       (if drop (Suc i) bs = [] then 0 else ad (N + (24 + tot))) (24 + tot) False" by (simp only:)
  have loop: "kmalloc_loop (hmem h) (heap_start h) sz al d = ret r"
    using kmalloc_loop_first_fit [OF al, of "hmem h" 0 n bs d] inv fit
    by (simp add: heap_inv_def n_def N_def r_def g [symmetric])
  define h' where "h' = h\<lparr>hmem := fst r, heap_mtx := mutex_unlock (heap_mtx h\<lparr>locked := 1\<rparr>)\<rparr>"
  have "kmalloc h sz al d = ret (h', ad (N + 24 + g))"
    using loop free A(2) by (simp add: kmalloc_def mutex_lock_free h'_def case_prod_beta)
  moreover have "heap_inv h' (alloc_blocks n bs i (unat al) (unat sz))"
    using A(1) g by (simp add: heap_inv_def h'_def alloc_blocks_def n_def N_def tot_def carve_def)
  moreover have "hmem h' x = hmem h x" if "unat x \<in> used_bytes n bs" for x
  proof -
    have "N + (24 + tot) + span (drop (Suc i) bs) < 4294967296"
      using heap_inv_bounds [OF inv] span_take_nth [OF i(1)] by (simp add: N n_def tot_def)
    from reblock_used [OF A3 N this] that show ?thesis
      by (simp add: used_bytes_split [OF i(1,2)] N_def [symmetric] tot_def [symmetric] h'_def)
  qed
  moreover have "null_ok h'" if nl: "null_ok h"
  proof -
    have "seg (hmem h) 0 n (take i bs @ [Block True tot] @ drop (Suc i) bs) 0" using s by simp
    then have "keeps n [] (hmem h) (fst r)"
      by (rule reblock_step [OF _ _ _ _ N])
        (use A3 nl span_carve [of g "unat sz" tot] c i(3) in
          \<open>auto simp: null_ok_def n_def tot_def carve_def add.commute\<close>)
    then show ?thesis using nl by (simp add: null_ok_def keeps_def h'_def)
  qed
  ultimately show thesis using that [of h'] by (simp add: n_def N_def h'_def)
qed

lemma kmalloc_none:
  assumes "heap_inv h bs" "al \<noteq> 0" "unat sz + unat al \<le> 4294967296" "\<not> held (heap_mtx h)"
    "first_fit (unat (heap_start h)) (unat sz) (unat al) bs = None"
  shows "kmalloc h sz al d = ret (h\<lparr>heap_mtx := mutex_unlock (heap_mtx h\<lparr>locked := 1\<rparr>)\<rparr>, 0)"
  using kmalloc_loop_first_fit [OF assms(2,3), of "hmem h" 0 "unat (heap_start h)" bs d] assms
  by (simp add: kmalloc_def mutex_lock_free heap_inv_def)

text \<open>A request is clean when its first fit is: see \<open>clean\<close>. Requests with alignment 1 always are.\<close>

definition clean_request :: "nat \<Rightarrow> block list \<Rightarrow> nat \<Rightarrow> nat \<Rightarrow> bool" where
  "clean_request n bs al sz =
     (case first_fit n sz al bs of None \<Rightarrow> True
      | Some i \<Rightarrow> clean (align_gap al (block_addr n bs i + 24)) sz (b_size (bs ! i)))"

lemma align_gap_1 [simp]: "align_gap (Suc 0) a = 0"
  by (simp add: align_gap_def)

lemma clean_request_1: "clean_request n bs (Suc 0) sz"
  by (simp add: clean_request_def clean_def split: option.splits)

lemma used_bytes_carve:
  assumes "clean g sz tot" "g + sz \<le> tot"
  shows "{N + 24 + g..<N + 24 + g + sz} \<subseteq> used_bytes N (carve g sz tot)"
    and "used_bytes N (carve g sz tot) \<subseteq> {N + 24..<N + 24 + tot}"
  using assms by (auto simp: carve_def clean_def)

lemma used_bytes_alloc_blocks:
  assumes i: "i < length bs" "b_free (bs ! i)" and g: "g = align_gap al (block_addr n bs i + 24)"
    and c: "clean g sz (b_size (bs ! i))" "g + sz \<le> b_size (bs ! i)"
  shows "used_bytes n (alloc_blocks n bs i al sz) =
           used_bytes n bs \<union> used_bytes (block_addr n bs i) (carve g sz (b_size (bs ! i)))"
    and "used_bytes n bs \<inter> used_bytes (block_addr n bs i) (carve g sz (b_size (bs ! i))) = {}"
proof -
  let ?N = "block_addr n bs i" and ?tot = "b_size (bs ! i)"
  have N: "?N = n + span (take i bs)" by (simp add: block_addr_def)
  have "span (carve g sz ?tot) = 24 + ?tot" using c by (rule span_carve)
  then show "used_bytes n (alloc_blocks n bs i al sz) = used_bytes n bs \<union> used_bytes ?N (carve g sz ?tot)"
    by (simp add: alloc_blocks_def used_bytes_append used_bytes_split [OF i] N [symmetric] g [symmetric] Un_ac)
  have "k < ?N \<or> ?N + 24 + ?tot \<le> k" if "k \<in> used_bytes n bs" for k
    using that used_bytes_bounds [of k n "take i bs"]
      used_bytes_bounds [of k "?N + (24 + ?tot)" "drop (Suc i) bs"]
    by (auto simp: used_bytes_split [OF i] N [symmetric])
  then show "used_bytes n bs \<inter> used_bytes ?N (carve g sz ?tot) = {}"
    using used_bytes_carve(2) [OF c, of ?N] by fastforce
qed

text \<open>
  C1: \<open>kmalloc\<close> is a first-fit allocator: on a well-formed heap with its lock free it always returns, with
  the lock free again. If no block fits it returns the null pointer and leaves the heap as it was. Else
  the pointer is aligned, the \<open>sz\<close> bytes at it were free and are now handed out, the heap is well formed with the
  block list the abstract allocator gives, and no byte of an earlier allocation has changed.
\<close>

theorem kmalloc_refines:
  assumes "heap_inv h bs" "\<not> held (heap_mtx h)" "al \<noteq> 0" "unat sz + unat al \<le> 4294967296"
    and "clean_request (unat (heap_start h)) bs (unat al) (unat sz)"
  shows "\<exists>h'. \<not> held (heap_mtx h') \<and> heap_start h' = heap_start h \<and>
    (\<forall>x. unat x \<in> used_bytes (unat (heap_start h)) bs \<longrightarrow> hmem h' x = hmem h x) \<and>
    (case first_fit (unat (heap_start h)) (unat sz) (unat al) bs of
       None \<Rightarrow> kmalloc h sz al d = ret (h', 0) \<and> heap_inv h' bs \<and> hmem h' = hmem h
     | Some i \<Rightarrow> \<exists>p bs'. kmalloc h sz al d = ret (h', p) \<and> unat al dvd unat p \<and> p \<noteq> 0 \<and>
         bs' = alloc_blocks (unat (heap_start h)) bs i (unat al) (unat sz) \<and> heap_inv h' bs' \<and>
         {unat p..<unat p + unat sz} \<inter> used_bytes (unat (heap_start h)) bs = {} \<and>
         {unat p..<unat p + unat sz} \<union> used_bytes (unat (heap_start h)) bs
           \<subseteq> used_bytes (unat (heap_start h)) bs')"
proof (cases "first_fit (unat (heap_start h)) (unat sz) (unat al) bs")
  case None
  with kmalloc_none [OF assms(1,3,4,2)] assms show ?thesis by (auto simp: heap_inv_def)
next
  case (Some i)
  define n g where "n = unat (heap_start h)" and "g = align_gap (unat al) (block_addr n bs i + 24)"
  have c: "clean g (unat sz) (b_size (bs ! i))" using assms Some by (simp add: clean_request_def n_def g_def)
  from first_fit_Some [OF Some] have i: "i < length bs" "b_free (bs ! i)" "g + unat sz \<le> b_size (bs ! i)"
    by (simp_all add: g_def n_def)
  from kmalloc_step [OF assms(1,3,4,2) Some, of g d] c obtain h' where h':
    "kmalloc h sz al d = ret (h', ad (block_addr n bs i + 24 + g))"
    "heap_inv h' (alloc_blocks n bs i (unat al) (unat sz))" "heap_start h' = heap_start h" "\<not> held (heap_mtx h')"
    "\<And>x. unat x \<in> used_bytes n bs \<Longrightarrow> hmem h' x = hmem h x"
    by (auto simp: n_def g_def)
  define p where "p = block_addr n bs i + 24 + g"
  have "p + unat sz \<le> n + span bs" using span_take_nth [OF i(1)] i(3) by (simp add: p_def block_addr_def)
  then have p: "0 < p" "p < 4294967296" using heap_inv_bounds [OF assms(1)] by (auto simp: p_def n_def)
  have "unat al dvd unat (ad p)"
    using assms(3) p unfolding p_def g_def by (simp add: align_gap_dvd unat_gt_0)
  moreover note used_bytes_alloc_blocks [OF i(1,2) g_def c i(3)] used_bytes_carve(1) [OF c i(3), of "block_addr n bs i"]
  ultimately show ?thesis using h' p Some
    by (intro exI [of _ h']) (auto simp: p_def n_def)
qed

theorem kmalloc_refines_witness:
  "\<exists>h' p. kmalloc (setup_heap zero_heap 4096 1024) 100 1 0 = ret (h', p) \<and> p \<noteq> 0 \<and>
     heap_inv h' [Block False 100, Block True 876]"
proof -
  have d: "1 dvd unat p" for p :: addr by simp
  show ?thesis
    using kmalloc_refines [OF demo_heap(1), of 1 100 0]
    by (auto simp: clean_request_1 alloc_blocks_def carve_def block_addr_def)
qed

section \<open>Freeing\<close>

lemma used_bytes_left:
  "coalesce_left xs s = (xs', s') \<Longrightarrow> used_bytes n (xs' @ Block True s' # ys) = used_bytes n (xs @ Block True s # ys)"
proof (cases xs rule: rev_cases)
  case (snoc ws w)
  assume "coalesce_left xs s = (xs', s')"
  with snoc show ?thesis
    by (cases "b_free w") (auto simp: coalesce_left_def used_bytes_append ac_simps)
qed (simp add: coalesce_left_def)

lemma used_bytes_right:
  "coalesce_right s ys = (s', ys') \<Longrightarrow> used_bytes n (xs @ Block True s' # ys') = used_bytes n (xs @ Block True s # ys)"
proof (cases ys)
  case (Cons w ws)
  assume "coalesce_right s ys = (s', ys')"
  with Cons show ?thesis
    by (cases "b_free w") (auto simp: coalesce_right_def used_bytes_append ac_simps)
qed (simp add: coalesce_right_def)

lemma kfree_step:
  assumes "heap_inv h (xs @ Block False sz # ys)" "0 < sz" "null_ok h" "\<not> held (heap_mtx h)"
  shows "\<exists>h'. kfree h (ad (unat (heap_start h) + span xs + 24)) = ret h' \<and>
    heap_inv h' (free_at xs sz ys) \<and> heap_start h' = heap_start h \<and> null_ok h' \<and> \<not> held (heap_mtx h') \<and>
    (\<forall>x. unat x \<in> used_bytes (unat (heap_start h)) (free_at xs sz ys) \<longrightarrow> hmem h' x = hmem h x)"
proof -
  define n N where "n = unat (heap_start h)" and "N = n + span xs"
  define m1 where "m1 = set_description (set_available (hmem h) (ad N) 1) (ad N) 0"
  obtain xs' s1 where l: "coalesce_left xs sz = (xs', s1)" by fastforce
  obtain s2 ys' where r: "coalesce_right s1 ys = (s2, ys')" by fastforce
  have n: "24 \<le> n" using assms(3) by (simp add: null_ok_def n_def)
  have s0: "seg (hmem h) 0 n (xs @ Block False sz # ys) 0" using assms(1) by (simp add: heap_inv_def n_def)
  have b: "N + 24 + sz < 4294967296" "24 \<le> N" using seg_bound [OF s0] n by (auto simp: N_def)
  have e0: "entry_ok (hmem h) (last_hdr 0 n xs) N (Block False sz) (if ys = [] then 0 else ad (N + 24 + sz))"
    using s0 by (cases "ys = []") (auto simp: seg_append N_def)
  have sp: "span [Block False sz] = 24 + sz" by simp
  have nm: "N + (24 + sz) = N + 24 + sz" by simp
  have s0': "seg (hmem h) 0 n (xs @ [Block False sz] @ ys) 0" using s0 by simp
  note st = reblock_step [OF s0' _ _ _ N_def n, of "[Block True sz]", unfolded sp nm, OF _ _ _ mark_free [OF s0 N_def]]
  have s1: "seg m1 0 n (xs @ Block True sz # ys) 0" unfolding m1_def
    using st(1) [where bs = "[]"] by simp
  have k1: "keeps n (xs @ Block True sz # ys) (hmem h) m1" unfolding m1_def
    by (rule st(2)) (simp_all add: used_bytes_append N_def add.assoc)
  have z1: "available (get_entry m1 0) = 0" using k1 assms(3) by (simp add: keeps_def null_ok_def)
  obtain m2 where m2: "(if available (get_entry m1 (e_previous (get_entry m1 (ad N)))) \<noteq> 0
      then merge_entries m1 (e_previous (get_entry m1 (ad N))) (ad N) else ret (m1, ad N)) = ret (m2, ad (n + span xs'))"
    "seg m2 0 n (xs' @ Block True s1 # ys) 0" "keeps n (xs @ Block True sz # ys) m1 m2"
    using kfree_left [OF s1 n z1 l] unfolding N_def by blast
  have z2: "available (get_entry m2 0) = 0" using m2(3) z1 by (simp add: keeps_def)
  obtain m3 e3 where m3: "(if available (get_entry m2 (e_next (get_entry m2 (ad (n + span xs'))))) \<noteq> 0
      then merge_entries m2 (ad (n + span xs')) (e_next (get_entry m2 (ad (n + span xs'))))
      else ret (m2, ad (n + span xs'))) = ret (m3, e3)"
    "seg m3 0 n (xs' @ Block True s2 # ys') 0" "keeps n (xs' @ Block True s1 # ys) m2 m3"
    using kfree_right [OF m2(2) n z2 r] by blast
  have fa: "free_at xs sz ys = xs' @ Block True s2 # ys'" by (simp add: free_at_def l r)
  have u: "used_bytes n (xs' @ Block True s1 # ys) = used_bytes n (xs @ Block True sz # ys)"
    "used_bytes n (free_at xs sz ys) = used_bytes n (xs @ Block True sz # ys)"
    using used_bytes_left [OF l, of n ys] used_bytes_right [OF r, of n xs'] fa by simp_all
  then have k: "keeps n (free_at xs sz ys) (hmem h) m3"
    using k1 m2(3) m3(3) by (simp add: keeps_def)
  define h' where "h' = h\<lparr>hmem := m3, heap_mtx := mutex_unlock (heap_mtx h\<lparr>locked := 1\<rparr>)\<rparr>"
  have a: "ad (N + 24) - 24 = ad N" "\<not> ad (N + 24) < 24" "ad (N + 24) \<noteq> 0" "ad sz \<noteq> 0"
    using b assms(2) by (simp_all add: ad_minus_24 word_less_nat_alt)
  have "kfree h (ad (N + 24)) = ret h'"
    unfolding kfree_def mutex_lock_free [OF assms(4)] Let_def bindX_simps a(1) m1_def [symmetric]
    using a e0 by (simp add: entry_ok_def h'_def m2(1) m3(1) split del: if_split)
  moreover have "heap_inv h' (free_at xs sz ys)" using m3(2) by (simp add: heap_inv_def h'_def fa n_def)
  moreover have "null_ok h'" using k assms(3) by (simp add: null_ok_def keeps_def h'_def)
  ultimately show ?thesis using k by (intro exI [of _ h']) (simp add: h'_def keeps_def N_def n_def)
qed

text \<open>
  C2: \<open>kfree\<close> of a pointer the allocator handed out, on a well-formed heap whose lock is free: it returns
  with the lock free, the block is free and merged with a free block on either side, the list is well formed, and
  no byte of another allocation has changed. The code reads the \<open>available\<close> word of the null header at
  the two ends of the list, and writes its \<open>previous\<close> word when it merges the last block: the result
  needs that word to be zero and the heap to lie above the first 24 bytes of memory.
\<close>

theorem kfree_refines:
  assumes "heap_inv h (xs @ Block False sz # ys)" "0 < sz" "null_ok h" "\<not> held (heap_mtx h)"
  shows "\<exists>h'. kfree h (ad (unat (heap_start h) + span xs + 24)) = ret h' \<and>
    heap_inv h' (free_at xs sz ys) \<and> heap_start h' = heap_start h \<and> null_ok h' \<and> \<not> held (heap_mtx h') \<and>
    (\<forall>x. unat x \<in> used_bytes (unat (heap_start h)) (free_at xs sz ys) \<longrightarrow> hmem h' x = hmem h x)"
  using assms by (rule kfree_step)

theorem kfree_refines_witness:
  "\<exists>h h'. heap_inv h [Block False 100, Block True 876] \<and>
     kfree h (ad (unat (heap_start h) + 24)) = ret h' \<and> heap_inv h' [Block True 1000]"
proof -
  have f: "first_fit (unat (heap_start (setup_heap zero_heap 4096 1024))) (unat (100 :: u32)) (unat (1 :: u32)) [Block True 1000] = Some 0"
    by simp
  from kmalloc_step [OF demo_heap(1) _ _ _ f refl, of 0] demo_heap(2) obtain h where
    "heap_inv h ([] @ Block False 100 # [Block True 876])" "null_ok h" "\<not> held (heap_mtx h)"
    by (auto simp: alloc_blocks_def carve_def clean_def)
  from kfree_refines [OF this(1) _ this(2,3)] this(1) show ?thesis
    by (fastforce simp: free_at_def coalesce_left_def coalesce_right_def)
qed

section \<open>No two free blocks side by side\<close>

fun coalesced :: "block list \<Rightarrow> bool" where
  "coalesced (b # c # bs) = (\<not> (b_free b \<and> b_free c) \<and> coalesced (c # bs))"
| "coalesced bs = True"

lemma coalesced_append:
  "coalesced (xs @ ys) \<longleftrightarrow>
     coalesced xs \<and> coalesced ys \<and> (xs \<noteq> [] \<and> ys \<noteq> [] \<longrightarrow> \<not> (b_free (last xs) \<and> b_free (hd ys)))"
  by (induction xs rule: coalesced.induct; cases ys) auto

lemma coalesced_Cons: "coalesced (b # bs) \<longleftrightarrow> coalesced bs \<and> (bs \<noteq> [] \<longrightarrow> \<not> (b_free b \<and> b_free (hd bs)))"
  by (cases bs) auto

lemma free_at_coalesced:
  assumes "coalesced (xs @ Block False s # ys)"
  shows "coalesced (free_at xs s ys)"
proof -
  have xs: "coalesced xs" and ys: "coalesced ys" using assms by (auto simp: coalesced_append coalesced_Cons)
  have "coalesced xs' \<and> (xs' \<noteq> [] \<longrightarrow> \<not> b_free (last xs'))" if "coalesce_left xs s = (xs', s')" for xs' s'
  proof (cases xs rule: rev_cases)
    case (snoc ws w)
    with that xs show ?thesis
      by (cases "b_free w") (auto simp: coalesce_left_def coalesced_append)
  qed (use that in \<open>auto simp: coalesce_left_def\<close>)
  moreover have "coalesced ys' \<and> (ys' \<noteq> [] \<longrightarrow> \<not> b_free (hd ys'))" if "coalesce_right s' ys = (s'', ys')" for s' s'' ys'
    using that ys by (cases ys) (auto simp: coalesce_right_def coalesced_Cons split: if_splits)
  ultimately show ?thesis
    by (auto simp: free_at_def coalesced_append coalesced_Cons split: prod.split)
qed

lemma alloc_blocks_coalesced:
  assumes "coalesced bs" "i < length bs" "b_free (bs ! i)"
  shows "coalesced (alloc_blocks n bs i al sz)"
proof -
  have "coalesced (take i bs @ bs ! i # drop (Suc i) bs)" using assms by (simp add: id_take_nth_drop [symmetric])
  then show ?thesis using assms(3)
    by (auto simp: alloc_blocks_def carve_def coalesced_append coalesced_Cons)
qed

text \<open>
  C14: \<open>kfree\<close> undoes \<open>kmalloc\<close>: on a heap without neighbouring free blocks, a successful byte-aligned
  allocation followed by its release gives back the same block list, with every other allocation untouched.
\<close>

theorem kmalloc_kfree_roundtrip:
  assumes "heap_inv h bs" "coalesced bs" "null_ok h" "\<not> held (heap_mtx h)"
    and "0 < sz" "kmalloc h sz 1 d = ret (h1, p)" "p \<noteq> 0"
  shows "\<exists>h2. kfree h1 p = ret h2 \<and> heap_inv h2 bs \<and> null_ok h2 \<and> \<not> held (heap_mtx h2) \<and>
    (\<forall>x. unat x \<in> used_bytes (unat (heap_start h)) bs \<longrightarrow> hmem h2 x = hmem h x)"
proof (cases "first_fit (unat (heap_start h)) (unat sz) (unat (1 :: u32)) bs")
  case None
  have "unat sz + unat (1 :: u32) \<le> 4294967296" by (simp add: unat_u32_succ)
  from kmalloc_none [OF assms(1) _ this assms(4) None, of d] assms(6,7) show ?thesis by simp
next
  case (Some i)
  define n where "n = unat (heap_start h)"
  define xs ys tot where "xs = take i bs" and "ys = drop (Suc i) bs" and "tot = b_size (bs ! i)"
  from first_fit_Some [OF Some] have i: "i < length bs" "b_free (bs ! i)" "unat sz \<le> tot"
    by (simp_all add: tot_def)
  have bs: "bs = xs @ Block True tot # ys"
    using id_take_nth_drop [OF i(1)] i(2) by (cases "bs ! i") (simp add: xs_def ys_def tot_def)
  have sz: "0 < unat sz" "unat sz + unat (1 :: u32) \<le> 4294967296"
    using assms(5) by (simp_all add: word_less_nat_alt unat_u32_succ)
  have c: "clean (align_gap (unat (1 :: u32)) (block_addr n bs i + 24)) (unat sz) (b_size (bs ! i))"
    by (simp add: clean_def)
  from kmalloc_step [OF assms(1) _ sz(2) assms(4) Some refl c [unfolded n_def], of d] assms(6) have k:
    "p = ad (n + span xs + 24)" "heap_inv h1 (xs @ carve 0 (unat sz) tot @ ys)"
    "heap_start h1 = heap_start h" "\<not> held (heap_mtx h1)"
    "\<forall>x. unat x \<in> used_bytes n bs \<longrightarrow> hmem h1 x = hmem h x" "null_ok h1"
    using assms(3) by (auto simp: block_addr_def alloc_blocks_def xs_def ys_def tot_def n_def)
  obtain s zs where z: "carve 0 (unat sz) tot @ ys = Block False s # zs" "0 < s" "free_at xs s zs = bs"
    using assms(2) i(3) sz(1)
    by (fastforce simp: bs coalesced_append coalesced_Cons carve_def free_at_def coalesce_left_def
        coalesce_right_def split: if_splits)
  from kfree_step [OF k(2) [unfolded z(1)] z(2) k(6,4)] show ?thesis
    using k(1,3,5) by (auto simp: z(3) n_def)
qed

theorem kmalloc_kfree_roundtrip_witness:
  "\<exists>h1 p h2. kmalloc (setup_heap zero_heap 4096 1024) 100 1 0 = ret (h1, p) \<and> kfree h1 p = ret h2 \<and>
     heap_inv h2 [Block True 1000]"
proof -
  have f: "first_fit (unat (heap_start (setup_heap zero_heap 4096 1024))) (unat (100 :: u32)) (unat (1 :: u32)) [Block True 1000] = Some 0"
    by simp
  obtain h1 where "kmalloc (setup_heap zero_heap 4096 1024) 100 1 0 = ret (h1, ad 4120)"
    using kmalloc_step [OF demo_heap(1) _ _ _ f refl, of 0] by (auto simp: clean_def block_addr_def)
  moreover from kmalloc_kfree_roundtrip [OF demo_heap(1) _ demo_heap(2) _ _ this] obtain h2 where
    "kfree h1 (ad 4120) = ret h2" "heap_inv h2 [Block True 1000]" by auto
  ultimately show ?thesis by blast
qed

section \<open>Pointers \<open>kfree\<close> does not accept\<close>

text \<open>
  C37: \<open>kfree\<close> of a null pointer, or of any pointer below 24, returns without releasing the heap
  lock: every later call of \<open>kmalloc\<close> or \<open>kfree\<close> never returns. Of any other pointer whose header is
  marked free, or has size or start zero, it returns with the heap as it was and the lock free.
\<close>

theorem kfree_rejects:
  assumes "\<not> held (heap_mtx h)"
    and "ptr < 24 \<or> available (get_entry (hmem h) (ptr - 24)) \<noteq> 0 \<or>
      e_size (get_entry (hmem h) (ptr - 24)) = 0 \<or> e_start (get_entry (hmem h) (ptr - 24)) = 0"
  shows "\<exists>h'. kfree h ptr = ret h' \<and> hmem h' = hmem h \<and> heap_start h' = heap_start h \<and>
    (if ptr < 24 then (\<forall>sz al d q. kmalloc h' sz al d = None \<and> kfree h' q = None) else \<not> held (heap_mtx h'))"
  using assms by (auto simp: kfree_def kmalloc_def mutex_lock_free mutex_lock_held Let_def)

theorem kfree_rejects_witness:
  "\<exists>h'. kfree zero_heap 0 = ret h' \<and> kmalloc h' 1 1 0 = None"
  using kfree_rejects [of zero_heap 0] by (auto simp: zero_heap_def held_def)

section \<open>Requests with a small alignment gap\<close>

text \<open>
  C38: When the first fit needs an alignment gap of less than 96 bytes and has no room to split a
  remainder off, \<open>kmalloc\<close> returns a pointer whose header is not right before it (so \<open>kfree\<close> cannot find
  it), and records a payload that reaches \<open>gap\<close> bytes beyond the end of the block, into the header that follows.
\<close>

theorem kmalloc_small_gap_overrun:
  assumes "heap_inv h bs" "\<not> held (heap_mtx h)" "al \<noteq> 0" "unat sz + unat al \<le> 4294967296"
    and fit: "first_fit (unat (heap_start h)) (unat sz) (unat al) bs = Some i"
    and N: "N = block_addr (unat (heap_start h)) bs i" and g: "g = align_gap (unat al) (N + 24)"
    and "0 < g" "g < 96" "b_size (bs ! i) \<le> unat sz + 96"
  shows "\<exists>h'. kmalloc h sz al d = ret (h', ad (N + 24 + g)) \<and>
    e_start (get_entry (hmem h') (ad N)) = ad (N + 24 + g) \<and>
    e_start (get_entry (hmem h') (ad N)) + e_size (get_entry (hmem h') (ad N)) = ad (N + 24 + b_size (bs ! i) + g) \<and>
    ad (N + 24 + g) - 24 \<noteq> ad N"
proof -
  define n tot where "n = unat (heap_start h)" and "tot = b_size (bs ! i)"
  from first_fit_Some [OF fit] have i: "i < length bs" "b_free (bs ! i)" "unat sz + g \<le> tot"
    by (simp_all add: g N tot_def)
  have bs: "bs = take i bs @ Block True tot # drop (Suc i) bs"
    using id_take_nth_drop [OF i(1)] i(2) by (cases "bs ! i") (simp add: tot_def)
  have s: "seg (hmem h) 0 n (take i bs @ Block True tot # drop (Suc i) bs) 0"
    using assms(1) bs by (simp add: heap_inv_def n_def)
  have f: "free_block (hmem h) (last_hdr 0 n (take i bs)) N tot (if drop (Suc i) bs = [] then 0 else ad (N + 24 + tot))"
    by (rule seg_free_block [OF s]) (simp add: N block_addr_def n_def)
  then have b: "N + 24 + tot < 4294967296" "0 < N" by (auto simp: free_block_def entry_ok_def)
  have e: "e_size (get_entry (hmem h) (ad N)) = ad tot" "e_start (get_entry (hmem h) (ad N)) = ad (N + 24)"
    using f by (simp_all add: free_block_def entry_ok_def)
  have "unat (ad tot - sz) = tot - unat sz" using b i(3) by (simp add: unat_sub_nowrap)
  then have c: "\<not> 96 \<le> ad g" "\<not> 96 < ad tot - sz"
    using assms(8-10) b i(3) by (simp_all add: word_less_nat_alt word_le_nat_alt tot_def)
  define r where "r = alloc_entry (hmem h) (ad N) (ad g) sz d"
  have r: "snd r = ad (N + 24 + g)" "get_entry (fst r) (ad N) =
      (get_entry (hmem h) (ad N))\<lparr>available := 0, description := d, e_start := ad (N + 24 + g), e_size := ad tot\<rparr>"
    using c by (simp_all add: r_def alloc_entry_def Let_def e ad_plus)
  have "kmalloc h sz al d = ret (h\<lparr>hmem := fst r, heap_mtx := mutex_unlock (heap_mtx h\<lparr>locked := 1\<rparr>)\<rparr>, snd r)"
    using kmalloc_loop_first_fit [OF assms(3,4), of "hmem h" 0 n bs d] assms(1,2) fit
    by (simp add: heap_inv_def n_def N [symmetric] g [symmetric] r_def kmalloc_def mutex_lock_free case_prod_beta)
  moreover have "ad (N + 24 + g) - 24 \<noteq> ad N"
    using b i(3) assms(8) by (simp add: ad_minus_24 ad_eq_iff)
  ultimately show ?thesis using r by (simp add: ad_plus tot_def ac_simps)
qed

theorem kmalloc_small_gap_overrun_witness:
  "\<exists>h'. kmalloc (setup_heap zero_heap 4096 1024) 950 16 0 = ret (h', ad 4128) \<and>
     e_start (get_entry (hmem h') 4096) + e_size (get_entry (hmem h') 4096) = ad 5128"
proof -
  have "first_fit (unat (heap_start (setup_heap zero_heap 4096 1024))) (unat (950 :: u32)) (unat (16 :: u32)) [Block True 1000] = Some 0"
    by (simp add: align_gap_def)
  from kmalloc_small_gap_overrun [OF demo_heap(1) _ _ _ this refl refl, of 0]
  show ?thesis by (auto simp: block_addr_def align_gap_def ad_numeral)
qed

end
