(* ===== verification/Allocator.thy ===== *)
theory Allocator
  imports Heap_Props
begin

text \<open>
  The interface the kernel uses its heap through: \<open>alloc\<close> hands out bytes no one else has, keeps the bytes
  it handed out before, and tolerates every write to bytes it has handed out. The locale's lemmas are what a
  client needs who allocates a structure and fills it in; \<open>kmalloc\<close> with alignment 1 is an instance.
\<close>

section \<open>Writes to the bytes handed out\<close>

lemma hdr_not_used: "k \<in> set (hdrs n bs) \<Longrightarrow> k \<le> v \<Longrightarrow> v < k + 24 \<Longrightarrow> v \<notin> used_bytes n bs"
proof (induction bs arbitrary: n)
  case (Cons b bs)
  show ?case
  proof (cases "k = n")
    case True
    then have "v \<notin> used_bytes (n + 24 + b_size b) bs"
      using Cons.prems used_bytes_bounds [of v "n + 24 + b_size b" bs] by fastforce
    with True Cons.prems show ?thesis by auto
  next
    case False
    with Cons.prems have "k \<in> set (hdrs (n + 24 + b_size b) bs)" by simp
    with Cons.IH [of "n + 24 + b_size b"] Cons.prems hdrs_bounds [of k "n + 24 + b_size b" bs]
    show ?thesis by auto
  qed
qed simp

lemma seg_write:
  assumes "seg m p n bs nx" "\<And>x. unat x \<notin> used_bytes n bs \<Longrightarrow> m' x = m x"
  shows "seg m' p n bs nx"
proof (cases "bs = []")
  case False
  note b = seg_bound [OF assms(1) False]
  have "get_entry m' (ad k) = get_entry m (ad k)" if k: "k \<in> set (hdrs n bs)" for k
  proof (rule get_entry_cong)
    fix x assume "in_range x (ad k) 24"
    then have "k \<le> unat x" "unat x < k + 24"
      using b hdrs_bounds [OF k] by (simp_all add: in_range_ad)
    then show "m' x = m x" using assms(2) hdr_not_used [OF k] by blast
  qed
  with assms(1) show ?thesis using seg_frame by metis
qed simp

lemma heap_inv_write:
  assumes "heap_inv h bs" "\<And>x. unat x \<notin> used_bytes (unat (heap_start h)) bs \<Longrightarrow> m x = hmem h x"
  shows "heap_inv (h\<lparr>hmem := m\<rparr>) bs"
  using assms seg_write [of "hmem h" 0 "unat (heap_start h)" bs 0 m] by (simp add: heap_inv_def)

section \<open>The interface\<close>

locale allocator =
  fixes alloc :: "'s \<Rightarrow> u32 \<Rightarrow> ('s \<times> addr) exec"
    and wf :: "'s \<Rightarrow> 'b \<Rightarrow> bool"
    and used :: "'s \<Rightarrow> 'b \<Rightarrow> nat set"
    and mem_of :: "'s \<Rightarrow> mem"
    and with_mem :: "mem \<Rightarrow> 's \<Rightarrow> 's"
  assumes alloc_ok: "wf s b \<Longrightarrow> \<exists>s' p b'. alloc s n = ret (s', p) \<and> wf s' b' \<and>
      (\<forall>x. unat x \<in> used s b \<longrightarrow> mem_of s' x = mem_of s x) \<and> used s b \<subseteq> used s' b' \<and>
      (p \<noteq> 0 \<longrightarrow> {unat p..<unat p + unat n} \<subseteq> used s' b' \<and> {unat p..<unat p + unat n} \<inter> used s b = {})"
    and write_ok: "wf s b \<Longrightarrow> (\<And>x. unat x \<notin> used s b \<Longrightarrow> m x = mem_of s x) \<Longrightarrow>
      wf (with_mem m s) b \<and> used (with_mem m s) b = used s b"
    and mem_of_with_mem [simp]: "mem_of (with_mem m s) = m"
begin

text \<open>
  Allocate, then write to the new structure and to structures allocated before: the allocator stays
  well formed, and the new structure is none of the old ones.
\<close>

lemma alloc_fill:
  assumes "wf s b" "alloc s n = ret (s', p)" "p \<noteq> 0"
    and fill: "\<And>x. unat x \<notin> {unat p..<unat p + unat n} \<union> used s b \<Longrightarrow> m x = mem_of s' x"
  obtains b' where "wf (with_mem m s') b'"
    "{unat p..<unat p + unat n} \<subseteq> used (with_mem m s') b'" "used s b \<subseteq> used (with_mem m s') b'"
    "{unat p..<unat p + unat n} \<inter> used s b = {}"
proof -
  from alloc_ok [OF assms(1), of n] assms(2,3) obtain b' where b':
    "wf s' b'" "used s b \<subseteq> used s' b'"
    "{unat p..<unat p + unat n} \<subseteq> used s' b'" "{unat p..<unat p + unat n} \<inter> used s b = {}"
    by auto
  have "wf (with_mem m s') b' \<and> used (with_mem m s') b' = used s' b'"
    using b'(2,3) fill by (intro write_ok [OF b'(1)]) blast
  then show thesis using that [of b'] b'(2,3,4) by simp
qed

lemma alloc_keeps: "wf s b \<Longrightarrow> alloc s n = ret (s', p) \<Longrightarrow> unat x \<in> used s b \<Longrightarrow> mem_of s' x = mem_of s x"
  using alloc_ok [of s b n] by auto

lemma alloc_disjoint:
  assumes "wf s b" "{unat p..<unat p + unat n} \<subseteq> used s b" "alloc s k = ret (s', q)" "q \<noteq> 0"
  shows "{unat p..<unat p + unat n} \<inter> {unat q..<unat q + unat k} = {}"
proof -
  from alloc_ok [OF assms(1), of k] assms(3,4) have "{unat q..<unat q + unat k} \<inter> used s b = {}" by auto
  with assms(2) show ?thesis by blast
qed

end

section \<open>The kernel heap provides it\<close>

definition kheap_wf :: "heap_state \<Rightarrow> block list \<Rightarrow> bool" where
  "kheap_wf h bs \<longleftrightarrow> heap_inv h bs \<and> \<not> held (heap_mtx h)"

definition kheap_used :: "heap_state \<Rightarrow> block list \<Rightarrow> nat set" where
  "kheap_used h bs = used_bytes (unat (heap_start h)) bs"

lemma kmalloc_1:
  assumes "kheap_wf h bs"
  shows "\<exists>h' p bs'. kmalloc h sz 1 d = ret (h', p) \<and> kheap_wf h' bs' \<and> heap_start h' = heap_start h \<and>
    (\<forall>x. unat x \<in> kheap_used h bs \<longrightarrow> hmem h' x = hmem h x) \<and> kheap_used h bs \<subseteq> kheap_used h' bs' \<and>
    (p \<noteq> 0 \<longrightarrow> {unat p..<unat p + unat sz} \<subseteq> kheap_used h' bs' \<and> {unat p..<unat p + unat sz} \<inter> kheap_used h bs = {})"
proof -
  have sz: "unat sz + unat (1 :: u32) \<le> 4294967296" by (simp add: unat_u32_succ)
  show ?thesis
  proof (cases "first_fit (unat (heap_start h)) (unat sz) (unat (1 :: u32)) bs")
    case None
    from kmalloc_none [OF _ _ sz _ None, of d] assms show ?thesis
      by (fastforce simp: kheap_wf_def kheap_used_def heap_inv_def)
  next
    case (Some i)
    let ?n = "unat (heap_start h)"
    from first_fit_Some [OF Some] have i: "i < length bs" "b_free (bs ! i)" "0 + unat sz \<le> b_size (bs ! i)" by simp_all
    have c: "clean 0 (unat sz) (b_size (bs ! i))" by (simp add: clean_def)
    from kmalloc_step [OF _ _ sz _ Some refl, of d] assms obtain h' where h':
      "kmalloc h sz 1 d = ret (h', ad (block_addr ?n bs i + 24))"
      "heap_inv h' (alloc_blocks ?n bs i 1 (unat sz))" "heap_start h' = heap_start h" "\<not> held (heap_mtx h')"
      "\<And>x. unat x \<in> used_bytes ?n bs \<Longrightarrow> hmem h' x = hmem h x"
      by (auto simp: kheap_wf_def clean_def)
    have "block_addr ?n bs i + 24 + unat sz \<le> ?n + span bs"
      using span_take_nth [OF i(1)] i(3) by (simp add: block_addr_def)
    moreover have "?n + span bs < 4294967296" using assms heap_inv_bounds by (simp add: kheap_wf_def)
    ultimately have "block_addr ?n bs i + 24 < 4294967296" by linarith
    then have "unat (ad (block_addr ?n bs i + 24)) = block_addr ?n bs i + 24 + 0" by simp
    with h' used_bytes_alloc_blocks [OF i(1,2) _ c i(3), of 1 ?n] used_bytes_carve(1) [OF c i(3), of "block_addr ?n bs i"]
    show ?thesis
      by (intro exI [of _ h'] exI [of _ "ad (block_addr ?n bs i + 24)"] exI [of _ "alloc_blocks ?n bs i 1 (unat sz)"])
        (fastforce simp: kheap_wf_def kheap_used_def)
  qed
qed

interpretation kheap: allocator "\<lambda>h sz. kmalloc h sz 1 d" kheap_wf kheap_used hmem "\<lambda>m h. h\<lparr>hmem := m\<rparr>" for d
proof
  fix h bs sz
  assume "kheap_wf h bs"
  from kmalloc_1 [OF this, of sz d] show "\<exists>h' p bs'. kmalloc h sz 1 d = ret (h', p) \<and> kheap_wf h' bs' \<and>
      (\<forall>x. unat x \<in> kheap_used h bs \<longrightarrow> hmem h' x = hmem h x) \<and> kheap_used h bs \<subseteq> kheap_used h' bs' \<and>
      (p \<noteq> 0 \<longrightarrow> {unat p..<unat p + unat sz} \<subseteq> kheap_used h' bs' \<and> {unat p..<unat p + unat sz} \<inter> kheap_used h bs = {})"
    by blast
next
  fix h bs m
  assume "kheap_wf h bs" "\<And>x. unat x \<notin> kheap_used h bs \<Longrightarrow> m x = hmem h x"
  then show "kheap_wf (h\<lparr>hmem := m\<rparr>) bs \<and> kheap_used (h\<lparr>hmem := m\<rparr>) bs = kheap_used h bs"
    using heap_inv_write [of h bs m] by (simp add: kheap_wf_def kheap_used_def)
qed simp

end
