(* ===== verification/Kprintf.thy ===== *)
theory Kprintf
  imports CString Sync
begin

text \<open>
  Formatted output of the kernel, \<open>kernel/kprintf.c\<close>. Every character goes through \<open>kputc\<close> or \<open>kputs\<close> to the
  serial port and the console; the state keeps the characters sent, in order, the memory the routine
  formats in, and the arguments not yet taken. \<open>fmt_buf\<close> and \<open>flag_buf\<close> are the addresses of the two buffers on the
  stack (\<open>char fmt_buf[128]\<close> of \<open>do_kprintf\<close>, \<open>char buf[8]\<close> of \<open>get_flags\<close>). Characters are their ASCII codes:
  37 is the percent sign, 48 to 57 are the digits, 83 S, 99 c, 100 d, 108 l, 112 p, 115 s, 117 u, 120 x.
\<close>

section \<open>The code\<close>

definition FMT_LONG :: s32 where "FMT_LONG = BIT 0"
definition PTR_PADDING :: s32 where "PTR_PADDING = 8"

record kstate =
  kmem :: mem
  kout :: "u8 list"
  kargs :: "u32 list"

definition bytes_at :: "mem \<Rightarrow> addr \<Rightarrow> nat \<Rightarrow> u8 list" where
  "bytes_at m p n = map (\<lambda>k. m (p + of_nat k)) [0..<n]"

definition kputc :: "u8 \<Rightarrow> kstate \<Rightarrow> kstate" where
  "kputc c s = s\<lparr>kout := kout s @ [c]\<rparr>"

definition kputs :: "addr \<Rightarrow> kstate \<Rightarrow> kstate exec" where
  "kputs p s = bindX (strlen (kmem s) p) (\<lambda>n. ret (s\<lparr>kout := kout s @ bytes_at (kmem s) p (unat n)\<rparr>))"

definition va_arg :: "kstate \<Rightarrow> (u32 \<times> kstate) exec" where
  "va_arg s = (case kargs s of [] \<Rightarrow> fail Out_Of_Bounds | a # rest \<Rightarrow> ret (a, s\<lparr>kargs := rest\<rparr>))"

text \<open>\<open>while (fmt_str[i] >= '0' && fmt_str[i] <= '9') *buf_ptr++ = fmt_str[i++];\<close>\<close>

partial_function (option) digits_loop :: "mem \<Rightarrow> addr \<Rightarrow> s32 \<Rightarrow> addr \<Rightarrow> (mem \<times> s32 \<times> addr) exec" where
  "digits_loop m fmt i buf_ptr =
     (if 48 \<le>s m (fmt + i) \<and> m (fmt + i) \<le>s 57
      then digits_loop (m(buf_ptr := m (fmt + i))) fmt (i + 1) (buf_ptr + 1)
      else ret (m, i, buf_ptr))"

partial_function (option) get_flags :: "addr \<Rightarrow> mem \<Rightarrow> s32 \<Rightarrow> s32 \<Rightarrow> s32 \<Rightarrow> addr \<Rightarrow> (mem \<times> s32 \<times> s32 \<times> s32) exec" where
  "get_flags flag_buf m i fmt_flags padding fmt =
     (let i = i + 1
      in if m (fmt + i) = 48
         then bindX (digits_loop m fmt i flag_buf) (\<lambda>r.
              let m = (fst r)(snd (snd r) := 0); i = fst (snd r) - 1
              in bindX (atoi m flag_buf) (\<lambda>padding. get_flags flag_buf m i fmt_flags padding fmt))
         else if m (fmt + i) = 108 then get_flags flag_buf m i (fmt_flags OR FMT_LONG) padding fmt
         else ret (m, i, fmt_flags, padding))"

definition scale :: "u32 \<Rightarrow> u32 \<times> u8" where
  "scale sz =
     (if sz < 1024 * 10 then (sz, 66)
      else if sz < 1024 * 1024 * 10 then (sz div 1024, 75)
      else if sz < - 1 then (sz div (1024 * 1024), 77)
      else (sz div (1024 * 1024 * 1024), 71))"

text \<open>
  The \<open>switch\<close> of \<open>do_kprintf\<close>. An \<open>int\<close> and a \<open>long\<close> argument are the same 32 bits, so \<open>FMT_LONG\<close> makes
  no difference.
\<close>

definition conversion :: "addr \<Rightarrow> u8 \<Rightarrow> s32 \<Rightarrow> s32 \<Rightarrow> kstate \<Rightarrow> kstate exec" where
  "conversion fmt_buf fmt_char fmt_flags padding s =
     (if fmt_char = 37 then ret (kputc 37 s)
      else if fmt_char = 100 then
        bindX (va_arg s) (\<lambda>(fmt_long, s).
        bindX (itoa (kmem s) fmt_long fmt_buf padding) (\<lambda>(m, buf). kputs buf (s\<lparr>kmem := m\<rparr>)))
      else if fmt_char = 117 then
        bindX (va_arg s) (\<lambda>(fmt_long, s).
        bindX (utoa (kmem s) fmt_long fmt_buf padding) (\<lambda>(m, buf). kputs buf (s\<lparr>kmem := m\<rparr>)))
      else if fmt_char = 115 then
        bindX (va_arg s) (\<lambda>(ptr, s). if ptr \<noteq> 0 then kputs ptr s else ret s)
      else if fmt_char = 99 then bindX (va_arg s) (\<lambda>(c, s). ret (kputc (ucast c) s))
      else if fmt_char = 112 \<or> fmt_char = 120 then
        let s = (if fmt_char = 112 then kputc 120 (kputc 48 s) else s);
            padding = (if fmt_char = 112 then PTR_PADDING else padding)
        in bindX (va_arg s) (\<lambda>(fmt_long, s).
           case xtoa (kmem s) fmt_long fmt_buf padding of (m, buf) \<Rightarrow> kputs buf (s\<lparr>kmem := m\<rparr>))
      else if fmt_char = 83 then
        bindX (va_arg s) (\<lambda>(fmt_long, s).
        case scale fmt_long of (fmt_long, scale_c) \<Rightarrow>
        bindX (utoa (kmem s) fmt_long fmt_buf padding) (\<lambda>(m, buf).
        bindX (kputs buf (s\<lparr>kmem := m\<rparr>)) (\<lambda>s. ret (kputc scale_c s))))
      else ret s)"

partial_function (option) kprintf_loop :: "addr \<Rightarrow> addr \<Rightarrow> addr \<Rightarrow> u32 \<Rightarrow> s32 \<Rightarrow> kstate \<Rightarrow> kstate exec" where
  "kprintf_loop fmt_buf flag_buf fmt fmt_len i s =
     (if i < fmt_len
      then if kmem s (fmt + i) = 37
           then bindX (get_flags flag_buf (kmem s) i 0 1 fmt) (\<lambda>r.
                let m = fst r; i = fst (snd r); fmt_flags = fst (snd (snd r)); padding = snd (snd (snd r))
                in bindX (conversion fmt_buf (m (fmt + i)) fmt_flags padding (s\<lparr>kmem := m\<rparr>)) (\<lambda>s.
                   kprintf_loop fmt_buf flag_buf fmt fmt_len (i + 1) s))
           else kprintf_loop fmt_buf flag_buf fmt fmt_len (i + 1) (kputc (kmem s (fmt + i)) s)
      else ret s)"

definition do_kprintf :: "addr \<Rightarrow> addr \<Rightarrow> addr \<Rightarrow> kstate \<Rightarrow> kstate exec" where
  "do_kprintf fmt_buf flag_buf fmt s =
     bindX (strlen (kmem s) fmt) (\<lambda>fmt_len. kprintf_loop fmt_buf flag_buf fmt fmt_len 0 s)"

definition kprintf :: "addr \<Rightarrow> addr \<Rightarrow> addr \<Rightarrow> kstate \<times> mutex_struct \<Rightarrow> (kstate \<times> mutex_struct) exec" where
  "kprintf fmt_buf flag_buf fmt = (\<lambda>(s, kprintf_mtx).
     bindX (mutex_lock kprintf_mtx) (\<lambda>kprintf_mtx.
     bindX (do_kprintf fmt_buf flag_buf fmt s) (\<lambda>s.
     ret (s, mutex_unlock kprintf_mtx))))"

text \<open>
  \<open>panic\<close>: \<open>banner\<close> is the address of the literal it prints first, a call without arguments; the processor then
  halts, so the characters sent are what is left of it.
\<close>

definition panic :: "addr \<Rightarrow> addr \<Rightarrow> addr \<Rightarrow> addr \<Rightarrow> kstate \<times> mutex_struct \<Rightarrow> (kstate \<times> mutex_struct) exec" where
  "panic banner fmt_buf flag_buf fmt = (\<lambda>(s, kprintf_mtx).
     bindX (kprintf fmt_buf flag_buf banner (s\<lparr>kargs := []\<rparr>, kprintf_mtx)) (\<lambda>(s', kprintf_mtx).
     bindX (do_kprintf fmt_buf flag_buf fmt (s'\<lparr>kargs := kargs s\<rparr>)) (\<lambda>s. ret (s, kprintf_mtx))))"

section \<open>The text of a format\<close>

definition isdig :: "u8 \<Rightarrow> bool" where "isdig c \<longleftrightarrow> 48 \<le> c \<and> c \<le> 57"

definition dec_value :: "u8 list \<Rightarrow> s32" where
  "dec_value ds = foldr (\<lambda>c acc. (scast c - 48) + 10 * acc) (rev ds) 0"

text \<open>
  The flags in front of a conversion: the field width (introduced by a zero, at most 7 digits fit into the
  buffer) and what follows them.
\<close>

function flags_of :: "u8 list \<Rightarrow> s32 \<Rightarrow> s32 \<Rightarrow> (s32 \<times> s32 \<times> u8 list) option" where
  "flags_of cs fl p =
     (case cs of [] \<Rightarrow> Some (fl, p, [])
      | c # cs' \<Rightarrow>
          if c = 48 then if length (takeWhile isdig cs) \<le> 7
            then flags_of (dropWhile isdig cs') fl (dec_value (takeWhile isdig cs)) else None
          else if c = 108 then flags_of cs' (fl OR FMT_LONG) p
          else Some (fl, p, cs))"
  by pat_completeness auto
termination
  by (relation "measure (\<lambda>(cs, fl, p). length cs)") (auto simp: le_imp_less_Suc length_dropWhile_le)

declare flags_of.simps [simp del]

text \<open>
  The text of one conversion and the arguments left; \<open>S\<close> gives the strings in memory. There is none when an
  argument is missing, a string is unknown or a field is wider than the buffer.
\<close>

definition conv_text :: "(addr \<Rightarrow> u8 list option) \<Rightarrow> u8 \<Rightarrow> s32 \<Rightarrow> u32 list \<Rightarrow> (u8 list \<times> u32 list) option" where
  "conv_text S d p args =
     (if d = 37 then Some ([37], args)
      else if d \<notin> {83, 99, 100, 112, 115, 117, 120} then Some ([], args)
      else case args of [] \<Rightarrow> None
        | a # rest \<Rightarrow>
            if d = 115 then (if a = 0 then Some ([], rest) else map_option (\<lambda>t. (t, rest)) (S a))
            else if d = 99 then Some ([ucast a], rest)
            else if d = 112 then Some (48 # 120 # xtoa_out 8 a 8 True, rest)
            else if d = 120 then Some (xtoa_out 8 a (field p) True, rest)
            else if 127 < field p then None
            else if d = 100 then Some (decimal (unat (if a <s 0 then - a else a)) (field p), rest)
            else if d = 117 then Some (decimal (unat a) (field p), rest)
            else Some (decimal (unat (fst (scale a))) (field p) @ [snd (scale a)], rest))"

lemma flags_of_length: "flags_of cs fl p = Some (fl', p', rest) \<Longrightarrow> length rest \<le> length cs"
proof (induction cs fl p rule: flags_of.induct)
  case (1 cs fl p)
  show ?case
  proof (cases cs)
    case Nil
    with 1(3) show ?thesis by (subst (asm) flags_of.simps) simp
  next
    case (Cons c cs')
    have d: "length (dropWhile isdig cs') \<le> length cs'" by (rule length_dropWhile_le)
    show ?thesis using 1(3) 1(1) [OF Cons] 1(2) [OF Cons] d
      by (subst (asm) flags_of.simps) (fastforce simp: Cons split: if_splits)
  qed
qed

function text_of :: "(addr \<Rightarrow> u8 list option) \<Rightarrow> u8 list \<Rightarrow> u32 list \<Rightarrow> u8 list option" where
  "text_of S [] args = Some []"
| "text_of S (c # cs) args =
     (if c \<noteq> 37 then map_option ((#) c) (text_of S cs args)
      else case flags_of cs 0 1 of None \<Rightarrow> None
        | Some (fl, p, []) \<Rightarrow> Some []
        | Some (fl, p, d # ds) \<Rightarrow>
            (case conv_text S d p args of None \<Rightarrow> None
             | Some (t, args') \<Rightarrow> map_option ((@) t) (text_of S ds args')))"
  by pat_completeness auto
termination
  by (relation "measure (\<lambda>(S, cs, args). length cs)") (auto dest!: flags_of_length)

declare text_of.simps(2) [simp del]

section \<open>Reading the format\<close>

lemma sint_u8: "sint (c :: u8) = (if uint c < 128 then uint c else uint c - 256)"
proof -
  have c: "uint c < 256" using uint_lt2p [of c] by simp
  have "uint c div 128 = 0 \<or> uint c div 128 = 1" using c uint_ge_0 [of c] by linarith
  moreover have "uint c div 128 = 0 \<longleftrightarrow> uint c < 128" using uint_ge_0 [of c] by linarith
  ultimately have b: "bit (uint c) 7 \<longleftrightarrow> \<not> uint c < 128" by (auto simp: bit_iff_odd)
  have "sint c = signed_take_bit 7 (uint c)" by (simp add: sint_uint)
  also have "\<dots> = take_bit 8 (uint c) - 256 * of_bool (bit (uint c) 7)"
    by (simp add: signed_take_bit_eq_take_bit_minus)
  also have "take_bit 8 (uint c) = uint c" by (rule take_bit_int_eq_self) (use c in simp_all)
  finally show ?thesis unfolding b by simp
qed

lemma digit_test: "(48 \<le>s c \<and> c \<le>s 57) = isdig c"
  using uint_lt2p [of c] uint_ge_0 [of c] by (auto simp: word_sle_eq sint_u8 isdig_def word_le_def split: if_splits)

lemma cstr_char: "cstr m p f \<Longrightarrow> k \<le> length f \<Longrightarrow> m (p + of_nat k) = (f @ [0]) ! k"
  by (auto simp: cstr_index nth_append)

lemma cstr_upd:
  assumes "cstr m p f" "\<not> in_range x p (Suc (length f))" "length f < 4294967295"
  shows "cstr (m(x := v)) p f"
  using assms by (subst cstr_cong [where m' = m]) (auto simp: fun_upd_apply)

lemma takeWhile_drop:
  "k < length f \<Longrightarrow> takeWhile P (drop k f) = (if P (f ! k) then f ! k # takeWhile P (drop (Suc k) f) else [])"
  by (subst Cons_nth_drop_Suc [symmetric]) simp_all

lemma digits_loop_spec:
  assumes "cstr m fmt f" "k \<le> length f" "length f < 2147483647"
    and "\<And>j. j < length (takeWhile isdig (drop k f)) \<Longrightarrow> \<not> in_range (bp + of_nat j) fmt (Suc (length f))"
  shows "digits_loop m fmt (of_nat k) bp =
    ret (put_bytes m bp (takeWhile isdig (drop k f)), of_nat (k + length (takeWhile isdig (drop k f))),
      bp + of_nat (length (takeWhile isdig (drop k f))))"
  using assms
proof (induction "length f - k" arbitrary: k m bp)
  case 0
  then have k: "k = length f" by simp
  then have "m (fmt + of_nat k) = 0" using cstr_char [OF 0(2), of k] by simp
  then show ?case using k by (simp add: digits_loop.simps [of m] digit_test) (simp add: isdig_def)
next
  case (Suc n)
  then have k: "k < length f" by simp
  then have c: "m (fmt + of_nat k) = f ! k" using cstr_char [OF Suc(3), of k] by (simp add: nth_append)
  note tw = takeWhile_drop [OF k, of isdig]
  show ?case
  proof (cases "isdig (f ! k)")
    case False
    then show ?thesis using c by (simp add: digits_loop.simps [of m] digit_test tw)
  next
    case True
    have bp: "\<not> in_range bp fmt (Suc (length f))" using Suc.prems(4) [of 0] True by (simp add: tw)
    have o: "\<not> in_range (bp + 1 + of_nat j) fmt (Suc (length f))" if "j < length (takeWhile isdig (drop (Suc k) f))" for j
      using Suc.prems(4) [of "Suc j"] True that by (simp add: tw algebra_simps)
    have "digits_loop (m(bp := f ! k)) fmt (of_nat (Suc k)) (bp + 1) =
        ret (put_bytes (m(bp := f ! k)) (bp + 1) (takeWhile isdig (drop (Suc k) f)),
          of_nat (Suc k + length (takeWhile isdig (drop (Suc k) f))),
          bp + 1 + of_nat (length (takeWhile isdig (drop (Suc k) f))))"
      using Suc.hyps(2) k Suc.prems(3) o by (intro Suc.hyps(1) cstr_upd Suc.prems(1) bp) simp_all
    moreover have "digits_loop m fmt (of_nat k) bp = digits_loop (m(bp := f ! k)) fmt (of_nat (Suc k)) (bp + 1)"
      using True c by (subst digits_loop.simps) (simp add: digit_test add.commute)
    ultimately show ?thesis using True by (simp add: tw algebra_simps)
  qed
qed

text \<open>Memory outside the two buffers.\<close>

definition outside :: "addr \<Rightarrow> addr \<Rightarrow> addr \<Rightarrow> nat \<Rightarrow> bool" where
  "outside fb gb p n \<longleftrightarrow> (\<forall>x. in_range x p n \<longrightarrow> \<not> in_range x fb 128 \<and> \<not> in_range x gb 8)"

definition same_outside :: "addr \<Rightarrow> addr \<Rightarrow> mem \<Rightarrow> mem \<Rightarrow> bool" where
  "same_outside fb gb m m' \<longleftrightarrow> (\<forall>x. \<not> in_range x fb 128 \<longrightarrow> \<not> in_range x gb 8 \<longrightarrow> m' x = m x)"

lemma same_outside_refl [simp]: "same_outside fb gb m m"
  by (simp add: same_outside_def)

lemma same_outside_trans: "same_outside fb gb m m' \<Longrightarrow> same_outside fb gb m' m'' \<Longrightarrow> same_outside fb gb m m''"
  by (simp add: same_outside_def)

lemma cstr_same:
  "same_outside fb gb m m' \<Longrightarrow> outside fb gb p (Suc (length s)) \<Longrightarrow> length s < 4294967296 \<Longrightarrow> cstr m p s \<Longrightarrow> cstr m' p s"
  by (subst cstr_cong [where m' = m]) (auto simp: same_outside_def outside_def)

lemma index_pred: "of_nat (Suc k) - 1 = (of_nat k :: u32)"
  by simp

lemma get_flags_spec:
  assumes "flags_of (drop k f) fl p = Some (fl', p', rest)"
    and "cstr m fmt f" "k \<le> length f" "length f < 2147483647" "outside fb gb fmt (Suc (length f))"
  shows "\<exists>m' k'. get_flags gb m (of_nat k - 1) fl p fmt = ret (m', of_nat k', fl', p') \<and>
    same_outside fb gb m m' \<and> k \<le> k' \<and> k' \<le> length f \<and> rest = drop k' f"
  using assms
proof (induction "length f - k" arbitrary: k m fl p rule: less_induct)
  case less
  have c: "m (fmt + (of_nat k - 1 + 1)) = (f @ [0]) ! k" using cstr_char [OF less.prems(2,3)] by simp
  show ?case
  proof (cases "k = length f")
    case True
    with less.prems(1) have "rest = []" "fl' = fl" "p' = p" by (auto simp: flags_of.simps [of "[]"])
    with c True show ?thesis by (subst get_flags.simps) (auto intro!: exI [of _ k])
  next
    case False
    then have k: "k < length f" using less.prems(3) by simp
    have ch: "m (fmt + of_nat k) = f ! k" using c k by (simp add: nth_append)
    have dk: "drop k f = f ! k # drop (Suc k) f" using k by (simp add: Cons_nth_drop_Suc)
    consider "f ! k = 48" | "f ! k = 108" | "f ! k \<noteq> 48" "f ! k \<noteq> 108" by blast
    then show ?thesis
    proof cases
      case 1
      define ds where "ds = takeWhile isdig (drop k f)"
      have dig: "isdig 48" by (simp add: isdig_def)
      have ds: "length ds \<le> 7" "0 < length ds" "k + length ds \<le> length f"
        and dd: "drop (k + length ds) f = dropWhile isdig (drop (Suc k) f)"
        and fo: "flags_of (drop (k + length ds) f) fl (dec_value ds) = Some (fl', p', rest)"
      proof -
        show l: "length ds \<le> 7" using less.prems(1) 1 unfolding ds_def
          by (subst (asm) flags_of.simps) (auto simp: dk split: if_splits)
        show "0 < length ds" using 1 dig by (simp add: ds_def dk)
        have "length ds \<le> length (drop k f)" unfolding ds_def by (rule length_takeWhile_le)
        then show "k + length ds \<le> length f" using k by simp
        have "drop (k + length ds) f = drop (length ds) (drop k f)" by (simp add: add.commute)
        also have "\<dots> = dropWhile isdig (drop k f)" unfolding ds_def by (rule dropWhile_eq_drop [symmetric])
        also have "\<dots> = dropWhile isdig (drop (Suc k) f)" using 1 dig by (simp add: dk)
        finally show dd: "drop (k + length ds) f = dropWhile isdig (drop (Suc k) f)" .
        show "flags_of (drop (k + length ds) f) fl (dec_value ds) = Some (fl', p', rest)"
          using less.prems(1) 1 l unfolding dd unfolding ds_def by (subst (asm) flags_of.simps) (simp add: dk)
      qed
      have o: "\<not> in_range (gb + of_nat j) fmt (Suc (length f))" if "j < 8" for j
        using that less.prems(5) by (auto simp: outside_def in_range_def)
      define m1 where "m1 = put_bytes m gb (ds @ [0])"
      have dl: "digits_loop m fmt (of_nat k) gb = ret (put_bytes m gb ds, of_nat (k + length ds), gb + of_nat (length ds))"
        unfolding ds_def using less.prems k o ds(1) by (intro digits_loop_spec) (auto simp: ds_def)
      have z: "0 \<notin> set ds" unfolding ds_def by (auto dest!: set_takeWhileD simp: isdig_def)
      have "cstr m1 gb ds" unfolding m1_def using z ds by (intro cstr_put_bytes) simp_all
      then have at: "atoi m1 gb = ret (dec_value ds)" using ds by (simp add: atoi_cstr dec_value_def)
      have s1: "same_outside fb gb m m1" unfolding m1_def same_outside_def
        using ds by (auto intro!: put_bytes_other simp: in_range_def)
      have "cstr m1 fmt f" using cstr_same [OF s1 less.prems(5) _ less.prems(2)] less.prems(4) by simp
      moreover have "length f - (k + length ds) < length f - k" using ds k by linarith
      ultimately obtain m' k' where IH:
        "get_flags gb m1 (of_nat (k + length ds) - 1) fl (dec_value ds) fmt = ret (m', of_nat k', fl', p')"
        "same_outside fb gb m1 m'" "k + length ds \<le> k'" "k' \<le> length f" "rest = drop k' f"
        using less.hyps [OF _ fo _ ds(3) less.prems(4,5)] by blast
      have "get_flags gb m (of_nat k - 1) fl p fmt = get_flags gb m1 (of_nat (k + length ds) - 1) fl (dec_value ds) fmt"
        using ch 1 dl at by (subst get_flags.simps) (simp add: m1_def put_bytes_append Let_def)
      then show ?thesis using IH same_outside_trans [OF s1] by (intro exI [of _ m'] exI [of _ k']) auto
    next
      case 2
      have fo: "flags_of (drop (Suc k) f) (fl OR FMT_LONG) p = Some (fl', p', rest)"
        using less.prems(1) 2 by (subst (asm) flags_of.simps) (simp add: dk)
      have "length f - Suc k < length f - k" "Suc k \<le> length f" using k by linarith+
      then obtain m' k' where IH:
        "get_flags gb m (of_nat (Suc k) - 1) (fl OR FMT_LONG) p fmt = ret (m', of_nat k', fl', p')"
        "same_outside fb gb m m'" "Suc k \<le> k'" "k' \<le> length f" "rest = drop k' f"
        using less.hyps [OF _ fo less.prems(2) _ less.prems(4,5)] by blast
      have "get_flags gb m (of_nat k - 1) fl p fmt = get_flags gb m (of_nat (Suc k) - 1) (fl OR FMT_LONG) p fmt"
        using ch 2 by (subst get_flags.simps) (simp add: Let_def)
      then show ?thesis using IH by (intro exI [of _ m'] exI [of _ k']) auto
    next
      case 3
      then have "fl' = fl" "p' = p" "rest = drop k f"
        using less.prems(1) by (subst (asm) flags_of.simps; simp add: dk)+
      then show ?thesis using ch 3 k by (subst get_flags.simps) (auto simp: Let_def intro!: exI [of _ k])
    qed
  qed
qed

section \<open>Conversions\<close>

lemma bytes_at_cstr: "cstr m p s \<Longrightarrow> bytes_at m p (length s) = s"
  by (auto simp: bytes_at_def cstr_index intro!: nth_equalityI)

lemma kputs_cstr:
  "cstr (kmem s) p t \<Longrightarrow> length t < 4294967296 \<Longrightarrow> kputs p s = ret (s\<lparr>kout := kout s @ t\<rparr>)"
  by (simp add: kputs_def strlen_def strlen_loop_cstr bytes_at_cstr)

lemma xtoa_cstr:
  "\<exists>m'. xtoa m x buf pad = (m', buf) \<and> cstr m' buf (xtoa_out 8 x (field pad) True) \<and>
     (\<forall>y. \<not> in_range y buf 9 \<longrightarrow> m' y = m y)"
proof -
  let ?p = "if pad <s 1 then 1 else pad" and ?s = "xtoa_out 8 x (field pad) True"
  have p: "int (field pad) = sint ?p" by (auto simp: field_def word_sless_alt)
  have l: "length ?s \<le> 8" by (rule xtoa_out_length)
  have "xtoa m x buf pad = (put_bytes m buf (?s @ [0]), buf)"
    using xtoa_loop_out [OF p, of 8 m x buf True] by (simp add: xtoa_def put_bytes_append Let_def)
  moreover have "cstr (put_bytes m buf (?s @ [0])) buf ?s"
    using l xtoa_out_nonzero by (intro cstr_put_bytes) auto
  moreover have "put_bytes m buf (?s @ [0]) y = m y" if "\<not> in_range y buf 9" for y
    using that l by (intro put_bytes_other) (auto simp: in_range_def)
  ultimately show ?thesis by blast
qed

text \<open>The number conversions leave their text in the buffer and change nothing else.\<close>

lemma utoa_fmt:
  assumes "field pad \<le> 127"
  shows "\<exists>m'. utoa m x fb pad = ret (m', fb) \<and> cstr m' fb (decimal (unat x) (field pad)) \<and>
    length (decimal (unat x) (field pad)) \<le> 127 \<and> same_outside fb gb m m'"
proof -
  have l: "length (rdigits (unat x)) \<le> 10" by (rule length_rdigits_u32)
  obtain m' where "utoa m x fb pad = ret (m', fb)" "cstr m' fb (decimal (unat x) (field pad))"
    "\<forall>y. \<not> in_range y fb (Suc (max (field pad) (length (rdigits (unat x))))) \<longrightarrow> m' y = m y"
    using utoa_cstr by blast
  then show ?thesis using assms l by (auto simp: length_decimal same_outside_def in_range_def)
qed

lemma itoa_fmt:
  assumes "field pad \<le> 127"
  shows "\<exists>m'. itoa m x fb pad = ret (m', fb) \<and>
    cstr m' fb (decimal (unat (if x <s 0 then - x else x)) (field pad)) \<and>
    length (decimal (unat (if x <s 0 then - x else x)) (field pad)) \<le> 127 \<and> same_outside fb gb m m'"
  using utoa_fmt [OF assms, of m "if x <s 0 then - x else x" fb gb] by (auto simp: itoa_def Let_def)

lemma xtoa_fmt:
  "\<exists>m'. xtoa m x fb pad = (m', fb) \<and> cstr m' fb (xtoa_out 8 x (field pad) True) \<and>
    length (xtoa_out 8 x (field pad) True) \<le> 8 \<and> same_outside fb gb m m'"
  using xtoa_cstr [of m x fb pad] xtoa_out_length(1) [of 8 x "field pad" True]
  by (auto simp: same_outside_def in_range_def)

text \<open>The strings \<open>S\<close> names are in memory, away from the buffers.\<close>

definition strings_ok :: "addr \<Rightarrow> addr \<Rightarrow> mem \<Rightarrow> (addr \<Rightarrow> u8 list option) \<Rightarrow> bool" where
  "strings_ok fb gb m S \<longleftrightarrow> (\<forall>a t. S a = Some t \<longrightarrow> cstr m a t \<and> length t < 4294967296 \<and> outside fb gb a (Suc (length t)))"

lemma strings_ok_same: "strings_ok fb gb m S \<Longrightarrow> same_outside fb gb m m' \<Longrightarrow> strings_ok fb gb m' S"
  unfolding strings_ok_def using cstr_same [of fb gb m m'] by blast

lemma conversion_spec:
  assumes "conv_text S d p args = Some (t, args')" "kargs s = args" "strings_ok fb gb (kmem s) S"
  shows "\<exists>m'. conversion fb d fl p s = ret (s\<lparr>kmem := m', kout := kout s @ t, kargs := args'\<rparr>) \<and>
    same_outside fb gb (kmem s) m'"
proof (cases "d \<in> {83, 99, 100, 112, 115, 117, 120}")
  case False
  then show ?thesis using assms
    by (intro exI [of _ "kmem s"]) (auto simp: conv_text_def conversion_def kputc_def split: if_splits)
next
  case True
  then obtain a rest where a: "args = a # rest" using assms(1) by (cases args) (auto simp: conv_text_def)
  have va: "va_arg s = ret (a, s\<lparr>kargs := rest\<rparr>)" using assms(2) a by (simp add: va_arg_def)
  from True consider "d = 83" | "d = 99" | "d = 100" | "d = 112" | "d = 115" | "d = 117" | "d = 120" by blast
  then show ?thesis
  proof cases
    case 1
    then have e: "args' = rest" "field p \<le> 127" "t = decimal (unat (fst (scale a))) (field p) @ [snd (scale a)]"
      using assms(1) a by (auto simp: conv_text_def split: if_splits)
    from utoa_fmt [OF e(2)] obtain m' where "utoa (kmem s) (fst (scale a)) fb p = ret (m', fb)"
      "cstr m' fb (decimal (unat (fst (scale a))) (field p))" "length (decimal (unat (fst (scale a))) (field p)) \<le> 127"
      "same_outside fb gb (kmem s) m'" by blast
    then show ?thesis using 1 va e by (intro exI [of _ m']) (simp add: conversion_def kputs_cstr kputc_def split_beta)
  next
    case 2
    then show ?thesis using assms a va by (intro exI [of _ "kmem s"]) (auto simp: conv_text_def conversion_def kputc_def)
  next
    case 3
    then have e: "args' = rest" "field p \<le> 127" "t = decimal (unat (if a <s 0 then - a else a)) (field p)"
      using assms(1) a by (auto simp: conv_text_def split: if_splits)
    from itoa_fmt [OF e(2)] obtain m' where "itoa (kmem s) a fb p = ret (m', fb)" "cstr m' fb t" "length t \<le> 127"
      "same_outside fb gb (kmem s) m'" unfolding e(3) by blast
    then show ?thesis using 3 va e(1) by (intro exI [of _ m']) (simp add: conversion_def kputs_cstr)
  next
    case 4
    then have e: "args' = rest" "t = 48 # 120 # xtoa_out 8 a 8 True"
      using assms(1) a by (auto simp: conv_text_def split: if_splits)
    have f: "field PTR_PADDING = 8" by (simp add: PTR_PADDING_def field_def)
    from xtoa_fmt [of "kmem s" a fb PTR_PADDING gb] obtain m' where "xtoa (kmem s) a fb PTR_PADDING = (m', fb)"
      "cstr m' fb (xtoa_out 8 a 8 True)" "length (xtoa_out 8 a 8 True) \<le> 8" "same_outside fb gb (kmem s) m'"
      unfolding f by blast
    then show ?thesis using 4 va e assms(2) a
      by (intro exI [of _ m']) (simp add: conversion_def kputs_cstr kputc_def va_arg_def)
  next
    case 5
    show ?thesis
    proof (cases "a = 0")
      case True
      then show ?thesis using 5 assms a va by (intro exI [of _ "kmem s"]) (auto simp: conv_text_def conversion_def)
    next
      case False
      then have "S a = Some t" "args' = rest" using assms(1) a 5 by (auto simp: conv_text_def)
      moreover from this have "cstr (kmem s) a t" "length t < 4294967296" using assms(3) by (auto simp: strings_ok_def)
      ultimately show ?thesis using 5 va False by (intro exI [of _ "kmem s"]) (simp add: conversion_def kputs_cstr)
    qed
  next
    case 6
    then have e: "args' = rest" "field p \<le> 127" "t = decimal (unat a) (field p)"
      using assms(1) a by (auto simp: conv_text_def split: if_splits)
    from utoa_fmt [OF e(2)] obtain m' where "utoa (kmem s) a fb p = ret (m', fb)" "cstr m' fb t" "length t \<le> 127"
      "same_outside fb gb (kmem s) m'" unfolding e(3) by blast
    then show ?thesis using 6 va e(1) by (intro exI [of _ m']) (simp add: conversion_def kputs_cstr)
  next
    case 7
    then have e: "args' = rest" "t = xtoa_out 8 a (field p) True"
      using assms(1) a by (auto simp: conv_text_def split: if_splits)
    from xtoa_fmt [of "kmem s" a fb p gb] obtain m' where "xtoa (kmem s) a fb p = (m', fb)" "cstr m' fb t" "length t \<le> 8"
      "same_outside fb gb (kmem s) m'" unfolding e(2) by blast
    then show ?thesis using 7 va e(1) by (intro exI [of _ m']) (simp add: conversion_def kputs_cstr)
  qed
qed

section \<open>Whole formats\<close>

lemma index_less:
  "k \<le> Suc n \<Longrightarrow> n < 2147483647 \<Longrightarrow> (of_nat k :: u32) < of_nat n \<longleftrightarrow> k < n"
  by (simp add: word_less_nat_alt)

lemma kprintf_loop_spec:
  assumes "text_of S (drop k f) (kargs s) = Some t" "cstr (kmem s) fmt f" "k \<le> length f" "length f < 2147483647"
    "outside fb gb fmt (Suc (length f))" "strings_ok fb gb (kmem s) S"
  shows "\<exists>m' args'. kprintf_loop fb gb fmt (of_nat (length f)) (of_nat k) s =
      ret (s\<lparr>kmem := m', kout := kout s @ t, kargs := args'\<rparr>) \<and> same_outside fb gb (kmem s) m'"
  using assms
proof (induction "length f - k" arbitrary: k s t rule: less_induct)
  case less
  show ?case
  proof (cases "k = length f")
    case True
    with less.prems(1) have "t = []" by simp
    with True show ?thesis
      by (subst kprintf_loop.simps) (auto intro!: exI [of _ "kmem s"] exI [of _ "kargs s"])
  next
    case False
    then have k: "k < length f" "Suc k \<le> length f" using less.prems(3) by simp_all
    have lt: "(of_nat k :: u32) < of_nat (length f)" using k less.prems(4) by (simp add: index_less)
    have c: "kmem s (fmt + of_nat k) = f ! k" using cstr_char [OF less.prems(2,3)] k by (simp add: nth_append)
    have dk: "drop k f = f ! k # drop (Suc k) f" using k by (simp add: Cons_nth_drop_Suc)
    have nx: "of_nat (Suc j) = (of_nat j + 1 :: u32)" for j by simp
    show ?thesis
    proof (cases "f ! k = 37")
      case False
      then obtain t' where t': "text_of S (drop (Suc k) f) (kargs s) = Some t'" "t = f ! k # t'"
        using less.prems(1) by (auto simp: dk text_of.simps(2))
      have st: "kprintf_loop fb gb fmt (of_nat (length f)) (of_nat k) s =
          kprintf_loop fb gb fmt (of_nat (length f)) (of_nat (Suc k)) (kputc (f ! k) s)"
        unfolding nx using False lt c by (subst kprintf_loop.simps) simp
      have "length f - Suc k < length f - k" using k by linarith
      from less.hyps [OF this _ _ k(2) less.prems(4,5), of "kputc (f ! k) s" t'] t' less.prems(2,6) show ?thesis
        unfolding st by (auto simp: kputc_def)
    next
      case True
      then obtain fl p rest where fo: "flags_of (drop (Suc k) f) 0 1 = Some (fl, p, rest)"
        using less.prems(1) by (cases "flags_of (drop (Suc k) f) 0 1") (auto simp: dk text_of.simps(2))
      from get_flags_spec [OF fo less.prems(2) k(2) less.prems(4,5)] obtain m1 k1 where g:
        "get_flags gb (kmem s) (of_nat k) 0 1 fmt = ret (m1, of_nat k1, fl, p)" "same_outside fb gb (kmem s) m1"
        "Suc k \<le> k1" "k1 \<le> length f" "rest = drop k1 f" unfolding index_pred by blast
      have cs: "cstr m1 fmt f" using cstr_same [OF g(2) less.prems(5) _ less.prems(2)] less.prems(4) by simp
      have d: "m1 (fmt + of_nat k1) = (f @ [0]) ! k1" by (rule cstr_char [OF cs g(4)])
      have st: "kprintf_loop fb gb fmt (of_nat (length f)) (of_nat k) s =
          bindX (conversion fb ((f @ [0]) ! k1) fl p (s\<lparr>kmem := m1\<rparr>)) (\<lambda>s.
            kprintf_loop fb gb fmt (of_nat (length f)) (of_nat (Suc k1)) s)"
        unfolding nx using True lt c g(1) d by (subst kprintf_loop.simps) simp
      show ?thesis
      proof (cases "k1 = length f")
        case True
        then have "t = []" using less.prems(1) fo g(5) \<open>f ! k = 37\<close> by (simp add: dk text_of.simps(2))
        moreover have "kprintf_loop fb gb fmt (of_nat (length f)) (of_nat (Suc (length f))) s' = ret s'" for s'
          using less.prems(4) index_less [of "Suc (length f)" "length f"] by (subst kprintf_loop.simps) simp
        ultimately show ?thesis using True g(2) unfolding st
          by (auto simp: conversion_def simp del: of_nat_Suc intro!: exI [of _ m1] exI [of _ "kargs s"])
      next
        case False
        then have k1: "k1 < length f" "Suc k1 \<le> length f" using g(4) by simp_all
        have rest: "rest = f ! k1 # drop (Suc k1) f" using g(5) k1 by (simp add: Cons_nth_drop_Suc)
        from less.prems(1) fo obtain t1 args1 t2 where t:
          "conv_text S (f ! k1) p (kargs s) = Some (t1, args1)" "text_of S (drop (Suc k1) f) args1 = Some t2" "t = t1 @ t2"
          by (auto simp: dk text_of.simps(2) rest \<open>f ! k = 37\<close> split: option.splits)
        have so: "strings_ok fb gb m1 S" using strings_ok_same [OF less.prems(6) g(2)] .
        from conversion_spec [OF t(1), of "s\<lparr>kmem := m1\<rparr>" fb gb fl] so obtain m2 where m2:
          "conversion fb (f ! k1) fl p (s\<lparr>kmem := m1\<rparr>) = ret (s\<lparr>kmem := m2, kout := kout s @ t1, kargs := args1\<rparr>)"
          "same_outside fb gb m1 m2" by auto
        let ?s = "s\<lparr>kmem := m2, kout := kout s @ t1, kargs := args1\<rparr>"
        have s2: "same_outside fb gb (kmem s) m2" by (rule same_outside_trans [OF g(2) m2(2)])
        have "length f - Suc k1 < length f - k" using k1 g(3) by linarith
        moreover have "cstr (kmem ?s) fmt f" using cstr_same [OF m2(2) less.prems(5) _ cs] less.prems(4) by simp
        moreover have "strings_ok fb gb (kmem ?s) S" using strings_ok_same [OF so m2(2)] by simp
        moreover have "text_of S (drop (Suc k1) f) (kargs ?s) = Some t2" using t(2) by simp
        ultimately obtain m' args' where "kprintf_loop fb gb fmt (of_nat (length f)) (of_nat (Suc k1)) ?s =
            ret (?s\<lparr>kmem := m', kout := kout ?s @ t2, kargs := args'\<rparr>)" "same_outside fb gb (kmem ?s) m'"
          using less.hyps [OF _ _ _ k1(2) less.prems(4,5)] by blast
        then show ?thesis using k1 m2(1) t(3) same_outside_trans [OF s2] unfolding st by (auto simp: nth_append)
      qed
    qed
  qed
qed

lemma do_kprintf_text:
  assumes "cstr (kmem s) fmt f" "length f < 2147483647" "outside fb gb fmt (Suc (length f))" "strings_ok fb gb (kmem s) S"
    "text_of S f (kargs s) = Some t"
  shows "\<exists>m' args'. do_kprintf fb gb fmt s = ret (s\<lparr>kmem := m', kout := kout s @ t, kargs := args'\<rparr>) \<and>
    same_outside fb gb (kmem s) m'"
  using kprintf_loop_spec [of S 0 f s t fmt fb gb] assms by (simp add: do_kprintf_def strlen_def strlen_loop_cstr)

lemma panic_prints:
  assumes "cstr (kmem s) fmt f" "length f < 2147483647" "outside fb gb fmt (Suc (length f))" "strings_ok fb gb (kmem s) S"
    and "cstr (kmem s) banner b" "length b < 2147483647" "outside fb gb banner (Suc (length b))" "37 \<notin> set b"
    and "text_of S f (kargs s) = Some t" and "\<not> held mtx"
  shows "\<exists>s' mtx'. panic banner fb gb fmt (s, mtx) = ret (s', mtx') \<and> kout s' = kout s @ b @ t"
proof -
  have "37 \<notin> set b \<Longrightarrow> text_of S b [] = Some b" for b by (induction b) (simp_all add: text_of.simps(2))
  then have b: "text_of S b (kargs (s\<lparr>kargs := []\<rparr>)) = Some b" using assms(8) by simp
  from do_kprintf_text [OF _ assms(6,7) _ b] assms(4,5) obtain m1 a1 where k:
    "do_kprintf fb gb banner (s\<lparr>kargs := []\<rparr>) = ret (s\<lparr>kmem := m1, kout := kout s @ b, kargs := a1\<rparr>)"
    "same_outside fb gb (kmem s) m1" by auto
  let ?s = "s\<lparr>kmem := m1, kout := kout s @ b\<rparr>"
  have "cstr (kmem ?s) fmt f" using cstr_same [OF k(2) assms(3) _ assms(1)] assms(2) by simp
  moreover have "strings_ok fb gb (kmem ?s) S" using strings_ok_same [OF assms(4) k(2)] by simp
  ultimately obtain m2 a2 where "do_kprintf fb gb fmt ?s = ret (?s\<lparr>kmem := m2, kout := kout s @ b @ t, kargs := a2\<rparr>)"
    using do_kprintf_text [of ?s fmt f fb gb S t] assms(2,3,9) by auto
  then show ?thesis using assms(10) k(1) by (simp add: panic_def kprintf_def mutex_lock_free)
qed

section \<open>Results\<close>

text \<open>
  C12: What \<open>kprintf\<close> prints. With its lock free, a format string and string arguments that lie
  outside the two stack buffers, enough arguments, widths up to 127 and width fields up to 7 digits, \<open>kprintf\<close>
  returns, has sent the text of the format (\<open>text_of\<close>: plain characters, then per conversion the decimal or
  hexadecimal numeral, string, character or scaled size of the next argument), has changed memory only in the
  buffers, and leaves the lock free. With the lock held it never returns.
\<close>

theorem kprintf_text:
  assumes "cstr (kmem s) fmt f" "length f < 2147483647" "outside fb gb fmt (Suc (length f))" "strings_ok fb gb (kmem s) S"
    "text_of S f (kargs s) = Some t"
  shows "if held mtx then kprintf fb gb fmt (s, mtx) = None
    else \<exists>s' mtx'. kprintf fb gb fmt (s, mtx) = ret (s', mtx') \<and> kout s' = kout s @ t \<and>
      same_outside fb gb (kmem s) (kmem s') \<and> \<not> held mtx'"
  using do_kprintf_text [OF assms] by (auto simp: kprintf_def mutex_lock_held mutex_lock_free)

text \<open>The format \<open>%05d %s\<close> at 0x100 and a string \<open>ok\<close> at 0x200.\<close>

definition sample_state :: kstate where
  "sample_state = \<lparr>kmem = put_bytes (put_bytes (\<lambda>_. 0) 0x100 [37, 48, 53, 100, 32, 37, 115, 0]) 0x200 [111, 107, 0],
     kout = [], kargs = [42, 0x200]\<rparr>"

definition sample_strings :: "addr \<Rightarrow> u8 list option" where
  "sample_strings = [0x200 \<mapsto> [111, 107]]"

lemma sample_kprintf:
  "cstr (kmem sample_state) 0x100 [37, 48, 53, 100, 32, 37, 115]"
  "outside 0x1000 0x2000 0x100 (Suc (length [37, 48, 53, 100, 32, 37, 115 :: u8]))"
  "strings_ok 0x1000 0x2000 (kmem sample_state) sample_strings"
proof -
  have o: "outside 0x1000 0x2000 a n" if "unat a + n \<le> 0x1000" for a n
    using that unfolding outside_def by (simp add: in_range_interval)
  show "cstr (kmem sample_state) 0x100 [37, 48, 53, 100, 32, 37, 115]" by (simp add: sample_state_def)
  show "outside 0x1000 0x2000 0x100 (Suc (length [37, 48, 53, 100, 32, 37, 115 :: u8]))" by (rule o) simp
  have "outside 0x1000 0x2000 0x200 3" by (rule o) simp
  then show "strings_ok 0x1000 0x2000 (kmem sample_state) sample_strings"
    by (simp add: strings_ok_def sample_strings_def sample_state_def numeral_3_eq_3)
qed

lemma sample_text:
  "text_of sample_strings [37, 48, 53, 100, 32, 37, 115] [42, 0x200] = Some [48, 48, 48, 52, 50, 32, 111, 107]"
proof -
  have d: "decimal 42 5 = [48, 48, 48, 52, 50]" by (simp add: decimal_def rdigits_pos) (simp add: eval_nat_numeral)
  have f: "flags_of [48, 53, 100, 32, 37, 115] 0 1 = Some (0, 5, [100, 32, 37, 115])"
    by (simp add: flags_of.simps isdig_def dec_value_def)
  have "flags_of [115] 0 1 = Some (0, 1, [115])" by (simp add: flags_of.simps)
  with f d show ?thesis
    by (simp add: text_of.simps(2) conv_text_def field_def sample_strings_def word_sless_alt)
qed

theorem kprintf_text_witness:
  "\<exists>s' mtx'. kprintf 0x1000 0x2000 0x100 (sample_state, \<lparr>locked = 0, waiting = None\<rparr>) = ret (s', mtx') \<and>
     kout s' = [48, 48, 48, 52, 50, 32, 111, 107]"
  using kprintf_text [OF sample_kprintf(1) _ sample_kprintf(2,3), of "[48, 48, 48, 52, 50, 32, 111, 107]"
      "\<lparr>locked = 0, waiting = None\<rparr>"] sample_text
  by (auto simp: held_def) (auto simp: sample_state_def)



text \<open>
  The scaled sizes. \<open>scale\<close> rounds down to the unit it names, a number below 10240 for bytes and
  kilobytes; the unit G is chosen for one size only, the largest 32-bit number.
\<close>

theorem scale_spec:
  "\<exists>u. (fst (scale sz), snd (scale sz)) = (sz div u, snd (scale sz)) \<and>
     (u, snd (scale sz)) \<in> {(1, 66), (1024, 75), (1024 * 1024, 77), (1024 * 1024 * 1024, 71)} \<and>
     (snd (scale sz) = 66 \<or> snd (scale sz) = 75 \<longrightarrow> fst (scale sz) < 10240) \<and>
     (snd (scale sz) = 71 \<longleftrightarrow> sz = 0xffffffff)"
proof -
  have m: "sz < - 1 \<longleftrightarrow> sz \<noteq> 0xffffffff" by (simp add: word_less_nat_alt word_unat_eq_iff) (use unat_u32_lt [of sz] in linarith)
  have d: "sz div 1024 < 10240" if "sz < 10485760" using that by (simp add: word_less_nat_alt unat_div_word)
  consider "sz < 10240" | "\<not> sz < 10240" "sz < 10485760" | "\<not> sz < 10485760" "sz < - 1" | "\<not> sz < - 1" by blast
  then show ?thesis
  proof cases
    case 1
    then show ?thesis using m by (intro exI [of _ 1]) (auto simp: scale_def)
  next
    case 2
    then show ?thesis using m d by (intro exI [of _ 1024]) (auto simp: scale_def)
  next
    case 3
    then have "\<not> sz < 10240" using less_trans [of sz 10240 10485760] by auto
    then show ?thesis using 3 m by (intro exI [of _ "1024 * 1024"]) (auto simp: scale_def)
  next
    case 4
    have "\<not> sz < 10240" "\<not> sz < 10485760"
      using 4 less_trans [of sz 10240 "- 1"] less_trans [of sz 10485760 "- 1"] by auto
    then show ?thesis using 4 m by (intro exI [of _ "1024 * 1024 * 1024"]) (auto simp: scale_def)
  qed
qed

theorem scale_spec_witness: "snd (scale 0xffffffff) = 71 \<and> snd (scale 0xfffffffe) \<noteq> 71"
  using scale_spec [of "0xffffffff"] scale_spec [of "0xfffffffe"] by auto

end
