(* ===== verification/Fault_Report.thy ===== *)
theory Fault_Report
  imports Kprintf Heap_Props
begin

text \<open>
  What the kernel does and prints on an exception: \<open>arch/i686/exception.c\<close>, \<open>kernel/exception.c\<close>,
  \<open>arch/include/exception.h\<close> and \<open>heap_dump\<close> of \<open>kernel/memory/heap.c\<close>, over the printing of \<open>Kprintf\<close> and the heap of
  \<open>Heap\<close>. String literals are at addresses \<open>lit\<close> that the compiler chooses; \<open>fb\<close> and \<open>gb\<close> are the buffers
  of \<open>Kprintf\<close>, at the same place for every call. The result shows that an exception is reported in full, with one line for each block
  of the heap, exactly when the lock of \<open>kprintf\<close> is free, and that the handler hangs without output else.
\<close>

section \<open>Texts\<close>

definition ascii :: "string \<Rightarrow> u8 list" where "ascii s = map of_char s"

definition nl :: string where "nl = [CHR 0x0A]"

definition DUMP_TITLE :: string where "DUMP_TITLE = '' === KERNEL HEAP DUMP === '' @ nl"

definition DUMP_LINE :: string where
  "DUMP_LINE = ''avlb='' @ ''%s'' @ '', start='' @ ''%p'' @ '', size='' @ ''%S'' @ '' '' @ ''%s'' @ nl"

definition PAGE_FAULT_INFO :: string where
  "PAGE_FAULT_INFO = nl @ '' === PAGE FAULT INFO === '' @ nl @ ''   addr      = '' @ ''%p'' @ nl @ ''   cause     = '' @ ''%s'' @ nl
     @ ''   operation = '' @ ''%s'' @ nl @ ''   runlevel  = '' @ ''%s'' @ nl @ ''   op fetch  = '' @ ''%s'' @ nl @ nl"

definition PROTECTION_INFO :: string where
  "PROTECTION_INFO = nl @ '' === PROTECTION FAULT INFO === '' @ nl @ ''   addr             = '' @ ''%p'' @ nl
     @ ''   segment-related  = '' @ ''%s'' @ nl @ ''   if yes, selector = 0x'' @ ''%02x'' @ nl @ nl"

definition PANIC_BANNER :: string where "PANIC_BANNER = nl @ '' === PANIC ==='' @ nl"

definition UNHANDLED :: string where
  "UNHANDLED = ''   unhandled '' @ ''%s'' @ '' exception (#'' @ ''%d'' @ '')'' @ nl
     @ ''   eax='' @ ''%p'' @ '', ebx='' @ ''%p'' @ '', ecx='' @ ''%p'' @ '', edx='' @ ''%p'' @ nl
     @ ''   esi='' @ ''%p'' @ '', edi='' @ ''%p'' @ '', ebp='' @ ''%p'' @ '', esp='' @ ''%p'' @ nl
     @ ''   eip='' @ ''%p'' @ nl @ nl @ ''execution halted.''"

definition exceptions :: "string list" where
  "exceptions = [''divide by zero'', ''debug'', ''non-maskable interrupt'', ''breakpoint'', ''into detected overflow'',
     ''out of bounds'', ''invalid opcode'', ''no coprocessor'', ''double fault'', ''coprocessor segment overrun'',
     ''broken task state segment'', ''segment not present'', ''stack fault'', ''general protection fault'', ''page fault'',
     ''unknown interrupt'', ''coprocessor fault'', ''alignment check'', ''machine check'', ''SIMD'']
     @ replicate 12 ''reserved''"

section \<open>The code\<close>

definition EXC_STATUS_FATAL :: s32 where "EXC_STATUS_FATAL = 1"
definition EXC_STATUS_OK :: s32 where "EXC_STATUS_OK = 0"
definition EXC_PROTECTION :: u32 where "EXC_PROTECTION = 13"
definition EXC_PAGEFAULT :: u32 where "EXC_PAGEFAULT = 14"

record exc_context =
  exc_id :: u32
  c_edi :: u32
  c_esi :: u32
  c_ebp :: u32
  c_esp :: u32
  c_ebx :: u32
  c_edx :: u32
  c_ecx :: u32
  c_eax :: u32
  c_gs :: u32
  c_fs :: u32
  c_es :: u32
  c_ds :: u32
  error_code :: u32
  c_eip :: u32

record fault_state =
  fault_addr :: addr
  fault_code :: u32

text \<open>A call of \<open>kprintf\<close>: its arguments are on the stack of the call. The output and the lock are passed along.\<close>

type_synonym console_state = "kstate \<times> mutex_struct"

definition kprintf_call :: "(string \<Rightarrow> addr) \<Rightarrow> addr \<Rightarrow> addr \<Rightarrow> string \<Rightarrow> u32 list \<Rightarrow> console_state \<Rightarrow> console_state exec" where
  "kprintf_call lit fb gb fmt args r = kprintf fb gb (lit fmt) ((fst r)\<lparr>kargs := args\<rparr>, snd r)"

partial_function (option) heap_dump_loop :: "(string \<Rightarrow> addr) \<Rightarrow> addr \<Rightarrow> addr \<Rightarrow> addr \<Rightarrow> console_state \<Rightarrow> console_state exec" where
  "heap_dump_loop lit fb gb entry r =
     (if entry \<noteq> 0
      then let e = get_entry (kmem (fst r)) entry
           in bindX (kprintf_call lit fb gb DUMP_LINE
                [lit (if available e \<noteq> 0 then ''yes'' else ''no ''), e_start e, e_size e,
                 if description e = 0 then lit ''(free)'' else description e] r)
              (\<lambda>r. heap_dump_loop lit fb gb (e_next (get_entry (kmem (fst r)) entry)) r)
      else ret r)"

definition heap_dump :: "(string \<Rightarrow> addr) \<Rightarrow> addr \<Rightarrow> addr \<Rightarrow> addr \<Rightarrow> console_state \<Rightarrow> console_state exec" where
  "heap_dump lit fb gb start r = bindX (kprintf_call lit fb gb DUMP_TITLE [] r) (heap_dump_loop lit fb gb start)"

definition page_fault :: "(string \<Rightarrow> addr) \<Rightarrow> addr \<Rightarrow> addr \<Rightarrow> addr \<Rightarrow> u32 \<Rightarrow> console_state \<Rightarrow> (console_state \<times> s32) exec" where
  "page_fault lit fb gb fault_address err_code r =
     bindX (kprintf_call lit fb gb PAGE_FAULT_INFO
       [fault_address,
        lit (if err_code AND BIT 0 \<noteq> 0 then ''protection'' else ''non-present page''),
        lit (if err_code AND BIT 1 \<noteq> 0 then ''write'' else ''read''),
        lit (if err_code AND BIT 2 \<noteq> 0 then ''user'' else ''kernel''),
        lit (if err_code AND BIT 4 \<noteq> 0 then ''yes'' else ''no'')] r) (\<lambda>r. ret (r, EXC_STATUS_FATAL))"

definition protection_fault :: "(string \<Rightarrow> addr) \<Rightarrow> addr \<Rightarrow> addr \<Rightarrow> addr \<Rightarrow> u32 \<Rightarrow> console_state \<Rightarrow> (console_state \<times> s32) exec" where
  "protection_fault lit fb gb fault_address err_code r =
     bindX (kprintf_call lit fb gb PROTECTION_INFO
       [fault_address, lit (if err_code \<noteq> 0 then ''yes'' else ''no''), err_code] r) (\<lambda>r. ret (r, EXC_STATUS_FATAL))"

definition generic_exception ::
    "(string \<Rightarrow> addr) \<Rightarrow> addr \<Rightarrow> addr \<Rightarrow> u32 \<Rightarrow> fault_state \<Rightarrow> console_state \<Rightarrow> (console_state \<times> s32) exec" where
  "generic_exception lit fb gb i g r =
     (if i = EXC_PAGEFAULT then page_fault lit fb gb (fault_addr g) (fault_code g) r
      else if i = EXC_PROTECTION then protection_fault lit fb gb (fault_addr g) (fault_code g) r
      else ret (r, EXC_STATUS_FATAL))"

text \<open>
  \<open>cr2\<close> is the processor's page fault address and \<open>start\<close> the first header of the heap. The outcome is \<open>Inl\<close> when the
  handler returns to the interrupted code and \<open>Inr\<close> when the processor is halted.
\<close>

definition exc_handler :: "(string \<Rightarrow> addr) \<Rightarrow> addr \<Rightarrow> addr \<Rightarrow> addr \<Rightarrow> u32 \<Rightarrow> exc_context \<Rightarrow> fault_state \<Rightarrow> console_state \<Rightarrow>
    (fault_state \<times> console_state + fault_state \<times> console_state) exec" where
  "exc_handler lit fb gb start cr2 context g r =
     (let g = g\<lparr>fault_code := error_code context, fault_addr := c_eip context\<rparr>;
          g = (if exc_id context = EXC_PAGEFAULT then g\<lparr>fault_addr := cr2\<rparr> else g)
      in bindX (generic_exception lit fb gb (exc_id context) g r) (\<lambda>(r, status).
         if status = EXC_STATUS_OK then ret (Inl (g, r))
         else bindX (heap_dump lit fb gb start r) (\<lambda>r.
              if length exceptions \<le> unat (exc_id context) then fail Out_Of_Bounds
              else bindX (panic (lit PANIC_BANNER) fb gb (lit UNHANDLED) ((fst r)\<lparr>kargs :=
                     [lit (exceptions ! unat (exc_id context)), exc_id context,
                      c_eax context, c_ebx context, c_ecx context, c_edx context,
                      c_esi context, c_edi context, c_ebp context, c_esp context, c_eip context]\<rparr>, snd r))
                   (\<lambda>r. ret (Inr (g, r))))))"

section \<open>The texts printed\<close>

definition hex32 :: "u32 \<Rightarrow> u8 list" where "hex32 v = 48 # 120 # xtoa_out 8 v 8 True"

definition size_units :: "u32 \<Rightarrow> u8 list" where "size_units v = decimal (unat (fst (scale v))) 1 @ [snd (scale v)]"

text \<open>The line for one heap entry; \<open>S\<close> gives the strings in memory.\<close>

definition dump_line :: "(addr \<Rightarrow> u8 list option) \<Rightarrow> kheape_struct \<Rightarrow> u8 list" where
  "dump_line S e = ascii ''avlb='' @ ascii (if available e \<noteq> 0 then ''yes'' else ''no '') @ ascii '', start='' @ hex32 (e_start e)
     @ ascii '', size='' @ size_units (e_size e) @ ascii '' '' @ (if description e = 0 then ascii ''(free)'' else the (S (description e))) @ ascii nl"

definition page_fault_text :: "addr \<Rightarrow> u32 \<Rightarrow> u8 list" where
  "page_fault_text a c = ascii nl @ ascii '' === PAGE FAULT INFO === '' @ ascii nl @ ascii ''   addr      = '' @ hex32 a @ ascii nl
     @ ascii ''   cause     = '' @ ascii (if bit c 0 then ''protection'' else ''non-present page'') @ ascii nl
     @ ascii ''   operation = '' @ ascii (if bit c 1 then ''write'' else ''read'') @ ascii nl
     @ ascii ''   runlevel  = '' @ ascii (if bit c 2 then ''user'' else ''kernel'') @ ascii nl
     @ ascii ''   op fetch  = '' @ ascii (if bit c 4 then ''yes'' else ''no'') @ ascii nl @ ascii nl"

definition protection_text :: "addr \<Rightarrow> u32 \<Rightarrow> u8 list" where
  "protection_text a c = ascii nl @ ascii '' === PROTECTION FAULT INFO === '' @ ascii nl @ ascii ''   addr             = '' @ hex32 a @ ascii nl
     @ ascii ''   segment-related  = '' @ ascii (if c \<noteq> 0 then ''yes'' else ''no'') @ ascii nl
     @ ascii ''   if yes, selector = 0x'' @ xtoa_out 8 c 2 True @ ascii nl @ ascii nl"

definition fault_text :: "u32 \<Rightarrow> addr \<Rightarrow> u32 \<Rightarrow> u8 list" where
  "fault_text i a c = (if i = 14 then page_fault_text a c else if i = 13 then protection_text a c else [])"

definition unhandled_text :: "exc_context \<Rightarrow> u8 list" where
  "unhandled_text x = ascii ''   unhandled '' @ ascii (exceptions ! unat (exc_id x)) @ ascii '' exception (#'' @ decimal (unat (exc_id x)) 1 @ ascii '')'' @ ascii nl
     @ ascii ''   eax='' @ hex32 (c_eax x) @ ascii '', ebx='' @ hex32 (c_ebx x) @ ascii '', ecx='' @ hex32 (c_ecx x) @ ascii '', edx='' @ hex32 (c_edx x) @ ascii nl
     @ ascii ''   esi='' @ hex32 (c_esi x) @ ascii '', edi='' @ hex32 (c_edi x) @ ascii '', ebp='' @ hex32 (c_ebp x) @ ascii '', esp='' @ hex32 (c_esp x) @ ascii nl
     @ ascii ''   eip='' @ hex32 (c_eip x) @ ascii nl @ ascii nl @ ascii ''execution halted.''"

section \<open>Evaluating the formats\<close>

lemma ascii_append [simp]: "ascii (s @ t) = ascii s @ ascii t" by (simp add: ascii_def)

lemma length_ascii [simp]: "length (ascii s) = length s" by (simp add: ascii_def)

lemma ascii_percent: "37 \<in> set (ascii s) \<longleftrightarrow> CHR ''%'' \<in> set s"
proof -
  have "of_char c = (37 :: u8) \<longleftrightarrow> c = CHR ''%''" for c
  proof
    assume "of_char c = (37 :: u8)"
    then have "(of_nat (of_char c) :: u8) = of_nat 37" by (simp add: of_nat_of_char)
    then have "unat (of_nat (of_char c) :: u8) = 37" by simp
    moreover have "of_char c < (256 :: nat)" by simp
    ultimately have "of_char c = (37 :: nat)" by (simp add: unat_of_nat)
    then have "(of_char c :: nat) = of_char (CHR ''%'')" by simp
    then show "c = CHR ''%''" by (simp only: of_char_eq_iff)
  qed simp
  then show ?thesis by (auto simp: ascii_def image_iff)
qed

lemma text_plain:
  "37 \<notin> set p \<Longrightarrow> text_of S (p @ cs) args = map_option ((@) p) (text_of S cs args)"
  by (induction p; cases "text_of S cs args") (simp_all add: text_of.simps(2))

lemma text_end: "37 \<notin> set p \<Longrightarrow> text_of S p args = Some p"
  using text_plain [of p S "[]" args] by simp

lemma field_small: "field 1 = 1" "field 2 = 2"
  by (simp_all add: field_def)

lemma text_conv:
  "a \<noteq> 0 \<Longrightarrow> S a = Some t \<Longrightarrow> text_of S (ascii ''%s'' @ cs) (a # args) = map_option ((@) t) (text_of S cs args)"
  "text_of S (ascii ''%p'' @ cs) (a # args) = map_option ((@) (hex32 a)) (text_of S cs args)"
  "text_of S (ascii ''%d'' @ cs) (a # args) = map_option ((@) (decimal (unat (if a <s 0 then - a else a)) 1)) (text_of S cs args)"
  "text_of S (ascii ''%S'' @ cs) (a # args) = map_option ((@) (size_units a)) (text_of S cs args)"
  "text_of S (ascii ''%02x'' @ cs) (a # args) = map_option ((@) (xtoa_out 8 a 2 True)) (text_of S cs args)"
  by (simp_all add: ascii_def text_of.simps(2) flags_of.simps conv_text_def hex32_def size_units_def field_small isdig_def dec_value_def)

lemma nl_plain: "CHR ''%'' \<notin> set nl" by (simp add: nl_def)

lemmas text_rules = text_conv text_plain text_end ascii_percent nl_plain

text \<open>The strings the handler uses are in memory, away from the buffers of \<open>kprintf\<close>.\<close>

definition report_literals :: "string list" where
  "report_literals = [DUMP_TITLE, DUMP_LINE, PAGE_FAULT_INFO, PROTECTION_INFO, PANIC_BANNER, UNHANDLED, ''yes'', ''no '', ''no'',
     ''(free)'', ''protection'', ''non-present page'', ''write'', ''read'', ''user'', ''kernel''] @ exceptions"

definition report_env :: "(string \<Rightarrow> addr) \<Rightarrow> addr \<Rightarrow> addr \<Rightarrow> (addr \<Rightarrow> u8 list option) \<Rightarrow> mem \<Rightarrow> bool" where
  "report_env lit fb gb S m \<longleftrightarrow> strings_ok fb gb m S \<and> (\<forall>l\<in>set report_literals. S (lit l) = Some (ascii l) \<and> lit l \<noteq> 0)"

lemma report_literal:
  assumes "report_env lit fb gb S m"
  shows "\<forall>l\<in>set report_literals. S (lit l) = Some (ascii l) \<and> lit l \<noteq> 0"
  using assms by (simp add: report_env_def)

lemma dump_text:
  assumes "report_env lit fb gb S m" "description e \<noteq> 0 \<longrightarrow> S (description e) \<noteq> None"
  shows "text_of S (ascii DUMP_LINE) [lit (if available e \<noteq> 0 then ''yes'' else ''no ''), e_start e, e_size e,
     if description e = 0 then lit ''(free)'' else description e] = Some (dump_line S e)"
proof -
  have l: "S (lit ''yes'') = Some (ascii ''yes'')" "S (lit ''no '') = Some (ascii ''no '')" "S (lit ''(free)'') = Some (ascii ''(free)'')"
    "lit ''yes'' \<noteq> 0" "lit ''no '' \<noteq> 0" "lit ''(free)'' \<noteq> 0"
    using report_literal [OF assms(1)] by (simp_all add: report_literals_def)
  have d: "S (if description e = 0 then lit ''(free)'' else description e) =
      Some (if description e = 0 then ascii ''(free)'' else the (S (description e)))"
    "(if description e = 0 then lit ''(free)'' else description e) \<noteq> 0" using l assms(2) by auto
  have y: "S (lit (if available e \<noteq> 0 then ''yes'' else ''no '')) = Some (ascii (if available e \<noteq> 0 then ''yes'' else ''no ''))"
    "lit (if available e \<noteq> 0 then ''yes'' else ''no '') \<noteq> 0" using l by simp_all
  show ?thesis unfolding DUMP_LINE_def ascii_append
    by (simp add: text_rules text_conv(1) [where S = S, OF d(2,1)] text_conv(1) [where S = S, OF y(2,1)] dump_line_def del: if_split)
qed

lemma page_fault_printed:
  assumes "report_env lit fb gb S m"
  shows "text_of S (ascii PAGE_FAULT_INFO) [a, lit (if c AND BIT 0 \<noteq> 0 then ''protection'' else ''non-present page''),
      lit (if c AND BIT 1 \<noteq> 0 then ''write'' else ''read''), lit (if c AND BIT 2 \<noteq> 0 then ''user'' else ''kernel''),
      lit (if c AND BIT 4 \<noteq> 0 then ''yes'' else ''no'')] = Some (page_fault_text a c)"
proof -
  note l = report_literal [OF assms, unfolded report_literals_def]
  have b: "c AND BIT k \<noteq> 0 \<longleftrightarrow> bit c k" if "k < 32" for k
    using that by (simp add: BIT_def and_exp_eq_0_iff_not_bit push_bit_eq_mult)
  have s: "lit (if P then x else y) \<noteq> 0" "S (lit (if P then x else y)) = Some (ascii (if P then x else y))"
    if "x \<in> {''protection'', ''write'', ''user'', ''yes''}" "y \<in> {''non-present page'', ''read'', ''kernel'', ''no''}" for P x y
    using l that by auto
  show ?thesis unfolding PAGE_FAULT_INFO_def ascii_append
    by (simp add: text_rules text_conv(1) [where S = S, OF s] b page_fault_text_def del: if_split)
qed

lemma protection_printed:
  assumes "report_env lit fb gb S m"
  shows "text_of S (ascii PROTECTION_INFO) [a, lit (if c \<noteq> 0 then ''yes'' else ''no''), c] = Some (protection_text a c)"
proof -
  note l = report_literal [OF assms, unfolded report_literals_def]
  have s: "lit (if c \<noteq> 0 then ''yes'' else ''no'') \<noteq> 0"
    "S (lit (if c \<noteq> 0 then ''yes'' else ''no'')) = Some (ascii (if c \<noteq> 0 then ''yes'' else ''no''))" using l by auto
  show ?thesis unfolding PROTECTION_INFO_def ascii_append
    by (simp add: text_rules text_conv(1) [where S = S, OF s] protection_text_def del: if_split)
qed

lemma exceptions_length: "length exceptions = 32"
  by (simp add: exceptions_def)

lemma unhandled_printed:
  assumes "report_env lit fb gb S m" "exc_id x < 32"
  shows "text_of S (ascii UNHANDLED) [lit (exceptions ! unat (exc_id x)), exc_id x, c_eax x, c_ebx x, c_ecx x, c_edx x,
      c_esi x, c_edi x, c_ebp x, c_esp x, c_eip x] = Some (unhandled_text x)"
proof -
  let ?e = "exceptions ! unat (exc_id x)"
  have i: "unat (exc_id x) < 32" using assms(2) by (simp add: word_less_nat_alt)
  then have "?e \<in> set exceptions" by (intro nth_mem) (simp add: exceptions_length)
  then have "?e \<in> set report_literals" by (simp add: report_literals_def)
  with report_literal [OF assms(1)] have s: "lit ?e \<noteq> 0" "S (lit ?e) = Some (ascii ?e)" by blast+
  have "sint (of_nat (unat (exc_id x)) :: s32) = int (unat (exc_id x))" using i by (intro sint_of_nat_s32) simp
  then have "\<not> exc_id x <s 0" by (simp add: word_sless_alt)
  then show ?thesis unfolding UNHANDLED_def ascii_append
    by (simp add: text_rules text_conv(1) [where S = S, OF s] unhandled_text_def)
qed

section \<open>Printing\<close>

text \<open>A step from \<open>s\<close> that prints \<open>t\<close>, changes memory only in the buffers and leaves the lock free.\<close>

definition printed :: "addr \<Rightarrow> addr \<Rightarrow> kstate \<Rightarrow> u8 list \<Rightarrow> console_state exec \<Rightarrow> bool" where
  "printed fb gb s t m \<longleftrightarrow> (\<exists>s' mtx'. m = ret (s', mtx') \<and> kout s' = kout s @ t \<and>
     same_outside fb gb (kmem s) (kmem s') \<and> \<not> held mtx')"

lemma printed_nothing: "\<not> held mtx \<Longrightarrow> printed fb gb s [] (ret (s, mtx))"
  by (simp add: printed_def)

lemma printed_bind:
  assumes "printed fb gb s t m"
    "\<And>s' mtx'. same_outside fb gb (kmem s) (kmem s') \<Longrightarrow> \<not> held mtx' \<Longrightarrow> printed fb gb s' u (k (s', mtx'))"
  shows "printed fb gb s (t @ u) (bindX m k)"
proof -
  obtain s1 mtx1 where 1: "m = ret (s1, mtx1)" "kout s1 = kout s @ t" "same_outside fb gb (kmem s) (kmem s1)" "\<not> held mtx1"
    using assms(1) by (auto simp: printed_def)
  from assms(2) [OF 1(3,4)] show ?thesis
    using 1(1,2) same_outside_trans [OF 1(3)] by (auto simp: printed_def)
qed

lemma report_env_same: "report_env lit fb gb S m \<Longrightarrow> same_outside fb gb m m' \<Longrightarrow> report_env lit fb gb S m'"
  using strings_ok_same by (auto simp: report_env_def)

lemma literal_lengths: "l \<in> set report_literals \<Longrightarrow> length l < 2147483647"
  by (auto simp: report_literals_def exceptions_def DUMP_TITLE_def DUMP_LINE_def PAGE_FAULT_INFO_def PROTECTION_INFO_def
      PANIC_BANNER_def UNHANDLED_def nl_def)

lemma literal_string:
  assumes "report_env lit fb gb S m" "l \<in> set report_literals"
  shows "cstr m (lit l) (ascii l)" "length (ascii l) < 2147483647" "outside fb gb (lit l) (Suc (length (ascii l)))"
proof -
  have "S (lit l) = Some (ascii l)" using report_literal [OF assms(1)] assms(2) by blast
  then have "cstr m (lit l) (ascii l) \<and> outside fb gb (lit l) (Suc (length (ascii l)))"
    using assms(1) unfolding report_env_def strings_ok_def by blast
  then show "cstr m (lit l) (ascii l)" "outside fb gb (lit l) (Suc (length (ascii l)))" by simp_all
  show "length (ascii l) < 2147483647" using literal_lengths [OF assms(2)] by simp
qed

lemma print_printed:
  assumes "report_env lit fb gb S (kmem s)" "f \<in> set report_literals" "text_of S (ascii f) args = Some t" "\<not> held mtx"
  shows "printed fb gb s t (kprintf_call lit fb gb f args (s, mtx))"
proof -
  note l = literal_string [OF assms(1,2)]
  have "strings_ok fb gb (kmem s) S" using assms(1) by (simp add: report_env_def)
  then have "\<exists>m' args'. do_kprintf fb gb (lit f) (s\<lparr>kargs := args\<rparr>) =
      ret (s\<lparr>kargs := args\<rparr>\<lparr>kmem := m', kout := kout (s\<lparr>kargs := args\<rparr>) @ t, kargs := args'\<rparr>) \<and>
      same_outside fb gb (kmem (s\<lparr>kargs := args\<rparr>)) m'"
    using l assms(3) by (intro do_kprintf_text) simp_all
  then show ?thesis using assms(4) by (auto simp: kprintf_call_def kprintf_def mutex_lock_free printed_def)
qed

lemma print_held: "held mtx \<Longrightarrow> kprintf_call lit fb gb f args (s, mtx) = None"
  by (simp add: kprintf_call_def kprintf_def mutex_lock_held)

section \<open>The dump of the heap\<close>

text \<open>The headers are away from the buffers, and each description is a string.\<close>

definition dumpable :: "addr \<Rightarrow> addr \<Rightarrow> (addr \<Rightarrow> u8 list option) \<Rightarrow> mem \<Rightarrow> nat list \<Rightarrow> bool" where
  "dumpable fb gb S m ks \<longleftrightarrow> (\<forall>k\<in>set ks. outside fb gb (ad k) 24 \<and>
     (description (get_entry m (ad k)) \<noteq> 0 \<longrightarrow> S (description (get_entry m (ad k))) \<noteq> None))"

definition dump_lines :: "(addr \<Rightarrow> u8 list option) \<Rightarrow> mem \<Rightarrow> nat list \<Rightarrow> u8 list" where
  "dump_lines S m ks = concat (map (\<lambda>k. dump_line S (get_entry m (ad k))) ks)"

lemma entry_same: "same_outside fb gb m m' \<Longrightarrow> outside fb gb a 24 \<Longrightarrow> get_entry m' a = get_entry m a"
  by (rule get_entry_cong) (auto simp: same_outside_def outside_def)

lemma dump_same:
  assumes "dumpable fb gb S m ks" "same_outside fb gb m m'"
  shows "dumpable fb gb S m' ks" "dump_lines S m' ks = dump_lines S m ks"
    "\<And>k. k \<in> set ks \<Longrightarrow> get_entry m' (ad k) = get_entry m (ad k)"
proof -
  show e: "\<And>k. k \<in> set ks \<Longrightarrow> get_entry m' (ad k) = get_entry m (ad k)"
    using assms entry_same by (auto simp: dumpable_def)
  show "dumpable fb gb S m' ks" using assms(1) e by (simp add: dumpable_def)
  show "dump_lines S m' ks = dump_lines S m ks" using e by (auto simp: dump_lines_def intro!: arg_cong [where f = concat])
qed

lemma dump_loop_printed:
  "report_env lit fb gb S (kmem s) \<Longrightarrow> seg (kmem s) p n bs 0 \<Longrightarrow> dumpable fb gb S (kmem s) (hdrs n bs) \<Longrightarrow> \<not> held mtx \<Longrightarrow>
   printed fb gb s (dump_lines S (kmem s) (hdrs n bs)) (heap_dump_loop lit fb gb (if bs = [] then 0 else ad n) (s, mtx))"
proof (induction bs arbitrary: p n s mtx)
  case Nil
  then show ?case by (subst heap_dump_loop.simps) (simp add: dump_lines_def printed_nothing)
next
  case (Cons b bs)
  let ?n = "n + 24 + b_size b" and ?e = "get_entry (kmem s) (ad n)"
  let ?next = "if bs = [] then 0 else ad ?n"
  have ok: "entry_ok (kmem s) p n b ?next" "seg (kmem s) (ad n) ?n bs 0" using Cons.prems(2) by simp_all
  then have n: "ad n \<noteq> 0" "e_next ?e = ?next" by (simp_all add: entry_ok_def)
  have d: "dumpable fb gb S (kmem s) (hdrs ?n bs)" "outside fb gb (ad n) 24"
    "description ?e \<noteq> 0 \<longrightarrow> S (description ?e) \<noteq> None" using Cons.prems(3) by (simp_all add: dumpable_def)
  have "DUMP_LINE \<in> set report_literals" by (simp add: report_literals_def)
  note line = print_printed [OF Cons.prems(1) this dump_text [OF Cons.prems(1) d(3)] Cons.prems(4)]
  have rest: "printed fb gb s' (dump_lines S (kmem s) (hdrs ?n bs))
      (heap_dump_loop lit fb gb (e_next (get_entry (kmem (fst (s', mtx'))) (ad n))) (s', mtx'))"
    if s': "same_outside fb gb (kmem s) (kmem s')" "\<not> held mtx'" for s' mtx'
  proof -
    have "seg (kmem s') (ad n) ?n bs 0" using ok(2) seg_frame [OF dump_same(3) [OF d(1) s'(1)]] by simp
    from Cons.IH [OF report_env_same [OF Cons.prems(1) s'(1)] this dump_same(1) [OF d(1) s'(1)] s'(2)]
    show ?thesis using entry_same [OF s'(1) d(2)] n(2) dump_same(2) [OF d(1) s'(1)] by simp
  qed
  have "heap_dump_loop lit fb gb (if b # bs = [] then 0 else ad n) (s, mtx) =
      bindX (kprintf_call lit fb gb DUMP_LINE [lit (if available ?e \<noteq> 0 then ''yes'' else ''no ''), e_start ?e, e_size ?e,
          if description ?e = 0 then lit ''(free)'' else description ?e] (s, mtx))
        (\<lambda>r. heap_dump_loop lit fb gb (e_next (get_entry (kmem (fst r)) (ad n))) r)"
    using n(1) by (subst heap_dump_loop.simps) (simp add: Let_def)
  then show ?case using printed_bind [OF line rest] by (simp add: dump_lines_def)
qed

lemma heap_dump_printed:
  assumes "report_env lit fb gb S (kmem s)" "heap_inv h bs" "hmem h = kmem s"
    "dumpable fb gb S (kmem s) (hdrs (unat (heap_start h)) bs)" "\<not> held mtx"
  shows "printed fb gb s (ascii DUMP_TITLE @ dump_lines S (kmem s) (hdrs (unat (heap_start h)) bs))
    (heap_dump lit fb gb (heap_start h) (s, mtx))"
  unfolding heap_dump_def
proof (rule printed_bind)
  have "text_of S (ascii DUMP_TITLE) [] = Some (ascii DUMP_TITLE)"
    by (rule text_end) (simp add: ascii_percent DUMP_TITLE_def nl_plain)
  then show "printed fb gb s (ascii DUMP_TITLE) (kprintf_call lit fb gb DUMP_TITLE [] (s, mtx))"
    using assms by (intro print_printed) (simp_all add: report_literals_def)
next
  fix s' :: kstate and mtx' assume s': "same_outside fb gb (kmem s) (kmem s')" "\<not> held mtx'"
  note d = dump_same [OF assms(4) s'(1)]
  have "bs \<noteq> []" "seg (kmem s') 0 (unat (heap_start h)) bs 0"
    using assms(2,3) seg_frame [OF d(3)] by (simp_all add: heap_inv_def)
  with dump_loop_printed [OF report_env_same [OF assms(1) s'(1)] this(2) d(1) s'(2)]
  show "printed fb gb s' (dump_lines S (kmem s) (hdrs (unat (heap_start h)) bs)) (heap_dump_loop lit fb gb (heap_start h) (s', mtx'))"
    using d(2) by simp
qed

section \<open>The exception handler\<close>

lemma generic_exception_printed:
  assumes "report_env lit fb gb S (kmem s)" "\<not> held mtx"
  shows "\<exists>r. generic_exception lit fb gb i g (s, mtx) = ret (r, EXC_STATUS_FATAL) \<and>
    printed fb gb s (fault_text i (fault_addr g) (fault_code g)) (ret r)"
proof -
  have l: "PAGE_FAULT_INFO \<in> set report_literals" "PROTECTION_INFO \<in> set report_literals" by (simp_all add: report_literals_def)
  have step: "\<exists>r. bindX m (\<lambda>r. ret (r, EXC_STATUS_FATAL)) = ret (r, EXC_STATUS_FATAL) \<and> printed fb gb s t (ret r)"
    if "printed fb gb s t m" for m t using that by (auto simp: printed_def)
  consider "i = 14" | "i = 13" | "i \<noteq> 14" "i \<noteq> 13" by blast
  then show ?thesis
  proof cases
    case 1
    then show ?thesis
      using step [OF print_printed [OF assms(1) l(1) page_fault_printed [OF assms(1)] assms(2)]]
      by (simp add: generic_exception_def page_fault_def EXC_PAGEFAULT_def fault_text_def)
  next
    case 2
    then show ?thesis
      using step [OF print_printed [OF assms(1) l(2) protection_printed [OF assms(1)] assms(2)]]
      by (simp add: generic_exception_def protection_fault_def EXC_PAGEFAULT_def EXC_PROTECTION_def fault_text_def)
  next
    case 3
    then show ?thesis using printed_nothing [OF assms(2)]
      by (simp add: generic_exception_def EXC_PAGEFAULT_def EXC_PROTECTION_def fault_text_def)
  qed
qed

lemma exc_handler_hangs: "held mtx \<Longrightarrow> exc_handler lit fb gb start cr2 context g (s, mtx) = None"
  by (simp add: exc_handler_def generic_exception_def page_fault_def protection_fault_def print_held heap_dump_def
      EXC_STATUS_FATAL_def EXC_STATUS_OK_def Let_def)

lemma panic_reported:
  assumes "report_env lit fb gb S (kmem s)" "exc_id x < 32" "\<not> held mtx"
  shows "\<exists>s' mtx'. panic (lit PANIC_BANNER) fb gb (lit UNHANDLED) (s\<lparr>kargs := [lit (exceptions ! unat (exc_id x)), exc_id x,
      c_eax x, c_ebx x, c_ecx x, c_edx x, c_esi x, c_edi x, c_ebp x, c_esp x, c_eip x]\<rparr>, mtx) = ret (s', mtx') \<and>
    kout s' = kout s @ ascii PANIC_BANNER @ unhandled_text x"
proof -
  have l: "PANIC_BANNER \<in> set report_literals" "UNHANDLED \<in> set report_literals" by (simp_all add: report_literals_def)
  have b: "37 \<notin> set (ascii PANIC_BANNER)" by (simp add: ascii_percent PANIC_BANNER_def nl_plain)
  have "strings_ok fb gb (kmem s) S" using assms(1) by (simp add: report_env_def)
  with panic_prints [where S = S, OF _ _ _ _ _ _ _ b, of "s\<lparr>kargs := [lit (exceptions ! unat (exc_id x)), exc_id x,
      c_eax x, c_ebx x, c_ecx x, c_edx x, c_esi x, c_edi x, c_ebp x, c_esp x, c_eip x]\<rparr>" "lit UNHANDLED" "ascii UNHANDLED"
      fb gb "lit PANIC_BANNER" "unhandled_text x" mtx]
  show ?thesis using literal_string [OF assms(1) l(1)] literal_string [OF assms(1) l(2)] unhandled_printed [OF assms(1,2)] assms(3)
    by simp
qed

lemma exc_handler_prints:
  assumes "report_env lit fb gb S (kmem s)" "heap_inv h bs" "hmem h = kmem s"
    "dumpable fb gb S (kmem s) (hdrs (unat (heap_start h)) bs)" "exc_id context < 32" "\<not> held mtx"
    and a: "a = (if exc_id context = 14 then cr2 else c_eip context)"
  shows "\<exists>s' mtx'. exc_handler lit fb gb (heap_start h) cr2 context g (s, mtx) =
      ret (Inr (\<lparr>fault_addr = a, fault_code = error_code context\<rparr>, s', mtx')) \<and>
    kout s' = kout s @ fault_text (exc_id context) a (error_code context) @ ascii DUMP_TITLE @
      dump_lines S (kmem s) (hdrs (unat (heap_start h)) bs) @ ascii PANIC_BANNER @ unhandled_text context"
proof -
  let ?ks = "hdrs (unat (heap_start h)) bs"
  let ?g = "\<lparr>fault_addr = a, fault_code = error_code context\<rparr>"
  have g: "(if exc_id context = EXC_PAGEFAULT then g\<lparr>fault_code := error_code context, fault_addr := c_eip context\<rparr>\<lparr>fault_addr := cr2\<rparr>
      else g\<lparr>fault_code := error_code context, fault_addr := c_eip context\<rparr>) = ?g"
    by (simp add: a EXC_PAGEFAULT_def)
  from generic_exception_printed [OF assms(1,6), of "exc_id context" ?g] obtain s1 mtx1 where 1:
    "generic_exception lit fb gb (exc_id context) ?g (s, mtx) = ret ((s1, mtx1), EXC_STATUS_FATAL)"
    "kout s1 = kout s @ fault_text (exc_id context) a (error_code context)" "same_outside fb gb (kmem s) (kmem s1)" "\<not> held mtx1"
    by (auto simp: printed_def)
  note d = dump_same [OF assms(4) 1(3)]
  have "heap_inv (h\<lparr>hmem := kmem s1\<rparr>) bs"
    using assms(2,3) seg_frame [OF d(3)] by (simp add: heap_inv_def)
  from heap_dump_printed [OF report_env_same [OF assms(1) 1(3)] this, of mtx1] d(1,2) 1(4) obtain s2 mtx2 where 2:
    "heap_dump lit fb gb (heap_start h) (s1, mtx1) = ret (s2, mtx2)"
    "kout s2 = kout s1 @ ascii DUMP_TITLE @ dump_lines S (kmem s) ?ks" "same_outside fb gb (kmem s1) (kmem s2)" "\<not> held mtx2"
    by (auto simp: printed_def)
  have "report_env lit fb gb S (kmem s2)" by (rule report_env_same [OF report_env_same [OF assms(1) 1(3)] 2(3)])
  from panic_reported [OF this assms(5) 2(4)] obtain s3 mtx3 where 3:
    "panic (lit PANIC_BANNER) fb gb (lit UNHANDLED) (s2\<lparr>kargs := [lit (exceptions ! unat (exc_id context)), exc_id context,
      c_eax context, c_ebx context, c_ecx context, c_edx context, c_esi context, c_edi context, c_ebp context, c_esp context,
      c_eip context]\<rparr>, mtx2) = ret (s3, mtx3)"
    "kout s3 = kout s2 @ ascii PANIC_BANNER @ unhandled_text context" by blast
  have i: "\<not> length exceptions \<le> unat (exc_id context)" "EXC_STATUS_FATAL \<noteq> EXC_STATUS_OK"
    using assms(5) by (simp_all add: exceptions_length word_less_nat_alt EXC_STATUS_FATAL_def EXC_STATUS_OK_def)
  have "exc_handler lit fb gb (heap_start h) cr2 context g (s, mtx) = ret (Inr (?g, s3, mtx3))"
    unfolding exc_handler_def Let_def g using i 1(1) 2(1) 3(1) by simp
  then show ?thesis using 1(2) 2(2) 3(2) by simp
qed

section \<open>Results\<close>

text \<open>
  C19: No exception is ever survived, and what is left of it is its report. With the string literals in memory, a
  heap whose headers form a list and have strings as descriptions, and the lock of \<open>kprintf\<close> free, the handler of each of
  the 32 exceptions prints what it knows of a page or protection fault, then one line per block of the heap, then
  the panic with the name of the exception and the registers, and halts. With the lock held, as when printing itself
  faults, it never returns and prints nothing.
\<close>

theorem exc_handler_reports:
  assumes "report_env lit fb gb S (kmem s)" "heap_inv h bs" "hmem h = kmem s"
    "dumpable fb gb S (kmem s) (hdrs (unat (heap_start h)) bs)" "exc_id context < 32"
    and "a = (if exc_id context = 14 then cr2 else c_eip context)"
  shows "if held mtx then exc_handler lit fb gb (heap_start h) cr2 context g (s, mtx) = None
    else \<exists>s' mtx'. exc_handler lit fb gb (heap_start h) cr2 context g (s, mtx) =
        ret (Inr (\<lparr>fault_addr = a, fault_code = error_code context\<rparr>, s', mtx')) \<and>
      kout s' = kout s @ fault_text (exc_id context) a (error_code context) @ ascii DUMP_TITLE @
        dump_lines S (kmem s) (hdrs (unat (heap_start h)) bs) @ ascii PANIC_BANNER @ unhandled_text context"
  using exc_handler_hangs exc_handler_prints [OF assms(1-5) _ assms(6)] by simp

text \<open>The literals one after the other at 0x10000, 512 bytes each, and a heap of one free block at 0x100000.\<close>

definition report_lit :: "string \<Rightarrow> addr" where
  "report_lit l = of_nat (0x10000 + 0x200 * length (takeWhile (\<lambda>x. x \<noteq> l) report_literals))"

definition literal_mem :: mem where
  "literal_mem a = (let i = (unat a - 0x10000) div 0x200; k = (unat a - 0x10000) mod 0x200
     in if 0x10000 \<le> unat a \<and> i < length report_literals \<and> k < length (report_literals ! i)
        then of_char (report_literals ! i ! k) else 0)"

definition report_strings :: "addr \<Rightarrow> u8 list option" where
  "report_strings a = (let i = (unat a - 0x10000) div 0x200
     in if 0x10000 \<le> unat a \<and> (unat a - 0x10000) mod 0x200 = 0 \<and> i < length report_literals
        then Some (ascii (report_literals ! i)) else None)"

definition report_heap :: heap_state where
  "report_heap = setup_heap \<lparr>heap_mtx = \<lparr>locked = 0, waiting = None\<rparr>, heap_start = 0, hmem = literal_mem\<rparr> 0x100000 0x1000"

lemma length_literals: "length report_literals = 48"
  by (simp add: report_literals_def exceptions_length)

lemma literal_short: "i < 48 \<Longrightarrow> length (report_literals ! i) < 0x1ff \<and> CHR 0x00 \<notin> set (report_literals ! i)"
proof -
  have "\<forall>l\<in>set report_literals. length l < 0x1ff \<and> CHR 0x00 \<notin> set l"
    by (simp add: report_literals_def exceptions_def DUMP_TITLE_def DUMP_LINE_def PAGE_FAULT_INFO_def PROTECTION_INFO_def
      PANIC_BANNER_def UNHANDLED_def nl_def)
  moreover assume "i < 48"
  then have "report_literals ! i \<in> set report_literals" by (intro nth_mem) (simp add: length_literals)
  ultimately show ?thesis by blast
qed

lemma slot_unat: "i < 48 \<Longrightarrow> k < 0x200 \<Longrightarrow> unat (of_nat (0x10000 + 0x200 * i) + of_nat k :: u32) = 0x10000 + 0x200 * i + k"
  by (subst unat_add_nowrap) (simp_all add: unat_of_nat_u32 del: of_nat_add of_nat_mult)

lemma slot_literal: "i < 48 \<Longrightarrow> cstr literal_mem (of_nat (0x10000 + 0x200 * i)) (ascii (report_literals ! i))"
proof -
  assume i: "i < 48"
  note s = literal_short [OF i]
  have m: "literal_mem (of_nat (0x10000 + 0x200 * i) + of_nat k) =
      (if k < length (report_literals ! i) then of_char (report_literals ! i ! k) else 0)" if "k < 0x200" for k
    unfolding literal_mem_def Let_def slot_unat [OF i that] using i that by (simp add: length_literals)
  have "(0 :: u8) \<notin> set (ascii (report_literals ! i))"
  proof
    assume "(0 :: u8) \<in> set (ascii (report_literals ! i))"
    then obtain c where c: "c \<in> set (report_literals ! i)" "of_char c = (0 :: u8)" by (auto simp: ascii_def)
    then have "unat (of_nat (of_char c) :: u8) = 0" by (simp add: of_nat_of_char)
    moreover have "of_char c < (256 :: nat)" by simp
    ultimately have "of_char c = (0 :: nat)" by (simp add: unat_of_nat)
    then have "(of_char c :: nat) = of_char (CHR 0x00)" by simp
    then have "c = CHR 0x00" by (simp only: of_char_eq_iff)
    with c(1) s show False by simp
  qed
  with s m show ?thesis unfolding cstr_index by (simp add: ascii_def)
qed

lemma takeWhile_shorter: "l \<in> set xs \<Longrightarrow> length (takeWhile (\<lambda>x. x \<noteq> l) xs) < length xs"
  by (induction xs) auto

lemma report_env_heap:
  "report_env report_lit 0x30000 0x40000 report_strings (hmem report_heap)"
proof -
  have out: "outside 0x30000 0x40000 p n" if "unat p + n \<le> 0x30000" for p n
    using that unfolding outside_def by (simp add: in_range_interval)
  have str: "cstr (hmem report_heap) a t \<and> length t < 4294967296 \<and> outside 0x30000 0x40000 a (Suc (length t))"
    if a: "report_strings a = Some t" for a t
  proof -
    define i where "i = (unat a - 0x10000) div 0x200"
    have i: "i < 48" "t = ascii (report_literals ! i)" "0x10000 \<le> unat a" "(unat a - 0x10000) mod 0x200 = 0"
      using a by (auto simp: report_strings_def Let_def i_def length_literals split: if_splits)
    then have u: "unat a = 0x10000 + 0x200 * i" by (simp add: i_def mod_0_imp_dvd)
    then have "a = of_nat (0x10000 + 0x200 * i)" by (metis of_nat_unat_u32)
    then have c: "cstr literal_mem a t" using slot_literal [OF i(1)] i(2) by simp
    have l: "length t < 0x1ff" using literal_short [OF i(1)] i(2) by simp
    have "hmem report_heap x = literal_mem x" if "in_range x a (Suc (length t))" for x
    proof -
      have "\<not> in_range x 0x100000 24" using that u i(1) l by (simp add: in_range_interval)
      then show ?thesis by (simp add: report_heap_def setup_heap_frame)
    qed
    then have "cstr (hmem report_heap) a t" using c cstr_cong [of a t "hmem report_heap" literal_mem] l by simp
    then show ?thesis using l u i(1) by (auto intro!: out)
  qed
  have "report_strings (report_lit l) = Some (ascii l) \<and> report_lit l \<noteq> 0" if "l \<in> set report_literals" for l
  proof -
    let ?i = "length (takeWhile (\<lambda>x. x \<noteq> l) report_literals)"
    have "?i < length report_literals" using that by (rule takeWhile_shorter)
    then have i: "?i < 48" "report_literals ! ?i = l" using nth_length_takeWhile [of "\<lambda>x. x \<noteq> l" report_literals] by (auto simp: length_literals)
    have u: "unat (report_lit l) = 0x10000 + 0x200 * ?i" using slot_unat [OF i(1), of 0] by (simp add: report_lit_def)
    then have "report_lit l \<noteq> 0" by (metis add_is_0 unat_0 zero_neq_numeral)
    with u i show ?thesis by (simp add: report_strings_def Let_def length_literals)
  qed
  with str show ?thesis by (simp add: report_env_def strings_ok_def)
qed

theorem exc_handler_reports_witness:
  "\<exists>s' mtx'. exc_handler report_lit 0x30000 0x40000 0x100000 0xdeadbeef
      \<lparr>exc_id = 14, c_edi = 0, c_esi = 0, c_ebp = 0, c_esp = 0, c_ebx = 0, c_edx = 0, c_ecx = 0, c_eax = 0, c_gs = 0, c_fs = 0,
        c_es = 0, c_ds = 0, error_code = 2, c_eip = 0x1000\<rparr> \<lparr>fault_addr = 0, fault_code = 0\<rparr>
      (\<lparr>kmem = hmem report_heap, kout = [], kargs = []\<rparr>, \<lparr>locked = 0, waiting = None\<rparr>) =
    ret (Inr (\<lparr>fault_addr = 0xdeadbeef, fault_code = 2\<rparr>, s', mtx'))"
proof -
  have h: "heap_start report_heap = 0x100000" "heap_inv report_heap [Block True 4072]"
    using setup_heap_seg [of "0x100000" "0x1000" "\<lparr>heap_mtx = \<lparr>locked = 0, waiting = None\<rparr>, heap_start = 0, hmem = literal_mem\<rparr>"]
    by (simp_all add: report_heap_def)
  have "outside 0x30000 0x40000 (ad 0x100000) 24"
    unfolding outside_def by (simp add: in_range_interval)
  moreover have "description (get_entry (hmem report_heap) (ad 0x100000)) = 0"
    by (simp add: report_heap_def setup_heap_def Let_def ad_def)
  ultimately have d: "dumpable 0x30000 0x40000 report_strings (hmem report_heap) (hdrs (unat (heap_start report_heap)) [Block True 4072])"
    by (simp add: dumpable_def h)
  show ?thesis
    using exc_handler_reports [of report_lit "0x30000" "0x40000" report_strings "\<lparr>kmem = hmem report_heap, kout = [], kargs = []\<rparr>"
        report_heap "[Block True 4072]" "\<lparr>exc_id = 14, c_edi = 0, c_esi = 0, c_ebp = 0, c_esp = 0, c_ebx = 0, c_edx = 0, c_ecx = 0,
          c_eax = 0, c_gs = 0, c_fs = 0, c_es = 0, c_ds = 0, error_code = 2, c_eip = 0x1000\<rparr>" "0xdeadbeef" "0xdeadbeef"
        "\<lparr>locked = 0, waiting = None\<rparr>" "\<lparr>fault_addr = 0, fault_code = 0\<rparr>"] report_env_heap h d
    by (auto simp: held_def)
qed

end
