(* ===== verification/Mmap.thy ===== *)
theory Mmap
  imports Allocator Errno
begin

text \<open>
  Address-space regions: \<open>kernel/include/mmap.h\<close> and \<open>kernel/memory/mmap.c\<close>. A \<open>struct mm_struct\<close> holds
  a pointer to its page tables and the head of a doubly linked list of \<open>struct mmr_struct\<close>, all in the
  kernel heap; the model reads and writes them in flat memory at the C offsets. The invariant says that the
  list in memory is a given list of regions that do not overlap, and the results say when it is kept.
\<close>

section \<open>Regions\<close>

record mmr_struct =
  r_start :: addr
  r_end :: addr
  r_size :: u32
  r_flags :: u32
  prev_region :: addr
  next_region :: addr

definition MMR_USER :: u32 where "MMR_USER = BIT 0"
definition MMR_RDWR :: u32 where "MMR_RDWR = BIT 1"
definition MMR_READONLY :: u32 where "MMR_READONLY = BIT 2"
definition MMR_SUPV :: u32 where "MMR_SUPV = BIT 3"
definition MMR_EXEC :: u32 where "MMR_EXEC = BIT 4"

definition get_region :: "mem \<Rightarrow> addr \<Rightarrow> mmr_struct" where
  "get_region m a = \<lparr>r_start = load32 m a, r_end = load32 m (a + 4), r_size = load32 m (a + 8),
     r_flags = load32 m (a + 12), prev_region = load32 m (a + 16), next_region = load32 m (a + 20)\<rparr>"

definition set_r_start :: "mem \<Rightarrow> addr \<Rightarrow> addr \<Rightarrow> mem" where "set_r_start m a v = store32 m a v"
definition set_r_end :: "mem \<Rightarrow> addr \<Rightarrow> addr \<Rightarrow> mem" where "set_r_end m a v = store32 m (a + 4) v"
definition set_r_size :: "mem \<Rightarrow> addr \<Rightarrow> u32 \<Rightarrow> mem" where "set_r_size m a v = store32 m (a + 8) v"
definition set_r_flags :: "mem \<Rightarrow> addr \<Rightarrow> u32 \<Rightarrow> mem" where "set_r_flags m a v = store32 m (a + 12) v"
definition set_prev :: "mem \<Rightarrow> addr \<Rightarrow> addr \<Rightarrow> mem" where "set_prev m a v = store32 m (a + 16) v"
definition set_nextr :: "mem \<Rightarrow> addr \<Rightarrow> addr \<Rightarrow> mem" where "set_nextr m a v = store32 m (a + 20) v"

lemmas set_r_defs = set_r_start_def set_r_end_def set_r_size_def set_r_flags_def set_prev_def set_nextr_def

text \<open>\<open>struct mm_struct\<close>: \<open>tables\<close> at offset 0, \<open>user_regions\<close> at offset 4.\<close>

definition user_regions :: "mem \<Rightarrow> addr \<Rightarrow> addr" where "user_regions m mm = load32 m (mm + 4)"
definition set_user_regions :: "mem \<Rightarrow> addr \<Rightarrow> addr \<Rightarrow> mem" where "set_user_regions m mm v = store32 m (mm + 4) v"

section \<open>Operations\<close>

partial_function (option) mm_conflicts :: "mem \<Rightarrow> addr \<Rightarrow> addr \<Rightarrow> addr \<Rightarrow> bool exec" where
  "mm_conflicts m region start stop =
     (if region \<noteq> 0
      then let r = get_region m region
           in if r_start r \<le> start \<and> start < r_end r then ret True
              else if r_start r < stop \<and> stop \<le> r_end r then ret True
              else if start \<le> r_start r \<and> r_end r \<le> stop then ret True
              else mm_conflicts m (next_region r) start stop
      else ret False)"

text \<open>Both functions that enter a region into the list do it with the same code.\<close>

definition push_region :: "mem \<Rightarrow> addr \<Rightarrow> addr \<Rightarrow> mem" where
  "push_region m mm region =
     (let existing = user_regions m mm;
          m = set_user_regions m mm region
      in if existing \<noteq> 0 then let m = set_prev m existing region in set_nextr m region existing else m)"

definition mm_mk_region :: "heap_state \<Rightarrow> addr \<Rightarrow> addr \<Rightarrow> addr \<Rightarrow> u32 \<Rightarrow> addr \<Rightarrow> (heap_state \<times> addr) exec" where
  "mm_mk_region h mm start stop flags descr =
     bindX (mm_conflicts (hmem h) (user_regions (hmem h) mm) start stop) (\<lambda>c.
     if c then ret (h, 0)
     else bindX (kmalloc h 24 1 descr) (\<lambda>(h, region).
       let m = set_r_start (hmem h) region start;
           m = set_r_size m region (stop - start);
           m = set_r_end m region stop;
           m = set_r_flags m region flags;
           m = set_nextr m region 0;
           m = set_prev m region 0
       in ret (h\<lparr>hmem := push_region m mm region\<rparr>, region)))"

partial_function (option) mm_find_loop :: "mem \<Rightarrow> addr \<Rightarrow> addr \<Rightarrow> addr exec" where
  "mm_find_loop m region a =
     (if region \<noteq> 0
      then if r_start (get_region m region) \<le> a \<and> a < r_end (get_region m region) then ret region
           else mm_find_loop m (next_region (get_region m region)) a
      else ret 0)"

definition mm_find_region :: "mem \<Rightarrow> addr \<Rightarrow> addr \<Rightarrow> addr exec" where
  "mm_find_region m mm a = mm_find_loop m (user_regions m mm) a"

text \<open>
  The unlinking code of \<open>mm_del_region\<close> and \<open>mm_mod_region\<close>, through the null pointer at either end of the
  list as the code does it.
\<close>

definition unlink_region :: "mem \<Rightarrow> addr \<Rightarrow> mem" where
  "unlink_region m region =
     (let m = set_nextr m (prev_region (get_region m region)) (next_region (get_region m region))
      in set_prev m (next_region (get_region m region)) (prev_region (get_region m region)))"

definition mm_del_region :: "heap_state \<Rightarrow> addr \<Rightarrow> addr \<Rightarrow> heap_state exec" where
  "mm_del_region h mm region =
     (let h = h\<lparr>hmem := unlink_region (hmem h) region\<rparr>
      in bindX (ASSERT False) (\<lambda>_. kfree h region))"

definition mm_mod_region :: "heap_state \<Rightarrow> addr \<Rightarrow> addr \<Rightarrow> addr \<Rightarrow> addr \<Rightarrow> u32 \<Rightarrow> (heap_state \<times> s32) exec" where
  "mm_mod_region h mm region new_start new_end new_flags =
     (let m = unlink_region (hmem h) region
      in bindX (mm_conflicts m (user_regions m mm) new_start new_end) (\<lambda>c.
         if c then ret (h\<lparr>hmem := m\<rparr>, - ECONFLICT)
         else
           let m = set_r_start m region new_start;
               m = set_r_end m region new_end;
               m = set_r_size m region (new_end - new_start);
               m = set_nextr m region 0;
               m = set_prev m region 0;
               m = set_r_flags m region new_flags;
               m = push_region m mm region
           in bindX (ASSERT False) (\<lambda>_. ret (h\<lparr>hmem := m\<rparr>, 0))))"

section \<open>Reading regions over writes\<close>

lemma get_region_get_entry:
  "get_region m a = (let e = get_entry m a in \<lparr>r_start = available e, r_end = e_size e, r_size = e_start e,
     r_flags = e_next e, prev_region = e_previous e, next_region = description e\<rparr>)"
  by (simp add: get_region_def get_entry_def)

text \<open>The two structures have the same shape, six words: the laws of heap headers carry over.\<close>

lemma set_r_as_entry:
  "set_r_start = set_available" "set_r_end = set_size" "set_r_size = set_start" "set_r_flags = set_next"
  "set_prev = set_previous" "set_nextr = set_description"
  by (simp_all add: fun_eq_iff set_r_defs set_defs)

lemma get_region_cong: "(\<And>x. in_range x a 24 \<Longrightarrow> m x = m' x) \<Longrightarrow> get_region m a = get_region m' a"
  using get_entry_cong [of a m m'] by (simp add: get_region_get_entry)

lemma get_region_set_same [simp, mem_simps]:
  "get_region (set_r_start m a v) a = (get_region m a)\<lparr>r_start := v\<rparr>"
  "get_region (set_r_end m a v) a = (get_region m a)\<lparr>r_end := v\<rparr>"
  "get_region (set_r_size m a v) a = (get_region m a)\<lparr>r_size := v\<rparr>"
  "get_region (set_r_flags m a v) a = (get_region m a)\<lparr>r_flags := v\<rparr>"
  "get_region (set_prev m a v) a = (get_region m a)\<lparr>prev_region := v\<rparr>"
  "get_region (set_nextr m a v) a = (get_region m a)\<lparr>next_region := v\<rparr>"
  by (simp_all add: set_r_as_entry get_region_get_entry Let_def)

lemma get_region_set_other [mem_simps]:
  assumes "apart a b"
  shows "get_region (set_r_start m a v) b = get_region m b" "get_region (set_r_end m a v) b = get_region m b"
    "get_region (set_r_size m a v) b = get_region m b" "get_region (set_r_flags m a v) b = get_region m b"
    "get_region (set_prev m a v) b = get_region m b" "get_region (set_nextr m a v) b = get_region m b"
  using assms by (simp_all add: set_r_as_entry get_region_get_entry heap_simps)

lemma set_r_other_byte [mem_simps]:
  assumes "\<not> in_range x a 24"
  shows "set_r_start m a v x = m x" "set_r_end m a v x = m x" "set_r_size m a v x = m x"
    "set_r_flags m a v x = m x" "set_prev m a v x = m x" "set_nextr m a v x = m x"
  using assms by (simp_all add: set_r_as_entry heap_simps)

lemma set_user_regions_other: "\<not> in_range x mm 8 \<Longrightarrow> set_user_regions m mm v x = m x"
  unfolding set_user_regions_def using in_range_offset [of x mm 4 4 8] by (intro store32_other) auto

lemma user_regions_cong: "(\<And>x. in_range x mm 8 \<Longrightarrow> m x = m' x) \<Longrightarrow> user_regions m mm = user_regions m' mm"
  unfolding user_regions_def using in_range_offset [of _ mm 4 4 8] by (intro load32_cong) auto

lemma user_regions_set [simp]: "user_regions (set_user_regions m mm v) mm = v"
  by (simp add: user_regions_def set_user_regions_def)

section \<open>The list of regions\<close>

datatype region = Region (at: addr) (lo: addr) (hi: addr) (fl: u32)

primrec rlist :: "mem \<Rightarrow> addr \<Rightarrow> addr \<Rightarrow> region list \<Rightarrow> bool" where
  "rlist m q p [] = (p = 0)"
| "rlist m q p (r # rs) = (p \<noteq> 0 \<and> p = at r \<and>
     r_start (get_region m p) = lo r \<and> r_end (get_region m p) = hi r \<and>
     r_size (get_region m p) = hi r - lo r \<and> r_flags (get_region m p) = fl r \<and> prev_region (get_region m p) = q \<and>
     rlist m p (next_region (get_region m p)) rs)"

definition overlaps :: "addr \<Rightarrow> addr \<Rightarrow> region \<Rightarrow> bool" where
  "overlaps start stop r \<longleftrightarrow> lo r < stop \<and> start < hi r"

lemma overlaps_tests:
  assumes "lo r < hi r" "start < stop"
  shows "overlaps start stop r \<longleftrightarrow> lo r \<le> start \<and> start < hi r \<or> lo r < stop \<and> stop \<le> hi r \<or> start \<le> lo r \<and> hi r \<le> stop"
  using assms unfolding overlaps_def by (simp add: word_less_nat_alt word_le_nat_alt) linarith

lemma mm_conflicts_rlist:
  assumes "rlist m q p rs" "\<forall>r\<in>set rs. lo r < hi r" "start < stop"
  shows "mm_conflicts m p start stop = ret (\<exists>r\<in>set rs. overlaps start stop r)"
  using assms
proof (induction rs arbitrary: q p)
  case Nil
  then show ?case by (subst mm_conflicts.simps) simp
next
  case (Cons r rs)
  let ?g = "get_region m p"
  have g: "r_start ?g = lo r" "r_end ?g = hi r" "p \<noteq> 0" "rlist m p (next_region ?g) rs"
    using Cons.prems(1) by auto
  have "mm_conflicts m (next_region ?g) start stop = ret (\<exists>r\<in>set rs. overlaps start stop r)"
    using Cons.IH [OF g(4)] Cons.prems by simp
  then show ?case using g overlaps_tests [of r start stop] Cons.prems
    by (subst mm_conflicts.simps) (auto simp: Let_def)
qed

lemma mm_find_rlist:
  "rlist m q p rs \<Longrightarrow>
   mm_find_loop m p a = ret (case find (\<lambda>r. lo r \<le> a \<and> a < hi r) rs of None \<Rightarrow> 0 | Some r \<Rightarrow> at r)"
proof (induction rs arbitrary: q p)
  case Nil
  then show ?case by (subst mm_find_loop.simps) simp
next
  case (Cons r rs)
  let ?g = "get_region m p"
  have g: "r_start ?g = lo r" "r_end ?g = hi r" "p \<noteq> 0" "p = at r" "rlist m p (next_region ?g) rs"
    using Cons.prems(1) by auto
  from Cons.IH [OF g(5)] g show ?case by (subst mm_find_loop.simps) simp
qed

lemma rlist_frame:
  "rlist m q p rs \<Longrightarrow> (\<And>r. r \<in> set rs \<Longrightarrow> get_region m' (at r) = get_region m (at r)) \<Longrightarrow> rlist m' q p rs"
  by (induction rs arbitrary: q p) auto

section \<open>The invariant\<close>

text \<open>
  The bytes a region structure occupies, and the ownership of a list of them: the structures lie in the
  bytes \<open>U\<close>, no two of them share one.
\<close>

definition fp :: "addr \<Rightarrow> nat set" where "fp a = {unat a..<unat a + 24}"

primrec owned :: "nat set \<Rightarrow> region list \<Rightarrow> bool" where
  "owned U [] = True"
| "owned U (r # rs) = (fp (at r) \<subseteq> U \<and> owned (U - fp (at r)) rs)"

lemma owned_mono: "owned U rs \<Longrightarrow> U \<subseteq> V \<Longrightarrow> owned V rs"
proof (induction rs arbitrary: U V)
  case (Cons r rs)
  have "U - fp (at r) \<subseteq> V - fp (at r)" using Cons.prems by blast
  with Cons show ?case by auto
qed simp

lemma owned_fp: "owned U rs \<Longrightarrow> r \<in> set rs \<Longrightarrow> fp (at r) \<subseteq> U"
  by (induction rs arbitrary: U) auto

lemma interval_le: "{a..<a + w} \<subseteq> {..<b :: nat} \<Longrightarrow> 0 < w \<Longrightarrow> a + w \<le> b"
  using ivl_subset [of a "a + w" 0 b] by (simp add: lessThan_atLeast0)

lemma interval_disjoint:
  assumes "{a..<a + w} \<inter> {b..<b + v :: nat} = {}" "0 < w" "0 < v"
  shows "a + w \<le> b \<or> b + v \<le> a"
proof (rule ccontr)
  assume "\<not> ?thesis"
  then have "max a b \<in> {a..<a + w} \<inter> {b..<b + v}" using assms by auto
  with assms show False by blast
qed

lemma fp_range: "fp a \<subseteq> {..<4294967296} \<Longrightarrow> in_range x a 24 \<longleftrightarrow> unat x \<in> fp a"
proof -
  assume "fp a \<subseteq> {..<4294967296}"
  then have "unat a + 24 \<le> 4294967296" unfolding fp_def by (rule interval_le) simp
  then show ?thesis by (simp add: fp_def in_range_interval)
qed

lemma in_range_fp: "in_range x a 24 \<Longrightarrow> fp a \<subseteq> U \<Longrightarrow> U \<subseteq> {..<4294967296} \<Longrightarrow> unat x \<in> U"
  using fp_range [of a x] by blast

lemma fp_apart: "fp a \<inter> fp b = {} \<Longrightarrow> fp a \<subseteq> {..<4294967296} \<Longrightarrow> fp b \<subseteq> {..<4294967296} \<Longrightarrow> apart a b"
proof -
  assume "fp a \<inter> fp b = {}" and "fp a \<subseteq> {..<4294967296}" and "fp b \<subseteq> {..<4294967296}"
  then have "unat a + 24 \<le> unat b \<or> unat b + 24 \<le> unat a" "unat a + 24 \<le> 4294967296" "unat b + 24 \<le> 4294967296"
    unfolding fp_def by (simp_all add: interval_disjoint interval_le)
  then show ?thesis using apart_ad [of "unat a" "unat b"] apart_ad [of "unat b" "unat a"] by auto
qed

primrec disjoint_regions :: "region list \<Rightarrow> bool" where
  "disjoint_regions [] = True"
| "disjoint_regions (r # rs) =
     (lo r < hi r \<and> (\<forall>s\<in>set rs. \<not> overlaps (lo r) (hi r) s) \<and> disjoint_regions rs)"

lemma disjoint_regions_nonempty: "disjoint_regions rs \<Longrightarrow> r \<in> set rs \<Longrightarrow> lo r < hi r"
  by (induction rs) auto

definition mm_bytes :: "addr \<Rightarrow> nat set" where "mm_bytes mm = {unat mm..<unat mm + 8}"

definition mm_inv :: "heap_state \<Rightarrow> addr \<Rightarrow> region list \<Rightarrow> block list \<Rightarrow> bool" where
  "mm_inv h mm rs bs \<longleftrightarrow> kheap_wf h bs \<and> mm_bytes mm \<subseteq> kheap_used h bs \<and>
     owned (kheap_used h bs - mm_bytes mm) rs \<and>
     rlist (hmem h) 0 (user_regions (hmem h) mm) rs \<and> disjoint_regions rs"

lemma kheap_used_lt: "kheap_wf h bs \<Longrightarrow> kheap_used h bs \<subseteq> {..<4294967296}"
  using heap_inv_bounds [of h bs] used_bytes_bounds [of _ "unat (heap_start h)" bs]
  by (fastforce simp: kheap_wf_def kheap_used_def)

section \<open>Entering a region\<close>

text \<open>What the code writes to the list, over a memory that holds a fresh structure at \<open>p\<close>.\<close>

lemma push_region_byte:
  assumes "\<not> in_range x mm 8" "\<not> in_range x p 24"
    "user_regions m mm \<noteq> 0 \<Longrightarrow> \<not> in_range x (user_regions m mm) 24"
  shows "push_region m mm p x = m x"
  using assms by (simp add: push_region_def Let_def mem_simps set_user_regions_other)

lemma push_region_rlist:
  assumes l: "rlist m 0 (user_regions m mm) rs" and o: "owned U rs"
    and U: "U \<subseteq> {..<4294967296}" "U \<inter> mm_bytes mm = {}" "U \<inter> fp p = {}"
    and mm: "mm_bytes mm \<subseteq> {..<4294967296}" and p: "fp p \<subseteq> {..<4294967296}" "mm_bytes mm \<inter> fp p = {}" "p \<noteq> 0"
    and new: "get_region m p = \<lparr>r_start = s, r_end = e, r_size = e - s, r_flags = f, prev_region = 0, next_region = 0\<rparr>"
  shows "rlist (push_region m mm p) 0 (user_regions (push_region m mm p) mm) (Region p s e f # rs)"
proof -
  let ?m = "push_region m mm p" and ?h = "user_regions m mm"
  have in_mm: "in_range x mm 8 \<longleftrightarrow> unat x \<in> mm_bytes mm" for x
  proof -
    have "unat mm + 8 \<le> 4294967296" using mm unfolding mm_bytes_def by (rule interval_le) simp
    then show ?thesis by (simp add: mm_bytes_def in_range_interval)
  qed
  define m1 where "m1 = set_user_regions m mm p"
  have m1: "get_region m1 a = get_region m a" if "fp a \<subseteq> {..<4294967296}" "fp a \<inter> mm_bytes mm = {}" for a
  proof (rule get_region_cong)
    fix x assume "in_range x a 24"
    with that have "\<not> in_range x mm 8" by (auto simp: fp_range in_mm)
    then show "m1 x = m x" by (simp add: m1_def set_user_regions_other)
  qed
  have up: "user_regions ?m mm = p"
  proof (cases "?h = 0")
    case True
    then show ?thesis by (simp add: push_region_def)
  next
    case False
    then obtain r rs' where rs: "rs = r # rs'" "?h = at r" using l by (cases rs) auto
    then have "fp ?h \<subseteq> U" using o by simp
    have "user_regions ?m mm = user_regions m1 mm"
    proof (rule user_regions_cong)
      fix x assume "in_range x mm 8"
      then have "unat x \<in> mm_bytes mm" by (simp add: in_mm)
      then have "\<not> in_range x p 24" "\<not> in_range x ?h 24"
        using p U \<open>fp ?h \<subseteq> U\<close> by (auto simp: fp_range dest: subset_trans)
      with False show "?m x = m1 x" by (simp add: push_region_def Let_def m1_def mem_simps)
    qed
    then show ?thesis by (simp add: m1_def)
  qed
  show ?thesis
  proof (cases rs)
    case Nil
    with l have "?m = m1" by (simp add: push_region_def m1_def)
    with up Nil p new m1 [of p] show ?thesis by (simp add: Int_commute)
  next
    case (Cons r rs')
    with l have h: "?h = at r" "?h \<noteq> 0" by auto
    from Cons o have fr: "fp (at r) \<subseteq> U" "owned (U - fp (at r)) rs'" by auto
    have a: "apart p (at r)" "apart (at r) p"
      using p U fr by (auto intro!: fp_apart)
    have m: "?m = set_nextr (set_prev m1 (at r) p) p (at r)"
      using h by (simp add: push_region_def m1_def Let_def)
    have gp: "get_region ?m p = \<lparr>r_start = s, r_end = e, r_size = e - s, r_flags = f, prev_region = 0, next_region = at r\<rparr>"
      using a new m1 [of p] p by (simp add: m mem_simps Int_commute)
    have "get_region m1 (at r) = get_region m (at r)" using fr U by (intro m1) auto
    then have gr: "get_region ?m (at r) = (get_region m (at r))\<lparr>prev_region := p\<rparr>"
      using a by (simp add: m mem_simps)
    have rest: "get_region ?m (at r') = get_region m (at r')" if r': "r' \<in> set rs'" for r'
    proof -
      have f: "fp (at r') \<subseteq> U - fp (at r)" by (rule owned_fp [OF fr(2) r'])
      then have "apart (at r) (at r')" "apart p (at r')"
        using p U fr by (auto intro!: fp_apart)
      moreover have "get_region m1 (at r') = get_region m (at r')" using f U by (intro m1) auto
      ultimately show ?thesis by (simp add: m mem_simps)
    qed
    have "rlist m (at r) (next_region (get_region m (at r))) rs'" using l Cons h by simp
    then have "rlist ?m (at r) (next_region (get_region m (at r))) rs'" by (rule rlist_frame) (rule rest)
    with l Cons h gp gr up p(3) show ?thesis by simp
  qed
qed

definition fill_region :: "mem \<Rightarrow> addr \<Rightarrow> addr \<Rightarrow> addr \<Rightarrow> u32 \<Rightarrow> mem" where
  "fill_region m p start stop flags =
     set_prev (set_nextr (set_r_flags (set_r_end (set_r_size (set_r_start m p start) p (stop - start)) p stop) p flags) p 0) p 0"

lemma fill_region_simps:
  "get_region (fill_region m p s e f) p =
     \<lparr>r_start = s, r_end = e, r_size = e - s, r_flags = f, prev_region = 0, next_region = 0\<rparr>"
  "\<not> in_range x p 24 \<Longrightarrow> fill_region m p s e f x = m x"
  by (simp_all add: fill_region_def mem_simps)

text \<open>The region list depends on the bytes in use only.\<close>

lemma mm_inv_list_cong:
  assumes "mm_inv h mm rs bs" and same: "\<And>x. unat x \<in> kheap_used h bs \<Longrightarrow> m x = hmem h x"
  shows "user_regions m mm = user_regions (hmem h) mm" "rlist m 0 (user_regions m mm) rs"
proof -
  have wf: "kheap_wf h bs" and b: "mm_bytes mm \<subseteq> kheap_used h bs" and o: "owned (kheap_used h bs - mm_bytes mm) rs"
    using assms(1) by (auto simp: mm_inv_def)
  note lt = kheap_used_lt [OF wf]
  have "unat mm + 8 \<le> 4294967296" using b lt unfolding mm_bytes_def by (intro interval_le) (auto intro: subset_trans)
  then have "unat x \<in> mm_bytes mm" if "in_range x mm 8" for x
    using that by (simp add: mm_bytes_def in_range_interval)
  then show u: "user_regions m mm = user_regions (hmem h) mm"
    using b same by (intro user_regions_cong) auto
  show "rlist m 0 (user_regions m mm) rs"
    unfolding u
  proof (rule rlist_frame)
    show "rlist (hmem h) 0 (user_regions (hmem h) mm) rs" using assms(1) by (simp add: mm_inv_def)
    fix r assume "r \<in> set rs"
    from owned_fp [OF o this] have "fp (at r) \<subseteq> kheap_used h bs" by blast
    then show "get_region m (at r) = get_region (hmem h) (at r)"
      using same in_range_fp [OF _ _ lt] by (intro get_region_cong) blast
  qed
qed

lemma mm_mk_region_enters:
  fixes flags :: u32
  assumes inv: "mm_inv h mm rs bs" and new: "start < stop" "\<not> (\<exists>r\<in>set rs. overlaps start stop r)"
    and alloc: "kmalloc h 24 1 d = ret (h1, p)" "p \<noteq> 0"
  defines "m \<equiv> push_region (fill_region (hmem h1) p start stop flags) mm p"
  shows "\<exists>bs'. mm_inv (h1\<lparr>hmem := m\<rparr>) mm (Region p start stop flags # rs) bs'"
proof -
  let ?U = "kheap_used h bs" and ?f = "fill_region (hmem h1) p start stop flags"
  have wf: "kheap_wf h bs" and b: "mm_bytes mm \<subseteq> ?U" and o: "owned (?U - mm_bytes mm) rs" and d: "disjoint_regions rs"
    using inv by (auto simp: mm_inv_def)
  note lt = kheap_used_lt [OF wf]
  obtain bs1 where bs1: "kheap_wf h1 bs1" "fp p \<subseteq> kheap_used h1 bs1" "fp p \<inter> ?U = {}"
    "\<forall>x. unat x \<in> ?U \<longrightarrow> hmem h1 x = hmem h x"
    using kheap.alloc_ok [OF wf, of 24 d] alloc unfolding fp_def by auto
  note p = subset_trans [OF bs1(2) kheap_used_lt [OF bs1(1)]]
  have fU: "?f x = hmem h x" if "unat x \<in> ?U" for x
    using that bs1(3,4) by (subst fill_region_simps) (auto simp: fp_range [OF p])
  have l: "user_regions ?f mm = user_regions (hmem h) mm" "rlist ?f 0 (user_regions ?f mm) rs"
    using fU by (intro mm_inv_list_cong [OF inv]; simp)+
  have head: "fp (user_regions (hmem h) mm) \<subseteq> ?U" if "user_regions (hmem h) mm \<noteq> 0"
    using that inv o by (cases rs) (auto simp: mm_inv_def)
  have "m x = hmem h1 x" if x: "unat x \<notin> {unat p..<unat p + unat (24 :: u32)} \<union> ?U" for x
  proof -
    have mb: "unat mm + 8 \<le> 4294967296" using b lt unfolding mm_bytes_def by (intro interval_le) (auto intro: subset_trans)
    have "\<not> in_range x mm 8" "\<not> in_range x p 24"
      using x b mb by (auto simp: fp_range [OF p] fp_def mm_bytes_def in_range_interval)
    moreover have "\<not> in_range x (user_regions ?f mm) 24" if "user_regions ?f mm \<noteq> 0"
    proof -
      have "fp (user_regions ?f mm) \<subseteq> ?U" using that head unfolding l(1) by blast
      from in_range_fp [OF _ this lt] x show ?thesis by blast
    qed
    ultimately show ?thesis unfolding m_def by (simp add: push_region_byte fill_region_simps)
  qed
  then obtain bs' where "kheap_wf (h1\<lparr>hmem := m\<rparr>) bs'"
    "{unat p..<unat p + unat (24 :: u32)} \<subseteq> kheap_used (h1\<lparr>hmem := m\<rparr>) bs'" "?U \<subseteq> kheap_used (h1\<lparr>hmem := m\<rparr>) bs'"
    by (rule kheap.alloc_fill [OF wf alloc])
  then have bs': "kheap_wf (h1\<lparr>hmem := m\<rparr>) bs'"
    "fp p \<subseteq> kheap_used (h1\<lparr>hmem := m\<rparr>) bs'" "?U \<subseteq> kheap_used (h1\<lparr>hmem := m\<rparr>) bs'"
    by (simp_all add: fp_def)
  have "rlist m 0 (user_regions m mm) (Region p start stop flags # rs)" unfolding m_def
    by (rule push_region_rlist [OF l(2) o]) (use b lt bs1(3) p alloc(2) fill_region_simps in auto)
  moreover have "owned (kheap_used (h1\<lparr>hmem := m\<rparr>) bs' - mm_bytes mm) (Region p start stop flags # rs)"
    using bs' bs1(3) b owned_mono [OF o, of "kheap_used (h1\<lparr>hmem := m\<rparr>) bs' - mm_bytes mm - fp p"] by auto
  moreover have "disjoint_regions (Region p start stop flags # rs)" using new d by simp
  ultimately show ?thesis using bs' b by (auto simp: mm_inv_def)
qed

text \<open>
  C13: \<open>mm_mk_region\<close> returns null, and changes nothing, exactly when the new region overlaps one of the
  list. Else it enters the region at the head: memory then holds the longer list, correctly linked, of regions that do
  not overlap, in structures that the heap has handed out and that share no byte. This needs the allocation of the
  structure to succeed: the code does not test its result.
\<close>

theorem mm_mk_region_spec:
  assumes "mm_inv h mm rs bs" "start < stop" "kmalloc h 24 1 descr = ret (h1, p)" "p \<noteq> 0"
  shows "if \<exists>r\<in>set rs. overlaps start stop r then mm_mk_region h mm start stop flags descr = ret (h, 0)
    else \<exists>h' bs'. mm_mk_region h mm start stop flags descr = ret (h', p) \<and>
           mm_inv h' mm (Region p start stop flags # rs) bs'"
proof -
  have "mm_conflicts (hmem h) (user_regions (hmem h) mm) start stop = ret (\<exists>r\<in>set rs. overlaps start stop r)"
    using assms(1) disjoint_regions_nonempty
    by (intro mm_conflicts_rlist [OF _ _ assms(2), of _ 0]) (auto simp: mm_inv_def)
  then have "mm_mk_region h mm start stop flags descr =
      (if \<exists>r\<in>set rs. overlaps start stop r then ret (h, 0)
       else ret (h1\<lparr>hmem := push_region (fill_region (hmem h1) p start stop flags) mm p\<rparr>, p))"
    using assms(3) by (simp add: mm_mk_region_def fill_region_def Let_def)
  then show ?thesis using mm_mk_region_enters [OF assms(1,2) _ assms(3,4), of flags] by auto
qed

lemma demo_mm:
  obtains h p h1 where "mm_inv h 4120 [] [Block False 8, Block True 968]" "kmalloc h 24 1 0 = ret (h1, p)" "p \<noteq> 0"
    "heap_start h = 4096"
proof -
  have f: "first_fit (unat (heap_start (setup_heap zero_heap 4096 1024))) (unat (8 :: u32)) (unat (1 :: u32)) [Block True 1000] = Some 0"
    by simp
  obtain h0 where h0: "heap_inv h0 [Block False 8, Block True 968]" "heap_start h0 = 4096" "\<not> held (heap_mtx h0)"
    using kmalloc_step [OF demo_heap(1) _ _ _ f refl, of 0] by (auto simp: clean_def alloc_blocks_def carve_def)
  define h where "h = h0\<lparr>hmem := set_user_regions (hmem h0) 4120 0\<rparr>"
  have "heap_inv h [Block False 8, Block True 968]"
    unfolding h_def
  proof (rule heap_inv_write [OF h0(1)])
    fix x :: addr assume "unat x \<notin> used_bytes (unat (heap_start h0)) [Block False 8, Block True 968]"
    then have "\<not> in_range x 4120 8" by (auto simp: h0(2) in_range_interval)
    then show "set_user_regions (hmem h0) 4120 0 x = hmem h0 x" by (rule set_user_regions_other)
  qed
  moreover have s: "heap_start h = 4096" "\<not> held (heap_mtx h)" using h0 by (simp_all add: h_def)
  ultimately have w: "kheap_wf h [Block False 8, Block True 968]" by (simp add: kheap_wf_def)
  then have "mm_inv h 4120 [] [Block False 8, Block True 968]"
    using s by (simp add: mm_inv_def kheap_used_def mm_bytes_def) (simp add: h_def)
  moreover have "first_fit (unat (heap_start h)) (unat (24 :: u32)) (unat (1 :: u32)) [Block False 8, Block True 968] = Some 1"
    using s by simp
  from kmalloc_step [OF _ _ _ s(2) this refl, of 0] w
  obtain h1 where "kmalloc h 24 1 0 = ret (h1, ad (block_addr (unat (heap_start h)) [Block False 8, Block True 968] 1 + 24))"
    by (auto simp: clean_def kheap_wf_def)
  ultimately show thesis using that s(1) by (simp add: block_addr_def)
qed

lemma demo_mm_region:
  obtains h r bs where "mm_inv h 4120 [r] bs" "lo r = 0x1000" "hi r = 0x2000" "heap_start h = 4096"
proof -
  obtain h p h1 where d: "mm_inv h 4120 [] [Block False 8, Block True 968]" "kmalloc h 24 1 0 = ret (h1, p)" "p \<noteq> 0"
    "heap_start h = 4096" by (rule demo_mm)
  have lt: "(0x1000 :: addr) < 0x2000" by simp
  obtain bs where "mm_inv (h1\<lparr>hmem := push_region (fill_region (hmem h1) p 0x1000 0x2000 0) 4120 p\<rparr>) 4120 [Region p 0x1000 0x2000 0] bs"
    using mm_mk_region_enters [OF d(1) lt _ d(2,3), of 0] by auto
  moreover have "heap_start h1 = 4096"
    using kmalloc_1 [of h "[Block False 8, Block True 968]" 24 0] d by (auto simp: mm_inv_def)
  ultimately show thesis using that by fastforce
qed

theorem mm_mk_region_spec_witness:
  "\<exists>h h' p bs'. mm_mk_region h 4120 0x1000 0x2000 MMR_USER 0 = ret (h', p) \<and>
     mm_inv h' 4120 [Region p 0x1000 0x2000 MMR_USER] bs'"
proof -
  obtain h p h1 where d: "mm_inv h 4120 [] [Block False 8, Block True 968]" "kmalloc h 24 1 0 = ret (h1, p)" "p \<noteq> 0"
    by (rule demo_mm)
  have lt: "(0x1000 :: addr) < 0x2000" by simp
  from mm_mk_region_spec [OF d(1) lt d(2,3), of MMR_USER] show ?thesis by auto
qed

section \<open>Finding a region\<close>

lemma disjoint_regions_unique:
  "disjoint_regions rs \<Longrightarrow> r \<in> set rs \<Longrightarrow> s \<in> set rs \<Longrightarrow> lo r \<le> a \<and> a < hi r \<Longrightarrow> lo s \<le> a \<and> a < hi s \<Longrightarrow> r = s"
  by (induction rs) (auto simp: overlaps_def word_less_nat_alt word_le_nat_alt)

text \<open>
  \<open>mm_find_region\<close> returns the region that contains the address, which is the only one, and null when
  none does; it terminates on every list the invariant describes.
\<close>

theorem mm_find_region_spec:
  assumes "mm_inv h mm rs bs"
  shows "(\<forall>r\<in>set rs. lo r \<le> a \<and> a < hi r \<longrightarrow> mm_find_region (hmem h) mm a = ret (at r)) \<and>
    ((\<forall>r\<in>set rs. \<not> (lo r \<le> a \<and> a < hi r)) \<longrightarrow> mm_find_region (hmem h) mm a = ret 0)"
proof -
  let ?P = "\<lambda>r. lo r \<le> a \<and> a < hi r"
  have f: "mm_find_region (hmem h) mm a = ret (case find ?P rs of None \<Rightarrow> 0 | Some r \<Rightarrow> at r)"
    using assms mm_find_rlist [of "hmem h" 0] by (simp add: mm_inv_def mm_find_region_def)
  have "find ?P rs = Some r" if "r \<in> set rs" "?P r" for r
  proof -
    from that obtain r' where r': "find ?P rs = Some r'" using find_None_iff [of ?P rs] by (cases "find ?P rs") auto
    then have "r' \<in> set rs" "?P r'" by (auto simp: find_Some_iff)
    then show ?thesis using r' that assms disjoint_regions_unique [of rs r r' a] by (simp add: mm_inv_def)
  qed
  moreover have "find ?P rs = None" if "\<forall>r\<in>set rs. \<not> ?P r"
    using that by (simp add: find_None_iff)
  ultimately show ?thesis using f by simp
qed

section \<open>Removing and modifying a region\<close>

text \<open>
  Modifying the region at the head of the list in place fails with \<open>ECONFLICT\<close>: unlinking it does not
  move the head pointer of the list, so the conflict test meets the region itself. On the way the code has
  written through the null previous pointer, and the region is no longer linked back from its successor.
  (Every other call of \<open>mm_mod_region\<close>, and every call of \<open>mm_del_region\<close>, ends in the \<open>ASSERT(0)\<close> of the unfinished code.)
\<close>

theorem mm_mod_region_head:
  assumes "mm_inv h mm (r # rs) bs" "24 \<le> heap_start h"
  shows "mm_mod_region h mm (at r) (lo r) (hi r) flags = ret (h\<lparr>hmem := unlink_region (hmem h) (at r)\<rparr>, - ECONFLICT) \<and>
    user_regions (unlink_region (hmem h) (at r)) mm = at r \<and> mm_del_region h mm (at r) = fail Assert_Failed"
proof -
  let ?U = "kheap_used h bs" and ?m = "unlink_region (hmem h) (at r)" and ?n = "next_region (get_region (hmem h) (at r))"
  have wf: "kheap_wf h bs" and b: "mm_bytes mm \<subseteq> ?U" and o: "owned (?U - mm_bytes mm) (r # rs)"
    and l: "rlist (hmem h) 0 (user_regions (hmem h) mm) (r # rs)" and d: "disjoint_regions (r # rs)"
    using assms(1) by (auto simp: mm_inv_def)
  have hd: "user_regions (hmem h) mm = at r" "at r \<noteq> 0" "prev_region (get_region (hmem h) (at r)) = 0"
    "r_start (get_region (hmem h) (at r)) = lo r" "r_end (get_region (hmem h) (at r)) = hi r"
    using l by auto
  note lt = kheap_used_lt [OF wf]
  have low: "24 \<le> k" if "k \<in> ?U" for k
    using that used_bytes_bounds [of k "unat (heap_start h)" bs] by (simp add: kheap_used_def)
  have fr: "fp (at r) \<subseteq> ?U" "fp (at r) \<inter> mm_bytes mm = {}" using o by auto
  have zero: "\<not> in_range x 0 24" if "unat x \<in> ?U" for x using low [OF that] by (simp add: in_range_def)
  have nx: "?n = 0 \<or> fp ?n \<subseteq> ?U - mm_bytes mm - fp (at r)"
    using l o by (cases rs) auto
  have same: "?m x = hmem h x" if "unat x \<in> mm_bytes mm \<union> fp (at r)" for x
  proof -
    have x: "unat x \<in> ?U" using that b fr by blast
    have "\<not> in_range x ?n 24"
    proof (cases "?n = 0")
      case False
      with nx have "fp ?n \<subseteq> ?U - mm_bytes mm - fp (at r)" by simp
      moreover have "?U - mm_bytes mm - fp (at r) \<subseteq> {..<4294967296}" using lt by blast
      ultimately show ?thesis using in_range_fp [of x ?n "?U - mm_bytes mm - fp (at r)"] that by blast
    qed (use zero [OF x] in simp)
    moreover have "get_region (set_nextr (hmem h) 0 ?n) (at r) = get_region (hmem h) (at r)"
      using fr zero in_range_fp [OF _ fr(1) lt] by (intro get_region_cong) (simp add: mem_simps)
    ultimately show ?thesis using zero [OF x] by (simp add: unlink_region_def Let_def mem_simps hd)
  qed
  have mb: "unat mm + 8 \<le> 4294967296" using b lt unfolding mm_bytes_def by (intro interval_le) (auto intro: subset_trans)
  have head: "user_regions ?m mm = at r"
    using hd(1) same user_regions_cong [of mm ?m "hmem h"] mb by (simp add: mm_bytes_def in_range_interval)
  have reg: "get_region ?m (at r) = get_region (hmem h) (at r)"
    using same in_range_fp [OF _ subset_refl subset_trans [OF fr(1) lt]] by (intro get_region_cong) blast
  have "mm_conflicts ?m (at r) (lo r) (hi r) = ret True"
    using hd d by (subst mm_conflicts.simps) (simp add: reg)
  then show ?thesis using head by (simp add: mm_mod_region_def mm_del_region_def Let_def)
qed

theorem mm_mod_region_head_witness:
  "\<exists>h r. mm_mod_region h 4120 (at r) (lo r) (hi r) MMR_USER = ret (h\<lparr>hmem := unlink_region (hmem h) (at r)\<rparr>, - ECONFLICT)"
proof -
  obtain h r bs where "mm_inv h 4120 [r] bs" "heap_start h = 4096" by (rule demo_mm_region)
  with mm_mod_region_head [of h 4120 r "[]" bs MMR_USER] show ?thesis by auto
qed

theorem mm_find_region_spec_witness:
  "\<exists>(h :: heap_state) r. mm_find_region (hmem h) 4120 0x1800 = ret (at r) \<and> mm_find_region (hmem h) 4120 0x2000 = ret 0"
proof -
  obtain h r bs where d: "mm_inv h 4120 [r] bs" "lo r = 0x1000" "hi r = 0x2000" by (rule demo_mm_region)
  from mm_find_region_spec [OF d(1), where a = "0x1800"] mm_find_region_spec [OF d(1), where a = "0x2000"] d(2,3)
  have "mm_find_region (hmem h) 4120 0x1800 = ret (at r) \<and> mm_find_region (hmem h) 4120 0x2000 = ret 0" by auto
  then show ?thesis by blast
qed

end
