(* ===== verification/Devices.thy ===== *)
theory Devices
  imports Prelude
begin

text \<open>
  Device registration and partition tables: \<open>kernel/include/devices.h\<close>, \<open>kernel/devices.c\<close> and
  \<open>kernel/fs/partscan.c\<close>. The tables of the kernel (character devices, disks, file systems, PCI drivers) are
  arrays of pointers filled from the front; what their users rely on is the locale \<open>registry\<close>.
  A disk's \<open>read\<close> operation is the driver's: it is a field of the disk, as in the source, with the blocks, the LBA
  and, as result, the returned count and the bytes put into the buffer.
\<close>

section \<open>Tables of registered objects\<close>

text \<open>The loop of every registration function: the first null slot.\<close>

primrec first_free :: "'a option list \<Rightarrow> nat option" where
  "first_free [] = None"
| "first_free (x # xs) = (if x = None then Some 0 else map_option Suc (first_free xs))"

text \<open>The loop of every lookup: the first registered object that satisfies the test.\<close>

primrec first_match :: "('a \<Rightarrow> bool) \<Rightarrow> 'a option list \<Rightarrow> 'a option" where
  "first_match P [] = None"
| "first_match P (x # xs) = (case x of Some y \<Rightarrow> if P y then Some y else first_match P xs | None \<Rightarrow> first_match P xs)"

definition packed :: "nat \<Rightarrow> 'a list \<Rightarrow> 'a option list" where
  "packed cap ys = map Some ys @ replicate (cap - length ys) None"

lemma first_free_packed: "first_free (packed cap ys) = (if length ys < cap then Some (length ys) else None)"
proof -
  have "first_free (map Some ys @ replicate k None) = (if 0 < k then Some (length ys) else None)" for k
    by (induction ys) (cases k, auto)
  then show ?thesis by (simp add: packed_def)
qed

lemma packed_update: "length ys < cap \<Longrightarrow> (packed cap ys)[length ys := Some y] = packed cap (ys @ [y])"
proof -
  assume "length ys < cap"
  then obtain k where k: "cap - length ys = Suc k" by (metis Suc_diff_Suc)
  then have "cap - length (ys @ [y]) = k" by simp
  with k show ?thesis by (simp add: packed_def list_update_append)
qed

lemma first_match_packed: "first_match P (packed cap ys) = find P ys"
proof -
  have "first_match P (replicate k None) = None" for k by (induction k) auto
  then have "first_match P (map Some ys @ replicate k None) = find P ys" for k by (induction ys) auto
  then show ?thesis by (simp add: packed_def)
qed

text \<open>
  What a registry promises: an object goes to the first free slot, in the form \<open>stored\<close> gives it; a
  full table refuses it with an error code and does not change.
\<close>

locale registry =
  fixes register :: "'a \<Rightarrow> 'b option list \<Rightarrow> 'b option list \<times> s32"
    and stored :: "'a \<Rightarrow> 'b"
    and full :: s32
  assumes register_free: "first_free t = Some i \<Longrightarrow> register x t = (t[i := Some (stored x)], 0)"
    and register_full: "first_free t = None \<Longrightarrow> register x t = (t, full)"
begin

primrec register_all :: "'a list \<Rightarrow> 'b option list \<Rightarrow> 'b option list \<times> s32 list" where
  "register_all [] t = (t, [])"
| "register_all (x # xs) t =
     (let (t, r) = register x t; (t, rs) = register_all xs t in (t, r # rs))"

lemma register_packed:
  "register x (packed cap ys) =
     (if length ys < cap then (packed cap (ys @ [stored x]), 0) else (packed cap ys, full))"
  by (simp add: register_free register_full first_free_packed packed_update)

text \<open>The table keeps the order of registration; what comes after it is full is refused.\<close>

lemma register_all_packed:
  "length ys \<le> cap \<Longrightarrow>
   register_all xs (packed cap ys) =
     (packed cap (take cap (ys @ map stored xs)),
      map (\<lambda>i. if length ys + i < cap then 0 else full) [0..<length xs])"
proof (induction xs arbitrary: ys)
  case (Cons x xs)
  have u: "[0..<length (x # xs)] = 0 # map Suc [0..<length xs]"
    by (simp add: upt_conv_Cons map_Suc_upt del: upt_Suc)
  show ?case
  proof (cases "length ys < cap")
    case True
    with Cons.IH [of "ys @ [stored x]"] show ?thesis
      unfolding u by (simp add: register_packed)
  next
    case False
    with Cons.prems Cons.IH [of ys] show ?thesis unfolding u by (simp add: register_packed)
  qed
qed (simp add: packed_def)

lemma register_all_foldl: "fst (register_all xs t) = foldl (\<lambda>t x. fst (register x t)) t xs"
proof (induction xs arbitrary: t)
  case (Cons x xs)
  then show ?case using Cons.IH [of "fst (register x t)"] by (simp add: Let_def case_prod_beta)
qed simp

lemma foldl_register: "foldl (\<lambda>t x. fst (register x t)) (replicate cap None) xs = packed cap (take cap (map stored xs))"
  using register_all_packed [of "[]" cap xs] by (simp add: packed_def flip: register_all_foldl)

lemma registered_lookup:
  "first_match P (foldl (\<lambda>t x. fst (register x t)) (replicate cap None) xs) = find P (take cap (map stored xs))"
  by (simp add: foldl_register first_match_packed)

lemma registered_full:
  "snd (register x (foldl (\<lambda>t x. fst (register x t)) (replicate cap None) xs)) = (if length xs < cap then 0 else full)"
  by (simp add: foldl_register register_packed min_def)

end

section \<open>Devices\<close>

definition MAX_DEVICES :: nat where "MAX_DEVICES = 32"

record chardev_struct =
  cd_major :: u32
  cd_minor :: u32

record hd_struct =
  sect_offset :: u32
  sect_count :: u32
  fs_type :: u8
  hd_bd :: addr

record gendisk_struct =
  bd_addr :: addr
  bd_major :: u32
  bd_read :: "u32 \<Rightarrow> u32 \<Rightarrow> s32 \<times> (nat \<Rightarrow> u8)"
  io_size :: u32
  capacity :: u32
  part_count :: u32
  part_list :: "hd_struct list"

definition register_chardev :: "chardev_struct \<Rightarrow> chardev_struct option list \<Rightarrow> chardev_struct option list \<times> s32" where
  "register_chardev cd cd_list =
     (case first_free cd_list of Some i \<Rightarrow> (cd_list[i := Some cd], 0) | None \<Rightarrow> (cd_list, - 1))"

definition get_chardev :: "chardev_struct option list \<Rightarrow> u32 \<Rightarrow> u32 \<Rightarrow> chardev_struct option" where
  "get_chardev cd_list major minor = first_match (\<lambda>cd. cd_major cd = major \<and> cd_minor cd = minor) cd_list"

definition get_gendisk :: "gendisk_struct option list \<Rightarrow> u32 \<Rightarrow> gendisk_struct option" where
  "get_gendisk bd_list major = first_match (\<lambda>bd. bd_major bd = major) bd_list"

text \<open>
  \<open>get_hdstruct\<close> returns the address of an array element: here the disk and the index, which is computed with
  32-bit wrap-around and need not lie in the array. \<open>hd_deref\<close> is the access through such a pointer.
\<close>

definition get_hdstruct :: "gendisk_struct option list \<Rightarrow> u32 \<Rightarrow> u32 \<Rightarrow> (gendisk_struct \<times> u32) option" where
  "get_hdstruct bd_list major minor =
     (case get_gendisk bd_list major of None \<Rightarrow> None
      | Some bd \<Rightarrow> if part_count bd < minor then None else Some (bd, minor - 1))"

definition hd_deref :: "gendisk_struct \<times> u32 \<Rightarrow> hd_struct exec" where
  "hd_deref p = (if unat (snd p) < length (part_list (fst p)) then ret (part_list (fst p) ! unat (snd p))
     else fail Out_Of_Bounds)"

section \<open>Partition tables\<close>

record mbr_entry_struct =
  bootable :: bool
  is_lba48 :: bool
  fs_id :: u8
  start_sector :: u32
  sector_count :: u32
  entry_id :: nat

definition is_mbr :: "(nat \<Rightarrow> u8) \<Rightarrow> bool" where
  "is_mbr sector \<longleftrightarrow> sector 0x1fe = 0x55 \<and> sector 0x1ff = 0xAA"

definition bd_add_part :: "gendisk_struct \<Rightarrow> mbr_entry_struct \<Rightarrow> gendisk_struct" where
  "bd_add_part bd entry = bd\<lparr>part_count := part_count bd + 1,
     part_list := (part_list bd)[entry_id entry :=
       \<lparr>sect_offset = start_sector entry, sect_count = sector_count entry, fs_type = fs_id entry, hd_bd = bd_addr bd\<rparr>]\<rparr>"

definition buf32 :: "(nat \<Rightarrow> u8) \<Rightarrow> nat \<Rightarrow> u32" where
  "buf32 b i = ucast (b i) OR push_bit 8 (ucast (b (i + 1))) OR push_bit 16 (ucast (b (i + 2))) OR push_bit 24 (ucast (b (i + 3)))"

definition mbr_entry :: "(nat \<Rightarrow> u8) \<Rightarrow> nat \<Rightarrow> mbr_entry_struct" where
  "mbr_entry mbr i = (let entry_offset = 0x1be + 16 * i in
     \<lparr>bootable = bit (mbr entry_offset) 7, is_lba48 = bit (mbr entry_offset) 0, fs_id = mbr (entry_offset + 4),
      start_sector = buf32 mbr (entry_offset + 8), sector_count = buf32 mbr (entry_offset + 12), entry_id = i\<rparr>)"

definition scan_entry :: "(nat \<Rightarrow> u8) \<Rightarrow> gendisk_struct \<Rightarrow> nat \<Rightarrow> gendisk_struct" where
  "scan_entry mbr bd i =
     (let entry = mbr_entry mbr i
      in if sector_count entry = 0 \<or> start_sector entry = 0 then bd else bd_add_part bd entry)"

definition gendisk_partscan :: "gendisk_struct \<Rightarrow> gendisk_struct" where
  "gendisk_partscan bd =
     (let (n, mbr) = bd_read bd 1 0
      in if n <s 1 then bd else if \<not> is_mbr mbr then bd else foldl (scan_entry mbr) bd [0..<4])"

definition register_blkdev :: "gendisk_struct \<Rightarrow> gendisk_struct option list \<Rightarrow> gendisk_struct option list \<times> s32" where
  "register_blkdev bd bd_list =
     (case first_free bd_list of Some i \<Rightarrow> (bd_list[i := Some (gendisk_partscan bd)], 0) | None \<Rightarrow> (bd_list, - 1))"

interpretation chardevs: registry register_chardev id "- 1"
  by unfold_locales (simp_all add: register_chardev_def)

interpretation blkdevs: registry register_blkdev gendisk_partscan "- 1"
  by unfold_locales (simp_all add: register_blkdev_def)

section \<open>What a scan finds\<close>

definition entry_used :: "(nat \<Rightarrow> u8) \<Rightarrow> nat \<Rightarrow> bool" where
  "entry_used mbr i \<longleftrightarrow> sector_count (mbr_entry mbr i) \<noteq> 0 \<and> start_sector (mbr_entry mbr i) \<noteq> 0"

definition part_of_entry :: "gendisk_struct \<Rightarrow> mbr_entry_struct \<Rightarrow> hd_struct" where
  "part_of_entry bd e = \<lparr>sect_offset = start_sector e, sect_count = sector_count e, fs_type = fs_id e, hd_bd = bd_addr bd\<rparr>"

lemma scan_entry_fields:
  "bd_addr (scan_entry mbr bd i) = bd_addr bd" "bd_major (scan_entry mbr bd i) = bd_major bd"
  "length (part_list (scan_entry mbr bd i)) = length (part_list bd)"
  "part_count (scan_entry mbr bd i) = part_count bd + (if entry_used mbr i then 1 else 0)"
  "j < length (part_list bd) \<Longrightarrow> part_list (scan_entry mbr bd i) ! j =
     (if j = i \<and> entry_used mbr i then part_of_entry bd (mbr_entry mbr i) else part_list bd ! j)"
  by (auto simp: scan_entry_def bd_add_part_def entry_used_def part_of_entry_def Let_def mbr_entry_def nth_list_update)

lemma part_of_entry_scan [simp]: "part_of_entry (scan_entry mbr bd i) = part_of_entry bd"
  by (simp add: fun_eq_iff part_of_entry_def scan_entry_fields)

lemma scan_fields:
  defines "scan \<equiv> \<lambda>mbr bd n. foldl (scan_entry mbr) bd [0..<n]"
  shows "bd_addr (scan mbr bd n) = bd_addr bd" "bd_major (scan mbr bd n) = bd_major bd"
    "length (part_list (scan mbr bd n)) = length (part_list bd)"
    "part_of_entry (scan mbr bd n) = part_of_entry bd"
    "part_count (scan mbr bd n) = part_count bd + of_nat (length (filter (entry_used mbr) [0..<n]))"
    "j < length (part_list bd) \<Longrightarrow> part_list (scan mbr bd n) ! j =
       (if j < n \<and> entry_used mbr j then part_of_entry bd (mbr_entry mbr j) else part_list bd ! j)"
  unfolding scan_def by (induction n) (auto simp: scan_entry_fields less_Suc_eq)

text \<open>
  The device table. \<open>get_chardev\<close> finds, of the first 32 devices registered, the earliest one with the given
  numbers; registration succeeds for those 32 and returns -1, leaving the table as it is, for every later one.
\<close>

theorem chardev_registry_spec:
  "get_chardev (foldl (\<lambda>t cd. fst (register_chardev cd t)) (replicate MAX_DEVICES None) cds) major minor =
     find (\<lambda>cd. cd_major cd = major \<and> cd_minor cd = minor) (take MAX_DEVICES cds) \<and>
   snd (register_chardev cd (foldl (\<lambda>t cd. fst (register_chardev cd t)) (replicate MAX_DEVICES None) cds)) =
     (if length cds < 32 then 0 else - 1)"
  using chardevs.registered_lookup [of _ MAX_DEVICES cds] chardevs.registered_full [of cd MAX_DEVICES cds]
  by (simp add: get_chardev_def MAX_DEVICES_def)

text \<open>
  C18: Partition scan. When the first sector can be read and carries the boot signature, slot \<open>i\<close> of the
  partition list holds the start, length and type that entry \<open>i\<close> of the table gives, for the entries with non-zero
  start and length; the other slots are unchanged, and the count is the number of such entries. In every other
  case the disk is unchanged.
\<close>

theorem gendisk_partscan_spec:
  assumes "length (part_list bd) = 4" "bd_read bd 1 0 = (n, mbr)"
  shows "if 1 \<le>s n \<and> mbr 510 = 0x55 \<and> mbr 511 = 0xAA
    then part_count (gendisk_partscan bd) = part_count bd + of_nat (length (filter (entry_used mbr) [0..<4])) \<and>
      bd_major (gendisk_partscan bd) = bd_major bd \<and>
      (\<forall>i<4. part_list (gendisk_partscan bd) ! i =
         (if entry_used mbr i
          then \<lparr>sect_offset = buf32 mbr (454 + 16 * i), sect_count = buf32 mbr (458 + 16 * i),
                fs_type = mbr (450 + 16 * i), hd_bd = bd_addr bd\<rparr>
          else part_list bd ! i))
    else gendisk_partscan bd = bd"
proof (cases "1 \<le>s n \<and> mbr 510 = 0x55 \<and> mbr 511 = 0xAA")
  case True
  then have g: "gendisk_partscan bd = foldl (scan_entry mbr) bd [0..<4]"
    using assms(2) by (simp add: gendisk_partscan_def is_mbr_def word_sless_alt word_sle_eq)
  have p: "part_of_entry bd (mbr_entry mbr i) = \<lparr>sect_offset = buf32 mbr (454 + 16 * i), sect_count = buf32 mbr (458 + 16 * i),
                fs_type = mbr (450 + 16 * i), hd_bd = bd_addr bd\<rparr>" for i
    by (simp add: part_of_entry_def mbr_entry_def Let_def add.commute)
  show ?thesis
    unfolding g using True assms(1) scan_fields(2,5) [where n = 4 and mbr = mbr and bd = bd]
      scan_fields(6) [where n = 4 and mbr = mbr and bd = bd] by (simp add: p)
next
  case False
  then show ?thesis using assms(2) by (auto simp: gendisk_partscan_def is_mbr_def word_sless_alt word_sle_eq)
qed

text \<open>A sector with one entry, in the given slot: start sector 2048, 4096 sectors, type 0x83.\<close>

definition one_entry_mbr :: "nat \<Rightarrow> nat \<Rightarrow> u8" where
  "one_entry_mbr slot i = (if i = 510 then 0x55 else if i = 511 then 0xAA
     else if i = 450 + 16 * slot then 0x83 else if i = 455 + 16 * slot then 8 else if i = 459 + 16 * slot then 16 else 0)"

definition no_part :: hd_struct where
  "no_part = \<lparr>sect_offset = 0, sect_count = 0, fs_type = 0, hd_bd = 0\<rparr>"

definition one_entry_disk :: "nat \<Rightarrow> gendisk_struct" where
  "one_entry_disk slot = \<lparr>bd_addr = 0x5000, bd_major = 4, bd_read = (\<lambda>_ _. (1, one_entry_mbr slot)),
     io_size = 512, capacity = 8192, part_count = 0, part_list = replicate 4 no_part\<rparr>"

theorem gendisk_partscan_spec_witness:
  "part_list (gendisk_partscan (one_entry_disk 0)) ! 0 =
     \<lparr>sect_offset = 2048, sect_count = 4096, fs_type = 0x83, hd_bd = 0x5000\<rparr> \<and>
   part_list (gendisk_partscan (one_entry_disk 0)) ! 1 = no_part"
  using gendisk_partscan_spec [of "one_entry_disk 0" 1 "one_entry_mbr 0"]
  by (simp add: one_entry_disk_def entry_used_def mbr_entry_def buf32_def one_entry_mbr_def no_part_def word_sle_eq)

text \<open>
  Minor numbers. Minor \<open>i + 1\<close> of a scanned disk gives the \<open>i\<close>-th slot of its partition list exactly when
  \<open>i\<close> is below the number of partitions found: when a slot before a partition is empty, the partition's own minor
  number is refused. Minor 0 is accepted, and the pointer returned lies before the array.
\<close>

theorem get_hdstruct_spec:
  assumes "length (part_list bd) = 4" "part_count bd = 0" "bd_read bd 1 0 = (n, mbr)"
    "1 \<le>s n" "mbr 510 = 0x55" "mbr 511 = 0xAA"
  shows "get_hdstruct (fst (register_blkdev bd (replicate MAX_DEVICES None))) (bd_major bd) minor =
      (if unat minor \<le> length (filter (entry_used mbr) [0..<4]) then Some (gendisk_partscan bd, minor - 1) else None) \<and>
    hd_deref (gendisk_partscan bd, 0 - 1) = fail Out_Of_Bounds"
proof -
  have g: "gendisk_partscan bd = foldl (scan_entry mbr) bd [0..<4]"
    using assms(3-6) by (simp add: gendisk_partscan_def is_mbr_def word_sless_alt word_sle_eq)
  have f: "bd_major (gendisk_partscan bd) = bd_major bd" "length (part_list (gendisk_partscan bd)) = 4"
    "part_count (gendisk_partscan bd) = of_nat (length (filter (entry_used mbr) [0..<4]))"
    unfolding g using assms(1,2) scan_fields(2,3,5) [where n = 4 and mbr = mbr and bd = bd] by simp_all
  have t: "first_match P (fst (register_blkdev bd (replicate MAX_DEVICES None))) =
      (if P (gendisk_partscan bd) then Some (gendisk_partscan bd) else None)" for P
    using blkdevs.registered_lookup [of P MAX_DEVICES "[bd]"] by (simp add: MAX_DEVICES_def)
  have "length (filter (entry_used mbr) [0..<4]) \<le> 4"
    using length_filter_le [of "entry_used mbr" "[0..<4]"] by simp
  then have "unat (of_nat (length (filter (entry_used mbr) [0..<4])) :: u32) = length (filter (entry_used mbr) [0..<4])"
    by (intro unat_of_nat_u32) simp
  then show ?thesis using f
    by (auto simp: get_hdstruct_def get_gendisk_def t hd_deref_def word_less_nat_alt)
qed

theorem get_hdstruct_spec_witness:
  "get_hdstruct (fst (register_blkdev (one_entry_disk 1) (replicate MAX_DEVICES None))) 4 2 = None \<and>
   get_hdstruct (fst (register_blkdev (one_entry_disk 1) (replicate MAX_DEVICES None))) 4 0 =
     Some (gendisk_partscan (one_entry_disk 1), - 1)"
  using get_hdstruct_spec [of "one_entry_disk 1" 1 "one_entry_mbr 1" 2] get_hdstruct_spec [of "one_entry_disk 1" 1 "one_entry_mbr 1" 0]
  by (simp add: one_entry_disk_def entry_used_def mbr_entry_def buf32_def one_entry_mbr_def word_sle_eq upt_rec)

end
