(* ===== verification/Vfs.thy ===== *)
theory Vfs
  imports Devices Errno
begin

text \<open>
  The virtual file system: \<open>kernel/include/vfs.h\<close>, \<open>kernel/include/fs.h\<close>, \<open>kernel/fs/vfs.c\<close>, \<open>fs.c\<close>,
  \<open>mount.c\<close>, \<open>file.c\<close> and \<open>stat.c\<close>. Directories live in a store indexed by their address; the singly linked list of
  the entries of a directory is a list. A path is a string without its terminating zero; where the code
  reads a byte before or after the path, that byte is an argument. Loading the entries of a directory is
  the operation of its file system, an argument of the functions that use it.
\<close>

section \<open>Directories and file systems\<close>

definition F_FIFO :: u32 where "F_FIFO = 0x1000"
definition F_CHAR :: u32 where "F_CHAR = 0x2000"
definition F_DIR :: u32 where "F_DIR = 0x4000"
definition F_BLOCK :: u32 where "F_BLOCK = 0x6000"
definition F_REGULAR :: u32 where "F_REGULAR = 0x8000"
definition F_SYMLINK :: u32 where "F_SYMLINK = 0xa000"
definition F_SOCKET :: u32 where "F_SOCKET = 0xc000"
definition F_UNKNOWN :: u32 where "F_UNKNOWN = 0x0000"

lemmas ftype_defs = F_FIFO_def F_CHAR_def F_DIR_def F_BLOCK_def F_REGULAR_def F_SYMLINK_def F_SOCKET_def F_UNKNOWN_def

record direntry_struct =
  de_type :: u32
  de_mode :: u16
  de_size :: u32
  de_blocks :: u32
  de_name :: string
  de_inode_no :: u32
  de_parent :: addr
  directory :: addr

record dir_struct =
  d_inode_no :: u32
  d_fs_info :: addr
  d_mnt_point :: addr
  d_parent :: addr
  entries :: "direntry_struct list"

text \<open>The two static objects of \<open>vfs.c\<close> and the store of all directories.\<close>

record vfs =
  root_dir :: addr
  root_direntry :: direntry_struct
  dirs :: "addr \<Rightarrow> dir_struct"

record 's fs_struct =
  fs_name :: string
  mbr_id :: u8
  fs_probe :: "hd_struct \<Rightarrow> 's \<Rightarrow> ('s \<times> s32) exec"
  fs_mount :: "hd_struct \<Rightarrow> addr \<Rightarrow> 's \<Rightarrow> ('s \<times> s32) exec"

type_synonym 'z loader = "addr \<Rightarrow> 'z vfs_scheme \<Rightarrow> 'z vfs_scheme exec"

definition setup_fs :: "'z vfs_scheme \<Rightarrow> 'z vfs_scheme" where
  "setup_fs v = v
     \<lparr>dirs := (dirs v)(root_dir v := (dirs v (root_dir v))
        \<lparr>entries := [], d_mnt_point := 0, d_parent := root_dir v\<rparr>),
      root_direntry := (root_direntry v)\<lparr>directory := root_dir v, de_type := F_DIR, de_parent := root_dir v\<rparr>\<rparr>"

text \<open>\<open>get_direntries\<close> calls through the mount point of the directory, which has to be there.\<close>

definition get_direntries :: "'z loader \<Rightarrow> addr \<Rightarrow> 'z vfs_scheme \<Rightarrow> 'z vfs_scheme exec" where
  "get_direntries fs_get_direntries dir v =
     (if d_fs_info (dirs v dir) = 0 then fail Out_Of_Bounds else fs_get_direntries dir v)"

section \<open>Path names\<close>

text \<open>The copied characters, and the rest of the string.\<close>

primrec strccpy :: "string \<Rightarrow> char \<Rightarrow> string \<times> string" where
  "strccpy [] terminator = ([], [])"
| "strccpy (c # src) terminator =
     (if c = terminator then ([], src) else let (dest, rem) = strccpy src terminator in (c # dest, rem))"

lemma strccpy_length: "strccpy s t = (d, r) \<Longrightarrow> length d + length r \<le> length s \<and> (s \<noteq> [] \<longrightarrow> length r < length s)"
  by (induction s arbitrary: d r) (fastforce split: if_splits prod.splits)+

lemma strccpy_shorter: "(d, r) = strccpy s t \<Longrightarrow> r \<noteq> [] \<Longrightarrow> length r < length s"
  using strccpy_length [of s t d r] by (cases s) auto

text \<open>The character before the rest: the last one consumed, or the one before the path.\<close>

definition char_before :: "char \<Rightarrow> string \<Rightarrow> string \<Rightarrow> char" where
  "char_before before path rem = last (before # take (length path - length rem) path)"

function (sequential) namei_recursive ::
    "'z loader \<Rightarrow> string \<Rightarrow> char \<Rightarrow> addr \<Rightarrow> 'z vfs_scheme \<Rightarrow> ('z vfs_scheme \<times> s32 \<times> direntry_struct option) exec" where
  "namei_recursive load pathname before working_dir v =
     (let (name, rem) = strccpy pathname (CHR ''/'');
          current_name = (if name = [] then ''.'' else name)
      in if 256 \<le> length name then fail Out_Of_Bounds
         else case find (\<lambda>entry. de_name entry = current_name) (entries (dirs v working_dir)) of
           None \<Rightarrow> ret (v, - ENOENT, None)
         | Some entry \<Rightarrow>
             if rem = []
             then if char_before before pathname rem = CHR ''/'' \<and> de_type entry \<noteq> F_DIR
                  then ret (v, - ENOTDIR, None) else ret (v, SUCCESS, Some entry)
             else if de_type entry \<noteq> F_DIR then ret (v, - ENOENT, None)
             else bindX (if entries (dirs v (directory entry)) = []
                         then get_direntries load (directory entry) v else ret v)
                    (namei_recursive load rem (char_before before pathname rem) (directory entry)))"
  by pat_completeness auto
termination
  by (relation "measure (\<lambda>(_, pathname, _). length pathname)") (auto dest: strccpy_shorter)

declare namei_recursive.simps [simp del]

text \<open>
  \<open>before\<close> and \<open>after\<close> are the bytes around the path in memory: the one before its first character, and the
  one after its terminating zero.
\<close>

definition namei :: "'z loader \<Rightarrow> char \<Rightarrow> char \<Rightarrow> string \<Rightarrow> 'z vfs_scheme \<Rightarrow> ('z vfs_scheme \<times> s32 \<times> direntry_struct option) exec" where
  "namei load before after pathname v =
     (case pathname of
        c # path \<Rightarrow>
          if c = CHR ''/''
          then if (case path of [] \<Rightarrow> after | [_] \<Rightarrow> CHR 0x00 | _ # d # _ \<Rightarrow> d) = CHR 0x00
               then ret (v, SUCCESS, Some (root_direntry v))
               else namei_recursive load path c (root_dir v) v
          else namei_recursive load pathname before (root_dir v) v
      | [] \<Rightarrow> namei_recursive load [] before (root_dir v) v)"

section \<open>Registered file systems, mounting\<close>

definition MAX_FILESYSTEMS :: nat where "MAX_FILESYSTEMS = 16"

definition register_fs :: "'s fs_struct \<Rightarrow> 's fs_struct option list \<Rightarrow> 's fs_struct option list \<times> s32" where
  "register_fs fs filesystems =
     (case first_free filesystems of Some i \<Rightarrow> (filesystems[i := Some fs], SUCCESS) | None \<Rightarrow> (filesystems, - EAGAIN))"

interpretation filesystems: registry register_fs id "- EAGAIN"
  by unfold_locales (simp_all add: register_fs_def)

primrec probe_fs :: "'s fs_struct option list \<Rightarrow> hd_struct \<Rightarrow> 's \<Rightarrow> ('s \<times> 's fs_struct option) exec" where
  "probe_fs [] part s = ret (s, None)"
| "probe_fs (f # fs) part s =
     (case f of None \<Rightarrow> probe_fs fs part s
      | Some f \<Rightarrow>
          if mbr_id f = fs_type part
          then bindX (fs_probe f part s) (\<lambda>(s, r). if r = SUCCESS then ret (s, Some f) else probe_fs fs part s)
          else probe_fs fs part s)"

definition do_mount :: "gendisk_struct option list \<Rightarrow> 'z vfs_scheme fs_struct option list \<Rightarrow> 'z loader \<Rightarrow> char \<Rightarrow> char \<Rightarrow>
    u32 \<Rightarrow> u32 \<Rightarrow> string \<Rightarrow> 'z vfs_scheme \<Rightarrow> ('z vfs_scheme \<times> s32) exec" where
  "do_mount bd_list filesystems load before after dev_major dev_minor mount_path v =
     (case get_hdstruct bd_list dev_major dev_minor of None \<Rightarrow> ret (v, - ENODEV)
      | Some p \<Rightarrow>
          bindX (hd_deref p) (\<lambda>part.
          bindX (probe_fs filesystems part v) (\<lambda>(v, fs).
            case fs of None \<Rightarrow> ret (v, - EFSNOTSUP)
            | Some fs \<Rightarrow>
                bindX (namei load before after mount_path v) (\<lambda>(v, error, de).
                  if error <s 0 then ret (v, error)
                  else case de of None \<Rightarrow> fail Out_Of_Bounds
                       | Some de \<Rightarrow> fs_mount fs part (directory de) v))))"

text \<open>The file system calls that are not implemented yet.\<close>

definition sys_open :: "addr \<Rightarrow> s32 \<Rightarrow> s32 \<Rightarrow> s32" where "sys_open pathname flags mode = - ENOSYS"
definition sys_close :: "s32 \<Rightarrow> s32" where "sys_close fd = - ENOSYS"
definition sys_read :: "s32 \<Rightarrow> addr \<Rightarrow> u32 \<Rightarrow> s32" where "sys_read fd buf count = - ENOSYS"
definition sys_write :: "s32 \<Rightarrow> addr \<Rightarrow> u32 \<Rightarrow> s32" where "sys_write fd buf count = - ENOSYS"
definition sys_lseek :: "s32 \<Rightarrow> s32 \<Rightarrow> s32 \<Rightarrow> s32" where "sys_lseek fd offset whence = - ENOSYS"
definition sys_link :: "addr \<Rightarrow> addr \<Rightarrow> s32" where "sys_link oldpath newpath = - ENOSYS"
definition sys_unlink :: "addr \<Rightarrow> s32" where "sys_unlink pathname = - ENOSYS"
definition sys_stat :: "addr \<Rightarrow> addr \<Rightarrow> s32" where "sys_stat pathname statbuf = - ENOSYS"
definition sys_fstat :: "s32 \<Rightarrow> addr \<Rightarrow> s32" where "sys_fstat fd statbuf = - ENOSYS"

section \<open>Path lookup, component by component\<close>

text \<open>
  The meaning of a path: its components are looked up one after the other, each in the directory the
  one before it names, loading a directory that has no entries yet. A trailing slash requires a directory.
\<close>

fun path_of :: "string list \<Rightarrow> bool \<Rightarrow> string" where
  "path_of [] slash = []"
| "path_of [c] slash = c @ (if slash then ''/'' else [])"
| "path_of (c # cs) slash = c @ CHR ''/'' # path_of cs slash"

fun walk :: "'z loader \<Rightarrow> string list \<Rightarrow> bool \<Rightarrow> addr \<Rightarrow> 'z vfs_scheme \<Rightarrow> ('z vfs_scheme \<times> s32 \<times> direntry_struct option) exec" where
  "walk load [] slash d v = ret (v, - ENOENT, None)"
| "walk load (c # cs) slash d v =
     (case find (\<lambda>e. de_name e = c) (entries (dirs v d)) of
        None \<Rightarrow> ret (v, - ENOENT, None)
      | Some e \<Rightarrow>
          if cs = [] then if slash \<and> de_type e \<noteq> F_DIR then ret (v, - ENOTDIR, None) else ret (v, SUCCESS, Some e)
          else if de_type e \<noteq> F_DIR then ret (v, - ENOENT, None)
          else bindX (if entries (dirs v (directory e)) = [] then get_direntries load (directory e) v else ret v)
                 (walk load cs slash (directory e)))"

definition component :: "string \<Rightarrow> bool" where
  "component c \<longleftrightarrow> c \<noteq> [] \<and> length c < 256 \<and> CHR ''/'' \<notin> set c"

lemma strccpy_component:
  "CHR ''/'' \<notin> set c \<Longrightarrow> strccpy (c @ CHR ''/'' # rest) (CHR ''/'') = (c, rest)"
  "CHR ''/'' \<notin> set c \<Longrightarrow> strccpy c (CHR ''/'') = (c, [])"
  by (induction c) auto

lemma namei_recursive_walk:
  "list_all component cs \<Longrightarrow> cs \<noteq> [] \<Longrightarrow>
   namei_recursive load (path_of cs slash) before d v = walk load cs slash d v"
proof (induction cs slash arbitrary: before d v rule: path_of.induct)
  case (2 c slash)
  then have c: "c \<noteq> []" "\<not> 256 \<le> length c" "CHR ''/'' \<notin> set c" by (auto simp: component_def)
  have "last c \<noteq> CHR ''/''" using c last_in_set by metis
  with c show ?case
    by (subst namei_recursive.simps)
      (cases slash; simp add: strccpy_component char_before_def Let_def split: option.split)
next
  case (3 c c' cs slash)
  then have c: "c \<noteq> []" "\<not> 256 \<le> length c" "CHR ''/'' \<notin> set c" by (auto simp: component_def)
  have p: "path_of (c' # cs) slash \<noteq> []"
    using 3 by (cases cs) (auto simp: component_def)
  have IH: "namei_recursive load (path_of (c' # cs) slash) b d' = walk load (c' # cs) slash d'" for b d'
    using 3 by (intro ext) simp
  have po: "path_of (c # c' # cs) slash = c @ CHR ''/'' # path_of (c' # cs) slash" by simp
  show ?case unfolding po using c p
    by (subst namei_recursive.simps, subst walk.simps(2))
      (simp add: strccpy_component IH Let_def del: walk.simps path_of.simps errno_defs split: option.split)
qed simp

lemma path_of_shape:
  assumes "list_all component cs" "cs \<noteq> []" "\<And>c. cs \<noteq> [c] \<or> slash \<or> 1 < length c"
  obtains a b p where "path_of cs slash = a # b # p" "a \<noteq> CHR ''/''"
proof -
  obtain c ds where cs: "cs = c # ds" using assms(2) by (cases cs) auto
  then obtain a c' where c: "c = a # c'" using assms(1) by (cases c) (auto simp: component_def)
  then have a: "a \<noteq> CHR ''/''" using assms(1) cs by (auto simp: component_def)
  show thesis
  proof (cases "path_of cs slash")
    case Nil
    then show thesis using cs c by (cases ds) auto
  next
    case (Cons x xs)
    then have "x = a" using cs c by (cases ds) auto
    moreover have "xs \<noteq> []"
      using Cons cs c assms(3) [of c] by (cases ds; cases c'; cases slash) auto
    ultimately show thesis using that a Cons by (cases xs) auto
  qed
qed

lemma namei_walks:
  assumes "list_all component cs" "cs \<noteq> []" "CHR 0x00 \<notin> set (path_of cs slash)"
    and "length (path_of cs slash) \<noteq> 1"
  shows "namei load before after (CHR ''/'' # path_of cs slash) v = walk load cs slash (root_dir v) v \<and>
    namei load before after (path_of cs slash) v = walk load cs slash (root_dir v) v"
proof -
  have "cs \<noteq> [c] \<or> slash \<or> 1 < length c" for c
    using assms by (cases slash) (auto simp: component_def nat_neq_iff)
  then obtain a b p where p: "path_of cs slash = a # b # p" "a \<noteq> CHR ''/''"
    using path_of_shape [OF assms(1,2)] by blast
  with assms(3) have "b \<noteq> CHR 0x00" by auto
  then show ?thesis
    using namei_recursive_walk [OF assms(1,2), of load slash] p by (simp add: namei_def)
qed

text \<open>
  C15: Path lookup. An absolute path of one or more components, other than one single character, is looked up
  component by component from the root directory; a relative path likewise. The bytes around the path do not
  matter, and the recursion ends.
\<close>

theorem namei_walk:
  assumes "list_all component cs" "cs \<noteq> []" "CHR 0x00 \<notin> set (path_of cs slash)"
    and "length (path_of cs slash) \<noteq> 1"
  shows "namei load before after (CHR ''/'' # path_of cs slash) v = walk load cs slash (root_dir v) v \<and>
    namei load before after (path_of cs slash) v = walk load cs slash (root_dir v) v"
  using assms by (rule namei_walks)

definition demo_vfs :: vfs where
  "demo_vfs =
     (let f = \<lparr>de_type = F_REGULAR, de_mode = 0, de_size = 7, de_blocks = 1, de_name = ''motd'', de_inode_no = 12,
                de_parent = 2, directory = 0\<rparr>;
          d = \<lparr>de_type = F_DIR, de_mode = 0, de_size = 0, de_blocks = 0, de_name = ''etc'', de_inode_no = 11,
                de_parent = 1, directory = 2\<rparr>;
          e = (\<lambda>es. \<lparr>d_inode_no = 2, d_fs_info = 3, d_mnt_point = 0, d_parent = 1, entries = es\<rparr>)
      in \<lparr>root_dir = 1, root_direntry = d\<lparr>de_name := []\<rparr>, dirs = (\<lambda>a. if a = 1 then e [d] else e [f])\<rparr>)"

theorem namei_walk_witness:
  "namei (\<lambda>_ v. ret v) CHR 0x00 CHR 0x00 ''/etc/motd'' demo_vfs =
     walk (\<lambda>_ v. ret v) [''etc'', ''motd''] False 1 demo_vfs \<and>
   map_option (map_sum id (\<lambda>(_, r, e). (r, map_option de_size e)))
     (walk (\<lambda>_ v. ret v) [''etc'', ''motd''] False 1 demo_vfs) = ret (SUCCESS, Some 7)"
proof -
  have "list_all component [''etc'', ''motd'']" by (simp add: component_def)
  from namei_walk [OF this, of False "\<lambda>_ v. ret v" "CHR 0x00" "CHR 0x00" demo_vfs]
  have "namei (\<lambda>_ v. ret v) CHR 0x00 CHR 0x00 ''/etc/motd'' demo_vfs =
      walk (\<lambda>_ v. ret v) [''etc'', ''motd''] False (root_dir demo_vfs) demo_vfs"
    by (simp del: walk.simps)
  moreover have "root_dir demo_vfs = 1" by (simp add: demo_vfs_def Let_def)
  moreover have "map_option (map_sum id (\<lambda>(_, r, e). (r, map_option de_size e)))
     (walk (\<lambda>_ v. ret v) [''etc'', ''motd''] False 1 demo_vfs) = ret (SUCCESS, Some 7)"
    by (simp add: demo_vfs_def Let_def ftype_defs)
  ultimately show ?thesis by simp
qed

text \<open>
  The test for the path \<open>/\<close> looks one byte too far, because the pointer has moved on already: an
  absolute path of one single character is the root directory, whatever the root directory contains; and
  the path \<open>/\<close> is the root only if the byte behind its terminating zero is zero, else it is looked up as the entry \<open>.\<close>.
\<close>

theorem namei_one_character:
  "namei load before after [CHR ''/'', c] v = ret (v, SUCCESS, Some (root_direntry v)) \<and>
   namei load before after ''/'' v =
     (if after = CHR 0x00 then ret (v, SUCCESS, Some (root_direntry v))
      else ret (v, case find (\<lambda>e. de_name e = ''.'') (entries (dirs v (root_dir v))) of
                None \<Rightarrow> (- ENOENT, None)
              | Some e \<Rightarrow> if de_type e \<noteq> F_DIR then (- ENOTDIR, None) else (SUCCESS, Some e)))"
  by (simp add: namei_def namei_recursive.simps Let_def char_before_def split: option.split)

text \<open>
  Probing. When the probes of the registered file systems return and leave the state alone, \<open>probe_fs\<close>
  finds the first of the first 16 file systems registered that has the partition's type and whose probe succeeds.
\<close>

theorem probe_fs_spec:
  assumes "\<forall>f\<in>set fss. fs_probe f part s = ret (s, r f)"
  shows "probe_fs (foldl (\<lambda>t f. fst (register_fs f t)) (replicate MAX_FILESYSTEMS None) fss) part s =
    ret (s, find (\<lambda>f. mbr_id f = fs_type part \<and> r f = SUCCESS) (take 16 fss))"
proof -
  have n: "probe_fs (replicate k None) part s = ret (s, None)" for k by (induction k) auto
  have p: "\<forall>f\<in>set gs. fs_probe f part s = ret (s, r f) \<Longrightarrow>
      probe_fs (map Some gs @ replicate k None) part s = ret (s, find (\<lambda>f. mbr_id f = fs_type part \<and> r f = SUCCESS) gs)" for gs k
    by (induction gs) (auto simp: n)
  have "\<forall>f\<in>set (take 16 fss). fs_probe f part s = ret (s, r f)" using assms by (meson in_set_takeD)
  from p [OF this] show ?thesis
    by (simp add: filesystems.foldl_register packed_def MAX_FILESYSTEMS_def)
qed

theorem probe_fs_spec_witness:
  "probe_fs (foldl (\<lambda>t f. fst (register_fs f t)) (replicate MAX_FILESYSTEMS None)
      [\<lparr>fs_name = ''a'', mbr_id = 0x82, fs_probe = (\<lambda>_ s. ret (s, SUCCESS)), fs_mount = (\<lambda>_ _ s. ret (s, SUCCESS))\<rparr>])
    no_part () = ret ((), None)"
  using probe_fs_spec [of "[\<lparr>fs_name = ''a'', mbr_id = 0x82, fs_probe = (\<lambda>_ s. ret (s, SUCCESS)), fs_mount = (\<lambda>_ _ s. ret (s, SUCCESS))\<rparr>]"
      no_part "()" "\<lambda>_. SUCCESS"] by (simp add: no_part_def)

end
