(* ===== verification/Pci.thy ===== *)
theory Pci
  imports Devices Errno
begin

text \<open>
  PCI enumeration: \<open>kernel/include/pci.h\<close>, \<open>kernel/bus/pci_cfgspace.c\<close> and \<open>kernel/bus/pci.c\<close>. The
  configuration space is the hardware's: a function from the 32-bit configuration address written to port
  0xcf8 to the word read from port 0xcfc. A driver's probe is a field of the driver; it acts on the rest of
  the kernel's state, of type \<open>'s\<close>. Device structures are values in the device table.
\<close>

section \<open>Configuration space\<close>

record pcidev_struct =
  bus_no :: u8
  slot_no :: u8
  function_no :: u8
  device_id :: u16
  vendor_id :: u16
  revision :: u8
  prog_if :: u8
  sub_class :: u8
  class_no :: u8

type_synonym cfg_space = "u32 \<Rightarrow> u32"

definition PCI_VENDOR_ID :: u8 where "PCI_VENDOR_ID = 0x00"
definition PCI_DEVICE_ID :: u8 where "PCI_DEVICE_ID = 0x02"
definition PCI_REVISION :: u8 where "PCI_REVISION = 0x08"
definition PCI_PROG_IF :: u8 where "PCI_PROG_IF = 0x09"
definition PCI_SUBCLASS :: u8 where "PCI_SUBCLASS = 0x0a"
definition PCI_CLASS :: u8 where "PCI_CLASS = 0x0b"

definition cfg_address :: "pcidev_struct \<Rightarrow> u8 \<Rightarrow> u32" where
  "cfg_address device offset =
     push_bit 16 (ucast (bus_no device)) OR push_bit 11 (ucast (slot_no device))
     OR push_bit 8 (ucast (function_no device)) OR ucast (offset AND 0xfc) OR BIT 31"

definition pci_cfg_read32 :: "cfg_space \<Rightarrow> pcidev_struct \<Rightarrow> u8 \<Rightarrow> u32" where
  "pci_cfg_read32 cfg device offset = cfg (cfg_address device offset)"

definition pci_cfg_read16 :: "cfg_space \<Rightarrow> pcidev_struct \<Rightarrow> u8 \<Rightarrow> u16" where
  "pci_cfg_read16 cfg device offset =
     ucast (drop_bit (unat (offset AND 2) * 8) (pci_cfg_read32 cfg device offset) AND 0xffff)"

definition pci_cfg_read8 :: "cfg_space \<Rightarrow> pcidev_struct \<Rightarrow> u8 \<Rightarrow> u8" where
  "pci_cfg_read8 cfg device offset =
     ucast (drop_bit (unat (offset AND 3) * 8) (pci_cfg_read32 cfg device offset) AND 0xff)"

definition bare_device :: "u8 \<Rightarrow> u8 \<Rightarrow> u8 \<Rightarrow> pcidev_struct" where
  "bare_device bus slot fnc = \<lparr>bus_no = bus, slot_no = slot, function_no = fnc, device_id = 0, vendor_id = 0,
     revision = 0, prog_if = 0, sub_class = 0, class_no = 0\<rparr>"

definition pci_is_present :: "cfg_space \<Rightarrow> u8 \<Rightarrow> u8 \<Rightarrow> u8 \<Rightarrow> bool" where
  "pci_is_present cfg bus slot fnc \<longleftrightarrow> pci_cfg_read16 cfg (bare_device bus slot fnc) 0x00 \<noteq> 0xffff"

section \<open>Drivers and devices\<close>

definition DEVICES :: nat where "DEVICES = 128"
definition DRIVERS :: nat where "DRIVERS = 128"

text \<open>The identifiers of a driver: vendor and device, up to the pair whose vendor is zero.\<close>

record 's pci_driver_struct =
  ids :: "(u16 \<times> u16) list"
  driver_probe :: "pcidev_struct \<Rightarrow> 's \<Rightarrow> ('s \<times> s32) exec"

record 's pci_state =
  devices :: "pcidev_struct option list"
  drivers :: "'s pci_driver_struct option list"
  pci_device_index :: nat
  kernel :: 's

definition pci_register_driver :: "'s pci_driver_struct \<Rightarrow> 's pci_driver_struct option list \<Rightarrow> 's pci_driver_struct option list \<times> s32" where
  "pci_register_driver drv tbl =
     (case first_free tbl of Some i \<Rightarrow> (tbl[i := Some drv], 0) | None \<Rightarrow> (tbl, - EAGAIN))"

interpretation pci_drivers: registry pci_register_driver id "- EAGAIN"
  by unfold_locales (simp_all add: pci_register_driver_def)

definition read_device :: "cfg_space \<Rightarrow> u8 \<Rightarrow> u8 \<Rightarrow> u8 \<Rightarrow> pcidev_struct" where
  "read_device cfg bus slot fnc =
     (let device = bare_device bus slot fnc;
          device = device\<lparr>vendor_id := pci_cfg_read16 cfg device PCI_VENDOR_ID\<rparr>;
          device = device\<lparr>device_id := pci_cfg_read16 cfg device PCI_DEVICE_ID\<rparr>;
          device = device\<lparr>revision := pci_cfg_read8 cfg device PCI_REVISION\<rparr>;
          device = device\<lparr>prog_if := pci_cfg_read8 cfg device PCI_PROG_IF\<rparr>;
          device = device\<lparr>sub_class := pci_cfg_read8 cfg device PCI_SUBCLASS\<rparr>
      in device\<lparr>class_no := pci_cfg_read8 cfg device PCI_CLASS\<rparr>)"

primrec probe_ids :: "(u16 \<times> u16) list \<Rightarrow> (pcidev_struct \<Rightarrow> 's \<Rightarrow> ('s \<times> s32) exec) \<Rightarrow> pcidev_struct \<Rightarrow> 's \<Rightarrow> 's exec" where
  "probe_ids [] probe device s = fail Out_Of_Bounds"
| "probe_ids (p # ps) probe device s =
     (if fst p = 0 then ret s
      else bindX (if fst p = vendor_id device \<and> snd p = device_id device
                  then bindX (probe device s) (\<lambda>(s, _). ret s) else ret s)
             (probe_ids ps probe device))"

definition probe_drivers :: "'s pci_driver_struct option list \<Rightarrow> pcidev_struct \<Rightarrow> 's \<Rightarrow> 's exec" where
  "probe_drivers drvs device =
     foldX (\<lambda>d s. case d of None \<Rightarrow> ret s | Some d \<Rightarrow> probe_ids (ids d) (driver_probe d) device s) drvs"

definition add_pci_device :: "cfg_space \<Rightarrow> nat \<Rightarrow> u8 \<Rightarrow> u8 \<Rightarrow> u8 \<Rightarrow> 's pci_state \<Rightarrow> 's pci_state exec" where
  "add_pci_device cfg dev_id bus slot fnc s =
     (if DEVICES \<le> dev_id then fail Out_Of_Bounds
      else let device = read_device cfg bus slot fnc;
               s = s\<lparr>devices := (devices s)[dev_id := Some device]\<rparr>
           in bindX (probe_drivers (drivers s) device (kernel s)) (\<lambda>k. ret (s\<lparr>kernel := k\<rparr>)))"

definition scan_function :: "cfg_space \<Rightarrow> u8 \<Rightarrow> u8 \<Rightarrow> u8 \<Rightarrow> 's pci_state \<Rightarrow> 's pci_state exec" where
  "scan_function cfg bus slot fnc s =
     (if pci_is_present cfg bus slot fnc
      then let i = pci_device_index s
           in add_pci_device cfg i bus slot fnc (s\<lparr>pci_device_index := i + 1\<rparr>)
      else ret s)"

definition setup_pci :: "cfg_space \<Rightarrow> 's pci_state \<Rightarrow> 's pci_state exec" where
  "setup_pci cfg s =
     foldX (\<lambda>bus. foldX (\<lambda>slot s.
       if pci_is_present cfg (of_nat bus) (of_nat slot) 0
       then foldX (\<lambda>fnc. scan_function cfg (of_nat bus) (of_nat slot) (of_nat fnc)) [0..<8] s
       else ret s) [0..<32]) [0..<256] (s\<lparr>pci_device_index := 0\<rparr>)"

section \<open>The configuration address\<close>

lemma small_word_bit:
  assumes "unat w < 2 ^ k" "k \<le> n"
  shows "\<not> bit (w :: u8) n"
proof
  assume "bit w n"
  then have "bit (unat w) n" using bit_imp_le_length [of w n] by (simp add: bit_unsigned_iff)
  then have "odd (unat w div 2 ^ n)" by (simp add: bit_iff_odd)
  then have "unat w div 2 ^ n \<noteq> 0" by (metis even_zero)
  then have "2 ^ n \<le> unat w" by (simp add: div_eq_0_iff)
  moreover have "(2 :: nat) ^ k \<le> 2 ^ n" using assms(2) by simp
  ultimately show False using assms(1) by linarith
qed

lemma bit_252: "bit (252 :: u8) n \<longleftrightarrow> 2 \<le> n \<and> n < 8"
proof (cases "n < 8")
  case True
  then have "n \<in> {0, 1, 2, 3, 4, 5, 6, 7}" by auto
  then show ?thesis by (auto simp: bit_iff_odd)
next
  case False
  then show ?thesis using bit_imp_le_length [of "252 :: u8" n] by auto
qed

text \<open>
  The configuration address has each part of the device's position in bits of its own: the bus in 16 to
  23, the slot in 11 to 15, the function in 8 to 10, the register's word in 2 to 7, and the enable bit, for slots below 32 and
  functions below 8; so every part can be read back, and two positions never share an address.
\<close>

theorem cfg_address_fields:
  assumes "slot_no d < 32" "function_no d < 8"
  shows "ucast (drop_bit 16 (cfg_address d off)) = bus_no d \<and>
    ucast (take_bit 5 (drop_bit 11 (cfg_address d off))) = slot_no d \<and>
    ucast (take_bit 3 (drop_bit 8 (cfg_address d off))) = function_no d \<and>
    ucast (cfg_address d off) = off AND 0xfc \<and> bit (cfg_address d off) 31"
proof -
  have s: "\<not> bit (slot_no d) n" if "5 \<le> n" for n using small_word_bit [of "slot_no d" 5 n] assms(1) that by (simp add: word_less_nat_alt)
  have f: "\<not> bit (function_no d) n" if "3 \<le> n" for n using small_word_bit [of "function_no d" 3 n] assms(2) that by (simp add: word_less_nat_alt)
  note b = cfg_address_def bit_simps bit_BIT bit_252
  have "ucast (drop_bit 16 (cfg_address d off)) = bus_no d"
    by (rule bit_word_eqI) (auto simp: b s f)
  moreover have "ucast (take_bit 5 (drop_bit 11 (cfg_address d off))) = slot_no d"
    by (rule bit_word_eqI, rename_tac n, case_tac "n < 5") (auto simp: b s f)
  moreover have "ucast (take_bit 3 (drop_bit 8 (cfg_address d off))) = function_no d"
    by (rule bit_word_eqI, rename_tac n, case_tac "n < 3") (auto simp: b f)
  moreover have "ucast (cfg_address d off) = off AND 0xfc"
    by (rule bit_word_eqI) (auto simp: b)
  moreover have "bit (cfg_address d off) 31" by (simp add: b)
  ultimately show ?thesis by blast
qed

theorem cfg_address_fields_witness:
  "ucast (take_bit 5 (drop_bit 11 (cfg_address (bare_device 2 31 7) 0x10))) = (31 :: u8)"
  using cfg_address_fields [of "bare_device 2 31 7" "0x10"] by (simp add: bare_device_def)

section \<open>Enumeration\<close>

text \<open>The functions a scan finds, in its order; functions other than 0 only where function 0 answers.\<close>

definition present_functions :: "cfg_space \<Rightarrow> (nat \<times> nat \<times> nat) list" where
  "present_functions cfg = concat (map (\<lambda>bus. concat (map (\<lambda>slot.
     if pci_is_present cfg (of_nat bus) (of_nat slot) 0
     then map (\<lambda>fnc. (bus, slot, fnc)) (filter (\<lambda>fnc. pci_is_present cfg (of_nat bus) (of_nat slot) (of_nat fnc)) [0..<8])
     else []) [0..<32])) [0..<256])"

definition device_at :: "cfg_space \<Rightarrow> nat \<times> nat \<times> nat \<Rightarrow> pcidev_struct" where
  "device_at cfg p = (case p of (bus, slot, fnc) \<Rightarrow> read_device cfg (of_nat bus) (of_nat slot) (of_nat fnc))"

definition add_next :: "cfg_space \<Rightarrow> nat \<times> nat \<times> nat \<Rightarrow> 's pci_state \<Rightarrow> 's pci_state exec" where
  "add_next cfg p s = (case p of (bus, slot, fnc) \<Rightarrow>
     add_pci_device cfg (pci_device_index s) (of_nat bus) (of_nat slot) (of_nat fnc)
       (s\<lparr>pci_device_index := pci_device_index s + 1\<rparr>))"

lemma foldX_cong: "(\<And>x s. x \<in> set xs \<Longrightarrow> f x s = g x s) \<Longrightarrow> foldX f xs s = foldX g xs s"
  by (induction xs arbitrary: s) (auto intro!: bindX_cong)

lemma setup_pci_foldX:
  "setup_pci cfg s = foldX (add_next cfg) (present_functions cfg) (s\<lparr>pci_device_index := 0\<rparr>)"
proof -
  have f: "foldX (\<lambda>fnc. scan_function cfg (of_nat bus) (of_nat slot) (of_nat fnc)) [0..<8] s' =
      foldX (add_next cfg) (map (\<lambda>fnc. (bus, slot, fnc))
        (filter (\<lambda>fnc. pci_is_present cfg (of_nat bus) (of_nat slot) (of_nat fnc)) [0..<8])) s'" for bus slot s'
    unfolding foldX_map scan_function_def Let_def foldX_if [symmetric]
    by (rule foldX_cong) (simp add: add_next_def)
  show ?thesis
    unfolding setup_pci_def present_functions_def foldX_concat foldX_map
    by (intro foldX_cong) (simp add: f)
qed

text \<open>Probes that return, for identifier lists that are terminated.\<close>

definition drivers_ok :: "'s pci_driver_struct option list \<Rightarrow> bool" where
  "drivers_ok drvs \<longleftrightarrow> (\<forall>d. Some d \<in> set drvs \<longrightarrow>
     (\<exists>p\<in>set (ids d). fst p = 0) \<and> (\<forall>dev s. \<exists>s' r. driver_probe d dev s = ret (s', r)))"

lemma probe_ids_returns:
  "\<exists>p\<in>set ps. fst p = 0 \<Longrightarrow> (\<And>dev s. \<exists>s' r. f dev s = ret (s', r)) \<Longrightarrow> \<exists>s'. probe_ids ps f dev s = ret s'"
proof (induction ps arbitrary: s)
  case (Cons p ps)
  show ?case
  proof (cases "fst p = 0")
    case False
    with Cons.prems have z: "\<exists>p\<in>set ps. fst p = 0" by auto
    obtain s1 r where "f dev s = ret (s1, r)" using Cons.prems(2) by blast
    then obtain s' where "(if fst p = vendor_id dev \<and> snd p = device_id dev
        then bindX (f dev s) (\<lambda>(s, _). ret s) else ret s) = ret s'"
      by (cases "fst p = vendor_id dev \<and> snd p = device_id dev") auto
    with Cons.IH [OF z Cons.prems(2), of s'] False show ?thesis by simp
  qed simp
qed simp

lemma probe_drivers_returns: "drivers_ok drvs \<Longrightarrow> \<exists>s'. probe_drivers drvs dev s = ret s'"
  unfolding probe_drivers_def
proof (induction drvs arbitrary: s)
  case (Cons d drvs)
  then have ok: "drivers_ok drvs" by (auto simp: drivers_ok_def)
  have "\<exists>s'. (case d of None \<Rightarrow> ret s | Some d \<Rightarrow> probe_ids (ids d) (driver_probe d) dev s) = ret s'"
  proof (cases d)
    case (Some d')
    with Cons.prems show ?thesis by (auto simp: drivers_ok_def intro!: probe_ids_returns)
  qed simp
  with Cons.IH [OF ok] show ?case by auto
qed simp

lemma add_next_all:
  assumes "drivers_ok (drivers s)" "devices s = packed DEVICES ds" "pci_device_index s = length ds" "length ds \<le> DEVICES"
  shows "if length ds + length ps \<le> DEVICES
    then \<exists>s'. foldX (add_next cfg) ps s = ret s' \<and> devices s' = packed DEVICES (ds @ map (device_at cfg) ps) \<and>
      pci_device_index s' = length ds + length ps
    else foldX (add_next cfg) ps s = fail Out_Of_Bounds"
  using assms
proof (induction ps arbitrary: s ds)
  case (Cons p ps)
  obtain bus slot fnc where p: "p = (bus, slot, fnc)" by (cases p)
  show ?case
  proof (cases "length ds < DEVICES")
    case False
    with Cons.prems show ?thesis by (simp add: p add_next_def add_pci_device_def)
  next
    case True
    let ?d = "device_at cfg p"
    obtain k where k: "probe_drivers (drivers s) ?d (kernel s) = ret k"
      using probe_drivers_returns [OF Cons.prems(1)] by blast
    define s1 where "s1 = s\<lparr>devices := packed DEVICES (ds @ [?d]), pci_device_index := length ds + 1, kernel := k\<rparr>"
    have "add_next cfg p s = ret s1"
      using True Cons.prems k by (simp add: p add_next_def add_pci_device_def device_at_def packed_update s1_def Let_def)
    moreover have "if length (ds @ [?d]) + length ps \<le> DEVICES
      then \<exists>s'. foldX (add_next cfg) ps s1 = ret s' \<and> devices s' = packed DEVICES ((ds @ [?d]) @ map (device_at cfg) ps) \<and>
        pci_device_index s' = length (ds @ [?d]) + length ps
      else foldX (add_next cfg) ps s1 = fail Out_Of_Bounds"
      by (rule Cons.IH) (use True Cons.prems in \<open>simp_all add: s1_def\<close>)
    ultimately show ?thesis by (simp split: if_splits)
  qed
qed simp

text \<open>
  C16: Enumeration. When the registered probes return, the scan fills the device table with all functions present
  (those of a slot whose function 0 answers), in the order of bus, slot and function, each with the identifiers its
  configuration space gives. It does not check the size of the table: with more than 128 functions it writes past its end.
\<close>

theorem setup_pci_spec:
  assumes "drivers_ok (drivers s)" "devices s = replicate DEVICES None"
  shows "if length (present_functions cfg) \<le> DEVICES
    then \<exists>s'. setup_pci cfg s = ret s' \<and> devices s' = packed DEVICES (map (device_at cfg) (present_functions cfg)) \<and>
      pci_device_index s' = length (present_functions cfg)
    else setup_pci cfg s = fail Out_Of_Bounds"
  using add_next_all [of "s\<lparr>pci_device_index := 0\<rparr>" "[]" "present_functions cfg" cfg] assms
  by (simp add: setup_pci_foldX packed_def split: if_splits)

text \<open>A machine without any device: the bus reads as all ones.\<close>

lemma present_functions_none: "present_functions (\<lambda>_. - 1) = []"
proof -
  have "\<not> pci_is_present (\<lambda>_. - 1) b s f" for b s f
    by (simp add: pci_is_present_def pci_cfg_read16_def pci_cfg_read32_def) 
  then show ?thesis by (simp add: present_functions_def)
qed

theorem setup_pci_spec_witness:
  "\<exists>s'. setup_pci (\<lambda>_. - 1) \<lparr>devices = replicate DEVICES None, drivers = replicate DRIVERS None, pci_device_index = 0, kernel = ()\<rparr> = ret s' \<and>
     pci_device_index s' = 0"
  using setup_pci_spec [of "\<lparr>devices = replicate DEVICES None, drivers = replicate DRIVERS None, pci_device_index = 0, kernel = ()\<rparr>" "\<lambda>_. - 1"]
  by (auto simp: drivers_ok_def present_functions_none)

end
