(* ===== verification/Arch.thy ===== *)
theory Arch
  imports Prelude
begin

text \<open>
  The processor tables and the interrupt path: \<open>arch/i686/gdt.h\<close>, \<open>gdt.c\<close>, \<open>idt.h\<close>, \<open>idt.c\<close>
  and \<open>kernel/interrupt.c\<close>. The static
  tables are lists; the addresses of the tables and of the assembler entry points are arguments; writes to
  I/O ports are returned as a list of port and value, in order. Loading the tables into the processor
  (\<open>lgdt\<close>, \<open>ltr\<close>, \<open>lidt\<close>) is not part of the state.
\<close>

section \<open>Global descriptor table\<close>

definition VALID :: u8 where "VALID = 0x80"
definition OFF_32 :: u8 where "OFF_32 = 0x40"
definition SYS_NON :: u8 where "SYS_NON = 0x10"
definition ACC_SUP :: u8 where "ACC_SUP = 0x00"
definition ACC_USR :: u8 where "ACC_USR = 0x60"
definition GRAN_4K :: u8 where "GRAN_4K = 0x80"
definition CXR :: u8 where "CXR = 0x0A"
definition DRW :: u8 where "DRW = 0x02"
definition GDT_ENTRIES :: nat where "GDT_ENTRIES = 6"

lemmas gdt_flag_defs = VALID_def OFF_32_def SYS_NON_def ACC_SUP_def ACC_USR_def GRAN_4K_def CXR_def DRW_def

record gdtd_struct =
  gdtd_size :: u16
  gdtd_addr :: u32

record gdte_struct =
  g_limit :: u16
  base_low :: u16
  base_middle :: u8
  access :: u8
  g_flags :: u8
  base_high :: u8

text \<open>The fields of the task state segment that the kernel sets; the others stay zero.\<close>

record tsse_struct =
  esp0 :: u32
  ss0 :: u32
  tss_es :: u32
  tss_cs :: u32
  tss_ss :: u32
  tss_ds :: u32
  tss_fs :: u32
  tss_gs :: u32

definition sizeof_tss :: u32 where "sizeof_tss = 104"

definition setup_entry :: "gdte_struct list \<Rightarrow> nat \<Rightarrow> u32 \<Rightarrow> u32 \<Rightarrow> u8 \<Rightarrow> u8 \<Rightarrow> gdte_struct list" where
  "setup_entry gdt entry base limit acc flags =
     gdt[entry := \<lparr>g_limit = ucast (limit AND 0xffff), base_low = ucast (base AND 0xffff),
       base_middle = ucast (drop_bit 16 base AND 0xff), access = acc,
       g_flags = ucast (drop_bit 16 limit AND 0x0f) OR (flags AND 0xf0), base_high = ucast (drop_bit 24 base AND 0xff)\<rparr>]"

definition setup_gdt :: "addr \<Rightarrow> addr \<Rightarrow> gdte_struct list \<times> tsse_struct \<Rightarrow> gdte_struct list \<times> tsse_struct \<times> gdtd_struct" where
  "setup_gdt gdt_addr tss_addr = (\<lambda>(gdt, tss).
     (let gdt_descr = \<lparr>gdtd_size = of_nat (8 * GDT_ENTRIES - 1), gdtd_addr = gdt_addr\<rparr>;
          gdt = setup_entry gdt 0 0 0 0 0;
          gdt = setup_entry gdt 1 0 0xFFFFF (VALID OR ACC_SUP OR SYS_NON OR CXR) (GRAN_4K OR OFF_32);
          gdt = setup_entry gdt 2 0 0xFFFFF (VALID OR ACC_SUP OR SYS_NON OR DRW) (GRAN_4K OR OFF_32);
          gdt = setup_entry gdt 3 0 0xFFFFF (VALID OR ACC_USR OR SYS_NON OR CXR) (GRAN_4K OR OFF_32);
          gdt = setup_entry gdt 4 0 0xFFFFF (VALID OR ACC_USR OR SYS_NON OR DRW) (GRAN_4K OR OFF_32);
          gdt = setup_entry gdt 5 tss_addr sizeof_tss 0xe9 0x00;
          tss = tss\<lparr>ss0 := 0x10, esp0 := 0, tss_cs := 0x08, tss_ss := 0x10, tss_ds := 0x10, tss_es := 0x10,
                    tss_fs := 0x10, tss_gs := 0x10\<rparr>
      in (gdt, tss, gdt_descr)))"

definition update_tss :: "tsse_struct \<Rightarrow> u32 \<Rightarrow> tsse_struct" where
  "update_tss tss sp = tss\<lparr>esp0 := sp\<rparr>"

section \<open>Interrupt descriptor table\<close>

definition INT_GATE :: u8 where "INT_GATE = 0x0e"
definition INT_TRAP :: u8 where "INT_TRAP = 0x0f"
definition INT_PRESENT :: u8 where "INT_PRESENT = 0x80"
definition INT_SUPV :: u8 where "INT_SUPV = 0x00"
definition INT_USER :: u8 where "INT_USER = 0x60"
definition IDT_ENTRIES :: nat where "IDT_ENTRIES = 256"

lemmas idt_flag_defs = INT_GATE_def INT_TRAP_def INT_PRESENT_def INT_SUPV_def INT_USER_def

record idt_entry_struct =
  offset_low :: u16
  selector :: u16
  idt_zero :: u8
  idt_type :: u8
  offset_high :: u16

record idt_desc_struct =
  idt_size :: u16
  idt_addr :: u32

type_synonym port_writes = "(u16 \<times> u8) list"

definition set_idt_entry :: "idt_entry_struct list \<Rightarrow> nat \<Rightarrow> addr \<Rightarrow> u8 \<Rightarrow> idt_entry_struct list" where
  "set_idt_entry idt entry handler flags =
     idt[entry := \<lparr>offset_low = ucast (handler AND 0x0000ffff), selector = 0x0008, idt_zero = 0, idt_type = flags,
       offset_high = ucast (drop_bit 16 (handler AND 0xffff0000))\<rparr>]"

definition pic_init :: port_writes where
  "pic_init = [(0x20, 0x11), (0xA0, 0x11), (0x21, 0x20), (0xA1, 0x28), (0x21, 0x04), (0xA1, 0x02),
     (0x21, 0x01), (0xA1, 0x01), (0x21, 0x00), (0xA1, 0x00)]"

text \<open>The loops of \<open>setup_exc\<close> and \<open>setup_irq\<close>: one handler stub after the other, \<open>len\<close> bytes apart.\<close>

primrec install_stubs :: "nat \<Rightarrow> nat \<Rightarrow> addr \<Rightarrow> u32 \<Rightarrow> idt_entry_struct list \<Rightarrow> idt_entry_struct list" where
  "install_stubs 0 i ptr len idt = idt"
| "install_stubs (Suc n) i ptr len idt =
     install_stubs n (Suc i) (ptr + len) len (set_idt_entry idt i ptr (INT_PRESENT OR INT_GATE OR INT_SUPV))"

definition setup_exc :: "addr \<Rightarrow> addr \<Rightarrow> idt_entry_struct list \<Rightarrow> idt_entry_struct list" where
  "setup_exc exc0 exc1 idt = install_stubs 32 0 exc0 (exc1 - exc0) idt"

definition setup_irq :: "addr \<Rightarrow> addr \<Rightarrow> idt_entry_struct list \<Rightarrow> idt_entry_struct list \<times> port_writes" where
  "setup_irq irq0 irq1 idt = (install_stubs 16 32 irq0 (irq1 - irq0) idt, pic_init)"

definition setup_idt :: "addr \<Rightarrow> addr \<Rightarrow> addr \<Rightarrow> addr \<Rightarrow> addr \<Rightarrow> addr \<Rightarrow> idt_entry_struct list \<Rightarrow>
    idt_entry_struct list \<times> idt_desc_struct \<times> port_writes" where
  "setup_idt idt_address exc0 exc1 irq0 irq1 syscall_handler idt =
     (let idt_desc = \<lparr>idt_size = of_nat (8 * IDT_ENTRIES - 1), idt_addr = idt_address\<rparr>;
          idt = setup_exc exc0 exc1 idt;
          (idt, out) = setup_irq irq0 irq1 idt;
          idt = foldl (\<lambda>idt i. set_idt_entry idt i 0 0) idt [32 + 16..<IDT_ENTRIES];
          idt = set_idt_entry idt 0x80 syscall_handler (INT_GATE OR INT_PRESENT OR INT_USER)
      in (idt, idt_desc, out))"

section \<open>Interrupt requests\<close>

text \<open>
  The table of handlers has 256 entries and is indexed without a check. A handler is a function on the
  kernel's state.
\<close>

definition register_irq :: "'f option list \<Rightarrow> u32 \<Rightarrow> 'f \<Rightarrow> ('f option list \<times> s32) exec" where
  "register_irq irq_handlers irq handler =
     (if length irq_handlers \<le> unat irq then fail Out_Of_Bounds
      else if irq_handlers ! unat irq = None then ret (irq_handlers[unat irq := Some handler], 0)
      else ret (irq_handlers, - 1))"

definition unregister_irq :: "'f option list \<Rightarrow> u32 \<Rightarrow> ('f option list \<times> s32) exec" where
  "unregister_irq irq_handlers irq =
     (if length irq_handlers \<le> unat irq then fail Out_Of_Bounds
      else if irq_handlers ! unat irq \<noteq> None then ret (irq_handlers[unat irq := None], 0)
      else ret (irq_handlers, - 1))"

definition irq_handler :: "('s \<Rightarrow> 's exec) option list \<Rightarrow> u32 \<Rightarrow> 's \<Rightarrow> 's exec" where
  "irq_handler irq_handlers irq s =
     (if length irq_handlers \<le> unat irq then fail Out_Of_Bounds
      else case irq_handlers ! unat irq of None \<Rightarrow> ret s | Some handler \<Rightarrow> handler s)"

definition irq_handler_i686 :: "('s \<Rightarrow> 's exec) option list \<Rightarrow> u32 \<Rightarrow> 's \<Rightarrow> ('s \<times> port_writes) exec" where
  "irq_handler_i686 irq_handlers irq s =
     bindX (irq_handler irq_handlers irq s) (\<lambda>s.
       ret (s, if 32 \<le> irq \<and> irq < 32 + 16
               then (if 32 + 8 \<le> irq then [(0xa0, 0x20)] else []) @ [(0x20, 0x20)] else []))"

section \<open>What the processor reads back\<close>

definition seg_base :: "gdte_struct \<Rightarrow> u32" where
  "seg_base e = ucast (base_low e) OR push_bit 16 (ucast (base_middle e)) OR push_bit 24 (ucast (base_high e))"

definition seg_limit :: "gdte_struct \<Rightarrow> u32" where
  "seg_limit e = ucast (g_limit e) OR push_bit 16 (ucast (g_flags e AND 0x0f))"

definition seg_dpl :: "gdte_struct \<Rightarrow> u8" where "seg_dpl e = take_bit 2 (drop_bit 5 (access e))"

definition gate_handler :: "idt_entry_struct \<Rightarrow> addr" where
  "gate_handler e = ucast (offset_low e) OR push_bit 16 (ucast (offset_high e))"

lemma mask_words:
  "(0xffff :: u32) = mask 16" "(0xff :: u32) = mask 8" "(0x0f :: u32) = mask 4" "(0x0f :: u8) = mask 4"
  "(0xf0 :: u8) = NOT (mask 4)"
  by (simp_all add: mask_eq_exp_minus_1)

lemma bit_0xffff0000: "bit (0xffff0000 :: u32) n \<longleftrightarrow> 16 \<le> n \<and> n < 32"
proof -
  have "(0xffff0000 :: u32) = NOT (mask 16)" by (simp add: mask_eq_exp_minus_1)
  then have "bit (0xffff0000 :: u32) n = bit (NOT (mask 16) :: u32) n" by (rule arg_cong)
  also have "\<dots> = (16 \<le> n \<and> n < 32)" by (auto simp: bit_not_iff bit_mask_iff)
  finally show ?thesis .
qed

lemma setup_entry_base: "i < length gdt \<Longrightarrow> seg_base (setup_entry gdt i base limit acc flags ! i) = base"
  unfolding setup_entry_def mask_words
  by (simp, rule bit_word_eqI, rename_tac n, case_tac "n < 16"; case_tac "n < 24")
    (auto simp: seg_base_def bit_simps)

lemma setup_entry_limit:
  assumes "i < length gdt"
  shows "seg_limit (setup_entry gdt i base limit acc flags ! i) = take_bit 20 limit"
  using assms unfolding setup_entry_def seg_limit_def mask_words
  by (simp, intro bit_word_eqI, rename_tac n, case_tac "n < 16"; case_tac "n < 20")
    (auto simp: bit_simps)

lemma setup_entry_other [simp]:
  "j \<noteq> i \<Longrightarrow> setup_entry gdt i base limit acc flags ! j = gdt ! j"
  "length (setup_entry gdt i base limit acc flags) = length gdt"
  by (simp_all add: setup_entry_def)

lemma setup_entry_access:
  "i < length gdt \<Longrightarrow> access (setup_entry gdt i base limit acc flags ! i) = acc"
  by (simp add: setup_entry_def)

lemma set_idt_entry_handler: "i < length idt \<Longrightarrow> gate_handler (set_idt_entry idt i h f ! i) = h"
  by (simp add: set_idt_entry_def, rule bit_word_eqI)
    (auto simp: gate_handler_def bit_simps mask_words bit_0xffff0000)

lemma set_idt_entry_simps [simp]:
  "length (set_idt_entry idt i h f) = length idt"
  "j \<noteq> i \<Longrightarrow> set_idt_entry idt i h f ! j = idt ! j"
  "i < length idt \<Longrightarrow> idt_type (set_idt_entry idt i h f ! i) = f"
  "i < length idt \<Longrightarrow> selector (set_idt_entry idt i h f ! i) = 8"
  by (simp_all add: set_idt_entry_def)

lemma install_stubs_nth:
  "i + n \<le> length idt \<Longrightarrow> length (install_stubs n i p len idt) = length idt \<and>
   (\<forall>j. (i \<le> j \<and> j < i + n \<longrightarrow> gate_handler (install_stubs n i p len idt ! j) = p + of_nat (j - i) * len \<and>
          idt_type (install_stubs n i p len idt ! j) = INT_PRESENT OR INT_GATE OR INT_SUPV) \<and>
        (\<not> (i \<le> j \<and> j < i + n) \<longrightarrow> install_stubs n i p len idt ! j = idt ! j))"
proof (induction n arbitrary: i p idt)
  case (Suc n)
  let ?idt = "set_idt_entry idt i p (INT_PRESENT OR INT_GATE OR INT_SUPV)"
  from Suc.prems have "Suc i + n \<le> length ?idt" by simp
  note IH = Suc.IH [OF this, of "p + len"]
  show ?case
  proof (intro conjI allI impI)
    fix j assume j: "i \<le> j \<and> j < i + Suc n"
    show "gate_handler (install_stubs (Suc n) i p len idt ! j) = p + of_nat (j - i) * len"
    proof (cases "j = i")
      case True
      with IH Suc.prems show ?thesis by (simp add: set_idt_entry_handler)
    next
      case False
      then obtain k where k: "j = Suc i + k" "k < n"
        using j less_eqE [of "Suc i" j] by auto
      with spec [OF conjunct2 [OF IH], of j] show ?thesis by (simp add: algebra_simps)
    qed
    show "idt_type (install_stubs (Suc n) i p len idt ! j) = INT_PRESENT OR INT_GATE OR INT_SUPV"
      using IH Suc.prems j by (cases "j = i") auto
  qed (use IH in auto)
qed auto

section \<open>Results\<close>

text \<open>
  The descriptor table the processor reads: a null descriptor; kernel and user code and data segments
  with base 0 and 2^20 pages of 4 KB, so the whole address space, with privilege 0 and 3; and the task state segment at
  its address. The segments are present, code is executable, and the table's limit covers its six entries.
\<close>

theorem setup_gdt_spec:
  assumes "length gdt = 6" "setup_gdt gdt_addr tss_addr (gdt, tss) = (gdt', tss', descr)"
  shows "(\<forall>i. 1 \<le> i \<and> i \<le> 4 \<longrightarrow>
      seg_base (gdt' ! i) = 0 \<and> seg_limit (gdt' ! i) = 0xFFFFF \<and> bit (g_flags (gdt' ! i)) 7 \<and> bit (access (gdt' ! i)) 7 \<and>
      seg_dpl (gdt' ! i) = (if i \<le> 2 then 0 else 3) \<and> bit (access (gdt' ! i)) 3 = (i = 1 \<or> i = 3)) \<and>
    seg_base (gdt' ! 0) = 0 \<and> access (gdt' ! 0) = 0 \<and>
    seg_base (gdt' ! 5) = tss_addr \<and> seg_limit (gdt' ! 5) = 104 \<and> ss0 tss' = 0x10 \<and>
    descr = \<lparr>gdtd_size = 47, gdtd_addr = gdt_addr\<rparr>"
proof -
  have g: "gdt' = setup_entry (setup_entry (setup_entry (setup_entry (setup_entry (setup_entry gdt 0 0 0 0 0)
      1 0 0xFFFFF 0x9a 0xc0) 2 0 0xFFFFF 0x92 0xc0) 3 0 0xFFFFF 0xfa 0xc0) 4 0 0xFFFFF 0xf2 0xc0) 5 tss_addr 104 0xe9 0"
    "descr = \<lparr>gdtd_size = 47, gdtd_addr = gdt_addr\<rparr>" "ss0 tss' = 0x10"
    using assms(2) by (auto simp: setup_gdt_def Let_def gdt_flag_defs GDT_ENTRIES_def sizeof_tss_def)
  have f: "g_flags (setup_entry l i 0 0xFFFFF a 0xc0 ! i) = 0xcf" if "i < length l" for l i a
    using that by (simp add: setup_entry_def)
  have t: "take_bit 20 (0xFFFFF :: u32) = 0xFFFFF" "take_bit 20 (104 :: u32) = 104" by simp_all
  have i: "1 \<le> i \<and> i \<le> 4 \<longleftrightarrow> i = 1 \<or> i = 2 \<or> i = 3 \<or> i = (4 :: nat)" for i by auto
  show ?thesis
    unfolding i g
    by (simp add: assms(1) setup_entry_base setup_entry_limit setup_entry_access f t seg_dpl_def bit_iff_odd
        take_bit_eq_mod drop_bit_eq_div all_conj_distrib)
qed

definition zero_gdt :: "gdte_struct list \<times> tsse_struct" where
  "zero_gdt = (replicate 6 \<lparr>g_limit = 0, base_low = 0, base_middle = 0, access = 0, g_flags = 0, base_high = 0\<rparr>,
     \<lparr>esp0 = 0, ss0 = 0, tss_es = 0, tss_cs = 0, tss_ss = 0, tss_ds = 0, tss_fs = 0, tss_gs = 0\<rparr>)"

theorem setup_gdt_spec_witness:
  "seg_base (fst (setup_gdt 0x1000 0x12345678 zero_gdt) ! 5) = 0x12345678"
proof -
  obtain gdt tss descr where r: "setup_gdt 0x1000 0x12345678 zero_gdt = (gdt, tss, descr)" by (metis prod_cases3)
  then show ?thesis
    using setup_gdt_spec [of "fst zero_gdt" "0x1000" "0x12345678" "snd zero_gdt"] by (simp add: zero_gdt_def)
qed

text \<open>
  C32: The interrupt table: the gates of the 32 exceptions and of the 16 interrupt requests lead to the
  stubs at equal distances from the first two, and only from kernel mode; gate 0x80 leads to the system
  call handler and is the only one open to user mode; all other gates are absent. The controllers are
  programmed to raise request \<open>n\<close> as interrupt \<open>32 + n\<close>.
\<close>

theorem setup_idt_spec:
  assumes "length idt = 256" "setup_idt a exc0 exc1 irq0 irq1 sysc idt = (idt', descr, out)" "i < 256"
  shows "gate_handler (idt' ! i) = (if i < 32 then exc0 + of_nat i * (exc1 - exc0)
      else if i < 48 then irq0 + of_nat (i - 32) * (irq1 - irq0) else if i = 0x80 then sysc else 0) \<and>
    idt_type (idt' ! i) = (if i < 48 then 0x8e else if i = 0x80 then 0xee else 0) \<and>
    idt_size descr = 2047 \<and>
    filter (\<lambda>w. fst w = 0x21) out ! 0 = (0x21, 32) \<and> filter (\<lambda>w. fst w = 0xA1) out ! 0 = (0xA1, 40)"
proof -
  define i1 where "i1 = install_stubs 32 0 exc0 (exc1 - exc0) idt"
  define i2 where "i2 = install_stubs 16 32 irq0 (irq1 - irq0) i1"
  define fill where "fill = (\<lambda>idt n. foldl (\<lambda>idt i. set_idt_entry idt i 0 0) idt [48..<n])"
  note s1 = install_stubs_nth [of 0 32 idt exc0 "exc1 - exc0", folded i1_def]
  note s2 = install_stubs_nth [of 32 16 i1 irq0 "irq1 - irq0", folded i2_def]
  have f: "n \<le> length j \<Longrightarrow> length (fill j n) = length j \<and>
      (\<forall>k. fill j n ! k = (if 48 \<le> k \<and> k < n then set_idt_entry j k 0 0 ! k else j ! k))" for j n
  proof (induction n)
    case (Suc n)
    then show ?case
      by (cases "48 \<le> n") (auto simp: fill_def less_Suc_eq set_idt_entry_def nth_list_update)
  qed (simp add: fill_def)
  have r: "idt' = set_idt_entry (fill i2 256) 0x80 sysc 0xee" "idt_size descr = 2047" "out = pic_init"
    using assms(2) by (auto simp: setup_idt_def setup_exc_def setup_irq_def Let_def i1_def i2_def fill_def IDT_ENTRIES_def idt_flag_defs)
  have l: "length i1 = 256" "length i2 = 256" using s1 s2 assms(1) by auto
  have flags: "INT_PRESENT OR INT_GATE OR INT_SUPV = 0x8e" by (simp add: idt_flag_defs)
  consider "i < 32" | "32 \<le> i" "i < 48" | "48 \<le> i" "i = 0x80" | "48 \<le> i" "i \<noteq> 0x80" by linarith
  then have "gate_handler (idt' ! i) = (if i < 32 then exc0 + of_nat i * (exc1 - exc0)
      else if i < 48 then irq0 + of_nat (i - 32) * (irq1 - irq0) else if i = 0x80 then sysc else 0) \<and>
    idt_type (idt' ! i) = (if i < 48 then 0x8e else if i = 0x80 then 0xee else 0)"
    using assms(3) s1 s2 f [of 256 i2] l assms(1) unfolding r(1)
    by cases (auto simp: flags set_idt_entry_handler)
  then show ?thesis using r(2,3) by (simp add: pic_init_def)
qed

definition zero_idt :: "idt_entry_struct list" where
  "zero_idt = replicate 256 \<lparr>offset_low = 0, selector = 0, idt_zero = 0, idt_type = 0, offset_high = 0\<rparr>"

theorem setup_idt_spec_witness:
  "gate_handler (fst (setup_idt 0 0x1000 0x1010 0x2000 0x2008 0x3000 zero_idt) ! 14) = 0x10e0 \<and>
   gate_handler (fst (setup_idt 0 0x1000 0x1010 0x2000 0x2008 0x3000 zero_idt) ! 128) = 0x3000"
proof -
  obtain idt descr out where r: "setup_idt 0 0x1000 0x1010 0x2000 0x2008 0x3000 zero_idt = (idt, descr, out)"
    by (metis prod_cases3)
  then show ?thesis
    using setup_idt_spec [OF _ r, of 14] setup_idt_spec [OF _ r, of 128] by (simp add: zero_idt_def)
qed

text \<open>
  C33: Interrupt requests. A handler registered for a free request runs on each such interrupt, after which
  the controllers are told that it is done: the first always, the second also for the requests 8 to 15. A request that has
  a handler refuses another one; after unregistering, an interrupt leaves the state as it is.
\<close>

theorem irq_dispatch_spec:
  assumes "length tbl = 256" "irq < 16" "tbl ! unat (32 + irq) = None" "handler s = ret s'"
  shows "\<exists>tbl'. register_irq tbl (32 + irq) handler = ret (tbl', 0) \<and>
    irq_handler_i686 tbl' (32 + irq) s = ret (s', (if irq < 8 then [] else [(0xa0, 0x20)]) @ [(0x20, 0x20)]) \<and>
    register_irq tbl' (32 + irq) h2 = ret (tbl', - 1) \<and>
    unregister_irq tbl' (32 + irq) = ret (tbl, 0)"
proof -
  have u: "unat (32 + irq) = 32 + unat irq" and i: "unat irq < 16"
    using assms(2) by (simp_all add: unat_add_nowrap word_less_nat_alt)
  have e: "tbl[32 + unat irq := None] = tbl" using assms(3) u by (metis list_update_id)
  show ?thesis
    by (rule exI [of _ "tbl[32 + unat irq := Some handler]"])
      (use assms i e in \<open>auto simp: register_irq_def unregister_irq_def irq_handler_i686_def irq_handler_def u
        word_less_nat_alt word_le_nat_alt\<close>)
qed

theorem irq_dispatch_spec_witness:
  "\<exists>tbl'. register_irq (replicate 256 None) (32 + 9) (\<lambda>n. ret (n + 1)) = ret (tbl', 0) \<and>
     irq_handler_i686 tbl' (32 + 9) (4 :: nat) = ret (5, [(0xa0, 0x20), (0x20, 0x20)])"
proof -
  have "replicate 256 (None :: (nat \<Rightarrow> nat exec) option) ! unat (32 + 9 :: u32) = None" by simp
  from irq_dispatch_spec [OF _ _ this, of "\<lambda>n. ret (n + 1)" 4 5] show ?thesis
    by auto
qed

end
