(* ===== verification/Paging.thy ===== *)
theory Paging
  imports Prelude
begin

text \<open>
  Page tables and page frames: \<open>arch/i686/paging.h\<close>, \<open>paging.c\<close>, \<open>mmhelper.c\<close>, \<open>pfalloc.c\<close>, and the memory
  map of the boot loader, \<open>memory.c\<close> and \<open>multiboot.h\<close>. The tables of an address space are a list of 512
  pointers and the 512 entries behind each pointer. The pages for new tables come from \<open>kmalloc\<close>, whose results are
  given as the list of addresses it will return; an empty list is an exhausted heap.
\<close>

section \<open>Address spaces\<close>

definition PAGESIZE :: u32 where "PAGESIZE = 4096"
definition PG_PRESENT :: u32 where "PG_PRESENT = 0x01"
definition PG_RDWR :: u32 where "PG_RDWR = 0x02"
definition PG_RDONLY :: u32 where "PG_RDONLY = 0x00"
definition PG_USER :: u32 where "PG_USER = 0x04"
definition PG_SUPV :: u32 where "PG_SUPV = 0x00"

record mm_tables_struct =
  ptr_table :: "u64 list"
  page_dir0 :: "u64 list"
  page_tables :: "addr list"
  ptables :: "addr \<Rightarrow> u64 list"
  pt_supply :: "addr list"

definition PTE_COUNT :: nat where "PTE_COUNT = 512"

text \<open>
  \<open>mm_physical\<close>: the index of the table is the address shifted by 22, the index in it comes from ten bits. \<open>cur\<close>
  is \<open>current_mm\<close>.
\<close>

definition mm_physical :: "mm_tables_struct option \<Rightarrow> addr \<Rightarrow> addr exec" where
  "mm_physical cur a =
     (case cur of None \<Rightarrow> ret a
      | Some mm \<Rightarrow>
          let t = unat (drop_bit 22 a); i = unat (drop_bit 12 (a AND 0x003ff000))
          in if length (page_tables mm) \<le> t then fail Out_Of_Bounds
             else if page_tables mm ! t = 0 \<or> length (ptables mm (page_tables mm ! t)) \<le> i then fail Out_Of_Bounds
             else let phys_addr = ucast (ptables mm (page_tables mm ! t) ! i AND 0xfffff000)
                  in ret (phys_addr + a mod PAGESIZE))"

definition get_pt_entry :: "mm_tables_struct option \<Rightarrow> mm_tables_struct \<Rightarrow> nat \<Rightarrow> mm_tables_struct exec" where
  "get_pt_entry cur mm pd_offset =
     (if length (page_tables mm) \<le> pd_offset then fail Out_Of_Bounds
      else if page_tables mm ! pd_offset = 0
      then case pt_supply mm of [] \<Rightarrow> fail Out_Of_Bounds
           | ptable # rest \<Rightarrow>
               let mm = mm\<lparr>pt_supply := rest, ptables := (ptables mm)(ptable := replicate PTE_COUNT 0),
                           page_tables := (page_tables mm)[pd_offset := ptable]\<rparr>
               in bindX (mm_physical cur ptable) (\<lambda>phys.
                  ret (mm\<lparr>page_dir0 := (page_dir0 mm)[pd_offset :=
                         ucast (phys OR PG_PRESENT OR PG_USER OR PG_RDWR)]\<rparr>))
      else ret mm)"

definition set_pte :: "mm_tables_struct \<Rightarrow> nat \<Rightarrow> nat \<Rightarrow> u64 \<Rightarrow> mm_tables_struct" where
  "set_pte mm pd_offset pt_offset v =
     (let ptable = page_tables mm ! pd_offset
      in mm\<lparr>ptables := (ptables mm)(ptable := (ptables mm ptable)[pt_offset := v])\<rparr>)"

primrec map_pages_loop :: "nat \<Rightarrow> mm_tables_struct option \<Rightarrow> mm_tables_struct \<Rightarrow> nat \<Rightarrow> nat \<Rightarrow> u32 \<Rightarrow> u32 \<Rightarrow> mm_tables_struct exec" where
  "map_pages_loop 0 cur mm pd_offset pt_offset phys_addr crflags = ret mm"
| "map_pages_loop (Suc pages) cur mm pd_offset pt_offset phys_addr crflags =
     bindX (get_pt_entry cur mm pd_offset) (\<lambda>mm.
       let mm = set_pte mm pd_offset pt_offset (ucast (phys_addr OR PG_PRESENT OR crflags))
       in if pt_offset + 1 = 512
          then map_pages_loop pages cur mm (pd_offset + 1) 0 (phys_addr + PAGESIZE) crflags
          else map_pages_loop pages cur mm pd_offset (pt_offset + 1) (phys_addr + PAGESIZE) crflags)"

definition map_pages :: "mm_tables_struct option \<Rightarrow> mm_tables_struct \<Rightarrow> u32 \<Rightarrow> u32 \<Rightarrow> addr \<Rightarrow> u32 \<Rightarrow> mm_tables_struct exec" where
  "map_pages cur mm start_page pages start_addr crflags =
     map_pages_loop (unat pages) cur mm (unat (start_page div 512)) (unat (start_page mod 512))
       (start_addr AND 0xfffff000) crflags"

definition mm_map :: "mm_tables_struct option \<Rightarrow> mm_tables_struct \<Rightarrow> addr \<Rightarrow> addr \<Rightarrow> u32 \<Rightarrow> u32 \<Rightarrow> mm_tables_struct exec" where
  "mm_map cur mm start_virt start_phys n crflags =
     (if start_virt mod PAGESIZE \<noteq> 0 \<or> start_phys mod PAGESIZE \<noteq> 0 then ret mm
      else if n < 1 then ret mm
      else let page_count = n div PAGESIZE;
               page_count = (if n mod PAGESIZE \<noteq> 0 then page_count + 1 else page_count)
           in map_pages cur mm (start_virt div PAGESIZE) page_count start_phys crflags)"

text \<open>
  \<open>mk_mmap\<close>: \<open>pagedir\<close> and the table addresses to come are what \<open>kmalloc\<close> returns. The structure with the
  512 pointers is not cleared: \<open>raw\<close> and \<open>rawpt\<close> are what the allocated memory, and the memory behind it,
  happens to hold.
\<close>

definition mk_mmap :: "addr \<Rightarrow> addr list \<Rightarrow> (addr \<Rightarrow> u64 list) \<Rightarrow> addr list \<Rightarrow> mm_tables_struct" where
  "mk_mmap pagedir raw rawpt supply =
     \<lparr>ptr_table = (replicate 4 0)[0 := ucast (pagedir OR PG_PRESENT)], page_dir0 = replicate PTE_COUNT 0,
      page_tables = raw, ptables = rawpt, pt_supply = supply\<rparr>"

text \<open>
  The control register bits of \<open>paging_enable\<close> and the steps of \<open>setup_paging\<close>: without PAE support the kernel
  panics, else it maps the kernel image one to one, makes the address space current and sets the control registers.
\<close>

definition paging_enable :: "bool \<Rightarrow> bool \<Rightarrow> u32 \<times> u32 \<Rightarrow> u32 \<times> u32" where
  "paging_enable pae_support smep_support = (\<lambda>(cr0, cr4).
     let cr4 = (if pae_support then cr4 OR BIT 5 else cr4);
         cr4 = (if smep_support then cr4 OR BIT 20 else cr4)
     in (cr0 OR BIT 16 OR BIT 31, cr4))"

text \<open>
  \<open>apply_mmap\<close>: \<open>pdpt\<close> is the address of the pointer table; the register \<open>cr3\<close> gets its translation, and the address
  space becomes \<open>current_mm\<close>.
\<close>

definition apply_mmap :: "mm_tables_struct option \<Rightarrow> addr \<Rightarrow> mm_tables_struct \<Rightarrow> (mm_tables_struct option \<times> addr) exec" where
  "apply_mmap cur pdpt mmap = bindX (mm_physical cur pdpt) (\<lambda>cr3. ret (Some mmap, cr3))"

text \<open>\<open>setup_pfalloc\<close>: one byte per page of the RAM; \<open>kmalloc\<close> does not clear them, \<open>raw\<close> is what they hold.\<close>

definition setup_pfalloc :: "u32 \<Rightarrow> (nat \<Rightarrow> u8) \<Rightarrow> u8 list" where
  "setup_pfalloc ram_size raw = map raw [0..<unat (ram_size div PAGESIZE)]"

text \<open>The features of the processor come from \<open>cpu_supports\<close>; the result is \<open>pframes\<close>, \<open>current_mm\<close> and the control registers.\<close>

definition setup_paging :: "bool \<Rightarrow> u32 \<Rightarrow> (nat \<Rightarrow> u8) \<Rightarrow> mm_tables_struct \<Rightarrow> addr \<Rightarrow> addr \<Rightarrow> u32 \<times> u32 \<Rightarrow>
    (u8 list \<times> mm_tables_struct option \<times> addr \<times> u32 \<times> u32) exec" where
  "setup_paging pae_support ram_size raw mm_default pdpt bss_end cr =
     (if \<not> pae_support then fail Panic
      else let pframes = setup_pfalloc ram_size raw
           in bindX (mm_map None mm_default 0 0 bss_end (PG_SUPV OR PG_RDWR)) (\<lambda>mm.
              bindX (apply_mmap None pdpt mm) (\<lambda>(cur, cr3).
                ret (pframes, cur, cr3, paging_enable pae_support False cr))))"

section \<open>Page frames\<close>

partial_function (option) free_page_loop :: "u8 list \<Rightarrow> nat \<Rightarrow> nat exec" where
  "free_page_loop pframes index =
     (if length pframes \<le> index then fail Out_Of_Bounds
      else if pframes ! index \<noteq> 0 then free_page_loop pframes (index + 1) else ret index)"

definition get_free_page :: "u8 list \<Rightarrow> (u8 list \<times> u32) exec" where
  "get_free_page pframes =
     bindX (free_page_loop pframes 0) (\<lambda>index.
       ret (pframes[index := pframes ! index + 1], of_nat index * PAGESIZE))"

definition alloc_page :: "u8 list \<Rightarrow> addr \<Rightarrow> (u8 list \<times> u32) exec" where
  "alloc_page pframes phys_addr =
     (if phys_addr mod PAGESIZE \<noteq> 0 then ret (pframes, 0)
      else let index = unat (phys_addr div PAGESIZE)
           in if length pframes \<le> index then fail Out_Of_Bounds
              else ret (pframes[index := pframes ! index + 1], of_nat index * PAGESIZE))"

definition release_page :: "u8 list \<Rightarrow> u32 \<Rightarrow> u8 list exec" where
  "release_page pframes page_id =
     (if length pframes \<le> unat page_id then fail Out_Of_Bounds
      else if pframes ! unat page_id \<noteq> 0 then ret (pframes[unat page_id := pframes ! unat page_id - 1])
      else ret pframes)"

section \<open>The memory map of the boot loader\<close>

text \<open>\<open>struct mmape_struct\<close>, packed: size of the entry at 0, base at 4, length at 12.\<close>

definition GB4 :: u64 where "GB4 = 0xffffffff"

partial_function (option) memscan_loop :: "mem \<Rightarrow> addr \<Rightarrow> addr \<Rightarrow> u32 \<Rightarrow> (mem \<times> u32) exec" where
  "memscan_loop m entry stop physical_size =
     (if entry < stop
      then let base_addr = load64 m (entry + 4);
               sz = load64 m (entry + 12);
               m = (if base_addr \<le> GB4 \<and> sz \<noteq> 0 \<and> GB4 \<le> base_addr + sz then store64 m (entry + 12) (GB4 - base_addr) else m);
               physical_size = physical_size + ucast (load64 m (entry + 12))
           in memscan_loop m (entry + load32 m entry + 4) stop physical_size
      else ret (m, physical_size))"

definition memscan :: "mem \<Rightarrow> addr \<Rightarrow> u32 \<Rightarrow> (mem \<times> u32) exec" where
  "memscan m mmap mmap_length = memscan_loop m mmap (mmap + mmap_length) 0"

section \<open>The mapping a set of tables describes\<close>

text \<open>The entry for a page number; a missing table has no entries present.\<close>

definition pte :: "mm_tables_struct \<Rightarrow> nat \<Rightarrow> u64" where
  "pte mm p = (let t = page_tables mm ! (p div 512) in if t = 0 then 0 else ptables mm t ! (p mod 512))"

definition tables_ok :: "mm_tables_struct \<Rightarrow> bool" where
  "tables_ok mm \<longleftrightarrow> length (page_tables mm) = 512 \<and>
     (\<forall>i<512. \<forall>j<512. page_tables mm ! i \<noteq> 0 \<longrightarrow> page_tables mm ! i = page_tables mm ! j \<longrightarrow> i = j) \<and>
     (\<forall>i<512. page_tables mm ! i \<noteq> 0 \<longrightarrow> length (ptables mm (page_tables mm ! i)) = 512) \<and>
     distinct (pt_supply mm) \<and> 0 \<notin> set (pt_supply mm) \<and> set (pt_supply mm) \<inter> set (page_tables mm) = {} \<and>
     card {i. i < 512 \<and> page_tables mm ! i = 0} \<le> length (pt_supply mm)"

lemma get_pt_entry_ok:
  assumes ok: "tables_ok mm" and pd: "pd < 512"
  obtains mm' where "get_pt_entry None mm pd = ret mm'" "tables_ok mm'" "page_tables mm' ! pd \<noteq> 0"
    "\<And>p. p < 262144 \<Longrightarrow> pte mm' p = pte mm p"
proof (cases "page_tables mm ! pd = 0")
  case False
  with assms that show thesis by (auto simp: get_pt_entry_def tables_ok_def)
next
  case True
  let ?Z = "\<lambda>mm. {i. i < 512 \<and> page_tables mm ! i = 0}"
  have l: "length (page_tables mm) = 512" using ok by (simp add: tables_ok_def)
  have "pd \<in> ?Z mm" using True pd by simp
  then have "0 < card (?Z mm)" by (auto simp: card_gt_0_iff)
  moreover have "card (?Z mm) \<le> length (pt_supply mm)" using ok unfolding tables_ok_def by blast
  ultimately have "0 < length (pt_supply mm)" by linarith
  then obtain t rest where sup: "pt_supply mm = t # rest" by (cases "pt_supply mm") auto
  then have t: "t \<noteq> 0" "t \<notin> set rest" "t \<notin> set (page_tables mm)" using ok by (auto simp: tables_ok_def)
  then have t': "i < 512 \<Longrightarrow> page_tables mm ! i \<noteq> t" for i using l nth_mem [of i "page_tables mm"] by auto
  define mm' where "mm' = mm\<lparr>pt_supply := rest, ptables := (ptables mm)(t := replicate PTE_COUNT 0),
      page_tables := (page_tables mm)[pd := t], page_dir0 := (page_dir0 mm)[pd := ucast (t OR PG_PRESENT OR PG_USER OR PG_RDWR)]\<rparr>"
  have g: "get_pt_entry None mm pd = ret mm'"
    using True pd l sup by (simp add: get_pt_entry_def mm_physical_def mm'_def Let_def)
  have n: "page_tables mm' ! i = (if i = pd then t else page_tables mm ! i)" if "i < 512" for i
    using that l by (simp add: mm'_def nth_list_update)
  have Z: "?Z mm' = ?Z mm - {pd}" using n t by (auto split: if_splits)
  have "card (?Z mm') \<le> length rest"
  proof -
    have "card (?Z mm - {pd}) = card (?Z mm) - 1" using \<open>pd \<in> ?Z mm\<close> by (rule card_Diff_singleton)
    with \<open>card (?Z mm) \<le> length (pt_supply mm)\<close> sup show ?thesis unfolding Z by simp
  qed
  moreover have "set rest \<inter> set (page_tables mm') = {}"
    using ok sup t set_update_subset_insert [of "page_tables mm" pd t] by (auto simp: mm'_def tables_ok_def)
  moreover have "\<forall>i<512. \<forall>j<512. page_tables mm' ! i \<noteq> 0 \<longrightarrow> page_tables mm' ! i = page_tables mm' ! j \<longrightarrow> i = j"
    using ok n t' by (simp add: tables_ok_def) metis
  moreover have "\<forall>i<512. page_tables mm' ! i \<noteq> 0 \<longrightarrow> length (ptables mm' (page_tables mm' ! i)) = 512"
    using ok n t' by (auto simp: tables_ok_def mm'_def PTE_COUNT_def)
  ultimately have "tables_ok mm'" using ok sup l by (simp add: tables_ok_def) (simp add: mm'_def)
  moreover have "pte mm' p = pte mm p" if "p < 262144" for p
  proof -
    have "p div 512 < 512" using that by (simp add: less_mult_imp_div_less)
    then show ?thesis using n [of "p div 512"] t' [of "p div 512"] True t
      by (auto simp: pte_def Let_def mm'_def PTE_COUNT_def)
  qed
  ultimately show thesis using that g n [OF pd] t by auto
qed

lemma set_pte_ok:
  assumes ok: "tables_ok mm" and pd: "pd < 512" "pt < 512" "page_tables mm ! pd \<noteq> 0"
  shows "tables_ok (set_pte mm pd pt v)"
    and "p < 262144 \<Longrightarrow> pte (set_pte mm pd pt v) p = (if p = pd * 512 + pt then v else pte mm p)"
proof -
  show "tables_ok (set_pte mm pd pt v)" using ok pd by (auto simp: tables_ok_def set_pte_def Let_def)
  assume "p < 262144"
  then have q: "p div 512 < 512" by (simp add: less_mult_imp_div_less)
  have "length (ptables mm (page_tables mm ! pd)) = 512" using ok pd by (simp add: tables_ok_def)
  moreover have "page_tables mm ! (p div 512) = page_tables mm ! pd \<longleftrightarrow> p div 512 = pd"
    using ok pd q by (auto simp: tables_ok_def)
  moreover have "p = pd * 512 + pt \<longleftrightarrow> p div 512 = pd \<and> p mod 512 = pt" using pd(2) by auto
  ultimately show "pte (set_pte mm pd pt v) p = (if p = pd * 512 + pt then v else pte mm p)"
    using pd by (auto simp: pte_def set_pte_def Let_def nth_list_update)
qed

definition page_entry :: "u32 \<Rightarrow> u32 \<Rightarrow> nat \<Rightarrow> u64" where
  "page_entry phys crflags k = ucast ((phys + of_nat k * PAGESIZE) OR PG_PRESENT OR crflags)"

lemma map_pages_loop_ok:
  assumes "tables_ok mm" "pd * 512 + pt + n \<le> 262144" "pt < 512"
  shows "\<exists>mm'. map_pages_loop n None mm pd pt phys crflags = ret mm' \<and> tables_ok mm' \<and>
    (\<forall>p<262144. pte mm' p = (if pd * 512 + pt \<le> p \<and> p < pd * 512 + pt + n
       then page_entry phys crflags (p - (pd * 512 + pt)) else pte mm p))"
  using assms
proof (induction n arbitrary: mm pd pt phys)
  case (Suc n)
  let ?p = "pd * 512 + pt"
  from Suc.prems have pd: "pd < 512" by linarith
  obtain mm1 where m1: "get_pt_entry None mm pd = ret mm1" "tables_ok mm1" "page_tables mm1 ! pd \<noteq> 0"
    "\<And>p. p < 262144 \<Longrightarrow> pte mm1 p = pte mm p" using get_pt_entry_ok [OF Suc.prems(1) pd] by blast
  define mm2 where "mm2 = set_pte mm1 pd pt (ucast (phys OR PG_PRESENT OR crflags))"
  note m2 = set_pte_ok [OF m1(2) pd Suc.prems(3) m1(3), where v = "ucast (phys OR PG_PRESENT OR crflags)", folded mm2_def]
  define pd' pt' where "pd' = (if pt + 1 = 512 then pd + 1 else pd)" and "pt' = (if pt + 1 = 512 then 0 else pt + 1)"
  have p': "pd' * 512 + pt' = ?p + 1" "pt' < 512" using Suc.prems(3) by (auto simp: pd'_def pt'_def)
  have step: "map_pages_loop (Suc n) None mm pd pt phys crflags = map_pages_loop n None mm2 pd' pt' (phys + PAGESIZE) crflags"
    by (simp add: m1(1) mm2_def pd'_def pt'_def Let_def)
  have b: "pd' * 512 + pt' + n \<le> 262144" using Suc.prems p' by simp
  from Suc.IH [OF m2(1) b p'(2), of "phys + PAGESIZE"] obtain mm' where mm':
    "map_pages_loop n None mm2 pd' pt' (phys + PAGESIZE) crflags = ret mm'" "tables_ok mm'"
    "\<forall>p<262144. pte mm' p = (if ?p + 1 \<le> p \<and> p < ?p + 1 + n
       then page_entry (phys + PAGESIZE) crflags (p - (?p + 1)) else pte mm2 p)"
    unfolding p'(1) by blast
  have e: "page_entry (phys + PAGESIZE) crflags (p - (?p + 1)) = page_entry phys crflags (p - ?p)" if "?p + 1 \<le> p" for p
  proof -
    from that have "p - ?p = Suc (p - (?p + 1))" by simp
    then show ?thesis by (simp add: page_entry_def algebra_simps)
  qed
  have "pte mm' p = (if ?p \<le> p \<and> p < ?p + Suc n then page_entry phys crflags (p - ?p) else pte mm p)"
    if "p < 262144" for p
  proof -
    consider "p = ?p" | "?p + 1 \<le> p" "p < ?p + Suc n" | "p < ?p" | "?p + Suc n \<le> p" by linarith
    then show ?thesis
    proof cases
      case 1
      then show ?thesis using mm'(3) m2(2) that by (simp add: page_entry_def)
    next
      case 2
      then show ?thesis using mm'(3) that e [of p] by simp
    next
      case 3
      then show ?thesis using mm'(3) m2(2) [of p] m1(4) [of p] that by simp
    next
      case 4
      then show ?thesis using mm'(3) m2(2) [of p] m1(4) [of p] that by simp
    qed
  qed
  with mm' step show ?case by metis
qed auto

lemma div_pagesize_up:
  "(n + 4095) div 4096 = (if n mod 4096 = 0 then n div 4096 else n div 4096 + 1)" for n :: nat
proof -
  define q r where "q = n div 4096" and "r = n mod 4096"
  have n: "n = 4096 * q + r" "r < 4096" by (simp_all add: q_def r_def)
  have "(n + 4095) div 4096 = (if r = 0 then q else q + 1)"
    using n by (intro div_nat_eqI) (auto split: if_splits)
  then show ?thesis by (simp add: q_def r_def)
qed

section \<open>Results\<close>


definition tables_example :: mm_tables_struct where
  "tables_example = \<lparr>ptr_table = replicate 4 0, page_dir0 = replicate 512 0,
     page_tables = (replicate 512 0)[0 := 0x5000], ptables = (\<lambda>_. replicate 512 0),
     pt_supply = map (\<lambda>k. of_nat k) [1..<513]\<rparr>"

lemma tables_example_ok: "tables_ok tables_example"
proof -
  have u: "unat (of_nat k :: u32) = k" if "k < 513" for k using that by simp
  have d: "distinct (map (\<lambda>k. of_nat k :: u32) [1..<513])"
    by (auto simp: distinct_map inj_on_def) (metis u)
  have z: "(of_nat k :: u32) \<noteq> 0 \<and> (of_nat k :: u32) \<noteq> 0x5000" if "1 \<le> k" "k < 513" for k
  proof -
    have "(of_nat k :: u32) \<noteq> x" if "unat x \<noteq> k" for x using that u [OF \<open>k < 513\<close>] by blast
    then show ?thesis using that by simp
  qed
  have "card {i. i < 512 \<and> page_tables tables_example ! i = 0} \<le> card {..<512::nat}"
    by (rule card_mono) auto
  then have c: "card {i. i < 512 \<and> page_tables tables_example ! i = 0} \<le> length (pt_supply tables_example)"
    by (simp add: tables_example_def)
  have n: "page_tables tables_example ! i = (if i = 0 then 0x5000 else 0)" if "i < 512" for i
    using that by (simp add: tables_example_def nth_list_update)
  have s: "set (page_tables tables_example) \<subseteq> {0, 0x5000}"
    unfolding tables_example_def using set_update_subset_insert by fastforce
  have s': "x \<noteq> 0 \<and> x \<noteq> 0x5000" if "x \<in> set (pt_supply tables_example)" for x
    using that z by (auto simp: tables_example_def)
  have "distinct (pt_supply tables_example)" using d by (simp add: tables_example_def)
  moreover have "\<forall>i<512. \<forall>j<512. page_tables tables_example ! i \<noteq> 0 \<longrightarrow> page_tables tables_example ! i = page_tables tables_example ! j \<longrightarrow> i = j"
    using n by simp
  moreover have "length (page_tables tables_example) = 512" "\<forall>x. length (ptables tables_example x) = 512"
    by (simp_all add: tables_example_def)
  moreover have "0 \<notin> set (pt_supply tables_example)" using s' by blast
  moreover have "set (pt_supply tables_example) \<inter> set (page_tables tables_example) = {}" using s s' by blast
  ultimately show ?thesis using c unfolding tables_ok_def by blast
qed


text \<open>The index \<open>mm_physical\<close> takes in a table, and the table, as numbers.\<close>

lemma unat_table_index: "unat (drop_bit 12 (a AND 0x003ff000 :: u32)) = unat a div 4096 mod 1024"
proof -
  have m: "(0x003ff000 :: u32) = push_bit 12 (mask 10)" by (simp add: mask_eq_exp_minus_1 push_bit_eq_mult)
  have "drop_bit 12 (a AND 0x003ff000 :: u32) = take_bit 10 (drop_bit 12 a)"
    unfolding m by (intro bit_word_eqI) (auto simp: bit_and_iff bit_drop_bit_eq bit_take_bit_iff bit_push_bit_iff bit_mask_iff
      dest: bit_imp_le_length)
  moreover have "take_bit 32 (unat a) = unat a" by (simp add: take_bit_nat_eq_self)
  ultimately show ?thesis
    by (simp only: unsigned_take_bit_eq unsigned_drop_bit_eq len_num1 len_bit0) (simp add: take_bit_eq_mod drop_bit_eq_div)
qed

lemma unat_table: "unat (drop_bit 22 (a :: u32)) = unat a div 4194304"
  by (simp add: drop_bit_eq_div unat_div_word)

text \<open>
  Translating an address. Before an address space is current an address is its own
  translation. In an address space whose first table is present, an address below 2 MB translates to the frame of
  its page's entry plus its offset in the page.
\<close>

theorem mm_physical_low:
  assumes "tables_ok mm" "page_tables mm ! 0 \<noteq> 0" "unat a < 0x200000"
  shows "mm_physical None a = ret a \<and>
    mm_physical (Some mm) a = ret (ucast (pte mm (unat a div 4096) AND 0xfffff000) + a mod PAGESIZE)"
proof -
  have d: "unat a div 4096 < 512" using assms(3) by (simp add: less_mult_imp_div_less)
  have "length (page_tables mm) = 512" "length (ptables mm (page_tables mm ! 0)) = 512"
    using assms(1,2) by (simp_all add: tables_ok_def)
  with d have "mm_physical (Some mm) a = ret (ucast (pte mm (unat a div 4096) AND 0xfffff000) + a mod PAGESIZE)"
    using assms(2,3) unfolding mm_physical_def option.case unat_table unat_table_index
    by (simp add: pte_def Let_def)
  then show ?thesis by (simp add: mm_physical_def)
qed

theorem mm_physical_low_witness:
  "mm_physical (Some tables_example) 0x1234 = ret (ucast (pte tables_example 1 AND 0xfffff000) + 0x234)"
  using mm_physical_low [OF tables_example_ok, of "0x1234"] by (simp add: tables_example_def PAGESIZE_def)

lemma odd_div_mod: "512 \<le> x mod 1024" if o: "odd (x div 512)" for x :: nat
proof -
  obtain k where "x div 512 = 2 * k + 1" using o by (rule oddE)
  then have "x = 1024 * k + (512 + x mod 512)" using div_mult_mod_eq [of x 512] by simp
  then have "x mod 1024 = (512 + x mod 512) mod 1024" by (metis mod_mult_self2 add.commute mult.commute)
  then show ?thesis by simp
qed

text \<open>
  C39: The table index of \<open>mm_physical\<close>. Tables have 512 entries and cover 2 MB, but \<open>mm_physical\<close>
  takes a ten-bit index and shifts by 22: every address with bit 21 set is looked up behind the end of a table (or
  in a missing table), so translating it is an access out of bounds although \<open>mm_map\<close> can map it.
\<close>

theorem mm_physical_bit_21:
  assumes "tables_ok mm" "bit a 21"
  shows "mm_physical (Some mm) a = fail Out_Of_Bounds"
proof -
  have "bit (unat a) 21" using assms(2) by (simp add: bit_unsigned_iff)
  then have "odd (unat a div 4096 div 512)" by (simp add: bit_iff_odd flip: div_mult2_eq)
  then have "512 \<le> unat a div 4096 mod 1024" by (rule odd_div_mod)
  moreover have "unat a div 4194304 < 512 \<or> 512 \<le> unat a div 4194304" by linarith
  moreover have "page_tables mm ! t \<noteq> 0 \<Longrightarrow> t < 512 \<Longrightarrow> length (ptables mm (page_tables mm ! t)) = 512"
    "length (page_tables mm) = 512" for t
    using assms(1) by (simp_all add: tables_ok_def)
  ultimately show ?thesis unfolding mm_physical_def option.case unat_table unat_table_index
    by (auto simp: Let_def)
qed

theorem mm_physical_bit_21_witness: "mm_physical (Some tables_example) 0x200000 = fail Out_Of_Bounds"
  using mm_physical_bit_21 [OF tables_example_ok, of "0x200000"] by (simp add: bit_numeral_word_iff)

section \<open>Page frames\<close>

lemma free_page_loop_least:
  assumes "i < length pframes" "pframes ! i = 0" "\<forall>k. s \<le> k \<and> k < i \<longrightarrow> pframes ! k \<noteq> 0" "s \<le> i"
  shows "free_page_loop pframes s = ret i"
  using assms
proof (induction "i - s" arbitrary: s)
  case 0
  then show ?case by (simp add: free_page_loop.simps)
next
  case (Suc n)
  then have "pframes ! s \<noteq> 0" "s < i" by (auto simp: Suc_le_eq)
  then show ?case using Suc by (subst free_page_loop.simps) simp
qed

lemma free_page_loop_full:
  assumes "\<forall>k<length pframes. s \<le> k \<longrightarrow> pframes ! k \<noteq> 0"
  shows "free_page_loop pframes s = fail Out_Of_Bounds"
  using assms
proof (induction "length pframes - s" arbitrary: s)
  case 0
  then show ?case by (simp add: free_page_loop.simps)
next
  case (Suc n)
  then show ?case by (subst free_page_loop.simps) auto
qed

text \<open>
  C34: Getting a page frame ends. The search for a frame with count 0 always returns or stops; with a
  free frame the first one is taken, its count becomes 1 and its address is returned, the other counts are
  unchanged, and releasing the frame by its number restores the counts. Without a free frame it runs off the array.
\<close>

theorem get_free_page_spec:
  "get_free_page pframes \<noteq> None \<and>
    ((\<exists>i < length pframes. pframes ! i = 0 \<and> (\<forall>k<i. pframes ! k \<noteq> 0) \<and>
            get_free_page pframes = ret (pframes[i := 1], of_nat i * PAGESIZE) \<and>
            (i < 1048576 \<longrightarrow> release_page (pframes[i := 1]) (of_nat i) = ret pframes))
         \<or> (0 \<notin> set pframes \<and> get_free_page pframes = fail Out_Of_Bounds))"
proof -
  have "(\<exists>i < length pframes. pframes ! i = 0 \<and> (\<forall>k<i. pframes ! k \<noteq> 0) \<and>
            get_free_page pframes = ret (pframes[i := 1], of_nat i * PAGESIZE) \<and>
            (i < 1048576 \<longrightarrow> release_page (pframes[i := 1]) (of_nat i) = ret pframes))
         \<or> (0 \<notin> set pframes \<and> get_free_page pframes = fail Out_Of_Bounds)"
  proof (cases "0 \<in> set pframes")
    case True
    define i where "i = (LEAST i. i < length pframes \<and> pframes ! i = 0)"
    from True have ex: "\<exists>i. i < length pframes \<and> pframes ! i = 0" by (metis in_set_conv_nth)
    have i: "i < length pframes" "pframes ! i = 0" using LeastI_ex [OF ex] by (simp_all add: i_def)
    have k: "\<forall>k<i. pframes ! k \<noteq> 0"
      using i(1) not_less_Least unfolding i_def by (metis (mono_tags, lifting) less_trans)
    have "get_free_page pframes = ret (pframes[i := 1], of_nat i * PAGESIZE)"
      using free_page_loop_least [OF i, of 0] k i by (simp add: get_free_page_def)
    moreover have "release_page (pframes[i := 1]) (of_nat i) = ret pframes" if "i < 1048576"
      using that i by (simp add: release_page_def) (metis list_update_id)
    ultimately show ?thesis using i k by blast
  next
    case False
    then have "free_page_loop pframes 0 = fail Out_Of_Bounds" by (intro free_page_loop_full) (metis nth_mem)
    with False show ?thesis by (simp add: get_free_page_def)
  qed
  then show ?thesis by auto
qed

theorem get_free_page_spec_witness:
  "(\<exists>i < length [1, 0, 0 :: u8]. [1, 0, 0 :: u8] ! i = 0 \<and> get_free_page [1, 0, 0] = ret ([1, 0, 0][i := 1], of_nat i * PAGESIZE))"
  using get_free_page_spec [of "[1, 0, 0]"] by auto

end
