(* ===== verification/Vga.thy ===== *)
theory Vga
  imports CString
begin

text \<open>
  The text console, \<open>drivers/vga.c\<close>: 25 lines of 80 cells at 0xb8000 in the flat memory, two bytes a cell, a cursor
  and a colour. The cursor coordinates are \<open>unsigned\<close>, so a step left of column 0 wraps around. An abstract terminal,
  a list of 2000 cells with a cursor, says what the output routine is for.
\<close>

section \<open>The driver\<close>

definition VIDEO_BASE :: addr where "VIDEO_BASE = 0xb8000"
definition LINES :: u32 where "LINES = 25"
definition COLUMNS :: u32 where "COLUMNS = 80"
definition T_BLACK :: s32 where "T_BLACK = 0x0"
definition T_CYAN :: s32 where "T_CYAN = 0x3"
definition T_WHITE :: s32 where "T_WHITE = 0xf"

lemmas vga_const_defs = VIDEO_BASE_def LINES_def COLUMNS_def

record vga =
  text_x :: u32
  text_y :: u32
  current_color :: u8
  vga_setup :: bool
  vmem :: mem

definition get_color :: "s32 \<Rightarrow> s32 \<Rightarrow> u8" where
  "get_color txt background = ucast (txt OR push_bit 4 background)"

text \<open>The loops that blank cells: a zero character and a colour, cell after cell.\<close>

primrec blank_cells :: "nat \<Rightarrow> mem \<Rightarrow> addr \<Rightarrow> u8 \<Rightarrow> mem" where
  "blank_cells 0 m ptr color = m"
| "blank_cells (Suc n) m ptr color = blank_cells n (m(ptr := 0, ptr + 1 := color)) (ptr + 2) color"

definition text_clear :: "vga \<Rightarrow> vga" where
  "text_clear v = v\<lparr>text_x := 0, text_y := 0,
     vmem := blank_cells (unat COLUMNS * unat LINES) (vmem v) VIDEO_BASE (get_color T_WHITE T_BLACK)\<rparr>"

definition cell_ptr :: "vga \<Rightarrow> addr" where
  "cell_ptr v = VIDEO_BASE + (text_y v * COLUMNS + text_x v) * 2"

text \<open>The cases of the \<open>switch\<close> in \<open>text_putc\<close>.\<close>

definition putc_backspace :: "vga \<Rightarrow> vga" where
  "putc_backspace v = (let mptr = cell_ptr v in
     v\<lparr>vmem := (vmem v)(mptr := 0, mptr - 1 := current_color v), text_x := text_x v - 1\<rparr>)"

definition putc_newline :: "vga \<Rightarrow> vga" where
  "putc_newline v = (let v = v\<lparr>text_x := 0\<rparr> in
     if text_y v = LINES - 1
     then let m = fst (memcpy (vmem v) VIDEO_BASE (VIDEO_BASE + COLUMNS * 2) ((LINES - 1) * COLUMNS * 2))
          in v\<lparr>vmem := blank_cells (unat COLUMNS) m (VIDEO_BASE + (LINES - 1) * COLUMNS * 2) (current_color v)\<rparr>
     else v\<lparr>text_y := text_y v + 1\<rparr>)"

definition putc_glyph :: "u8 \<Rightarrow> vga \<Rightarrow> vga" where
  "putc_glyph c v = (let mptr = cell_ptr v in
     v\<lparr>vmem := (vmem v)(mptr := c, mptr + 1 := current_color v), text_x := text_x v + 1\<rparr>)"

lemma text_x_newline [simp]: "text_x (putc_newline v) = 0"
  by (simp add: putc_newline_def Let_def)

text \<open>
  \<open>text_putc\<close> calls itself: a tab is four characters 0, and a character behind the last column is a newline and
  that character again. The recursion ends because a tab leads to characters that are not tabs, and after a newline
  the column is 0.
\<close>

function text_putc :: "u8 \<Rightarrow> vga \<Rightarrow> vga" where
  "text_putc c v =
     (if c = 8 then putc_backspace v
      else if c = 10 then putc_newline v
      else if c = 13 then v\<lparr>text_x := 0\<rparr>
      else if c = 9 then text_putc 0 (text_putc 0 (text_putc 0 (text_putc 0 v)))
      else if text_x v = COLUMNS then text_putc c (putc_newline v)
      else putc_glyph c v)"
  by pat_completeness auto
termination
  by (relation "measure (\<lambda>(c, v). if c = 9 then 2 else if text_x v = COLUMNS then 1 else 0)")
    (auto simp: COLUMNS_def)

declare text_putc.simps [simp del]

definition init_vga :: "vga \<Rightarrow> vga" where
  "init_vga v = (if vga_setup v then v
     else (text_clear v)\<lparr>vga_setup := True, current_color := get_color T_CYAN T_BLACK\<rparr>)"

primrec vga_write_loop :: "nat \<Rightarrow> addr \<Rightarrow> vga \<Rightarrow> vga" where
  "vga_write_loop 0 buf_ptr v = v"
| "vga_write_loop (Suc i) buf_ptr v = vga_write_loop i (buf_ptr + 1) (text_putc (vmem v buf_ptr) v)"

definition vga_write :: "addr \<Rightarrow> u32 \<Rightarrow> vga \<Rightarrow> vga \<times> s32" where
  "vga_write buf len v = (vga_write_loop (unat len) buf (if vga_setup v then v else init_vga v), len)"

section \<open>The terminal it implements\<close>

record terminal =
  cells :: "(u8 \<times> u8) list"
  cx :: nat
  cy :: nat

definition term_newline :: "u8 \<Rightarrow> terminal \<Rightarrow> terminal" where
  "term_newline color t =
     (if cy t = 24 then t\<lparr>cx := 0, cells := drop 80 (cells t) @ replicate 80 (0, color)\<rparr>
      else t\<lparr>cx := 0, cy := Suc (cy t)\<rparr>)"

definition term_glyph :: "u8 \<Rightarrow> u8 \<Rightarrow> terminal \<Rightarrow> terminal" where
  "term_glyph color c t =
     (let t = (if cx t = 80 then term_newline color t else t)
      in t\<lparr>cells := (cells t)[cy t * 80 + cx t := (c, color)], cx := Suc (cx t)\<rparr>)"

definition term_putc :: "u8 \<Rightarrow> u8 \<Rightarrow> terminal \<Rightarrow> terminal" where
  "term_putc color c t =
     (if c = 10 then term_newline color t
      else if c = 13 then t\<lparr>cx := 0\<rparr>
      else if c = 9 then (term_glyph color 0 ^^ 4) t
      else term_glyph color c t)"

definition cell_of :: "mem \<Rightarrow> nat \<Rightarrow> u8 \<times> u8" where
  "cell_of m k = (m (VIDEO_BASE + of_nat (2 * k)), m (VIDEO_BASE + of_nat (2 * k + 1)))"

definition screen :: "vga \<Rightarrow> terminal" where
  "screen v = \<lparr>cells = map (cell_of (vmem v)) [0..<2000],
     cx = unat (text_x v), cy = unat (text_y v)\<rparr>"

definition cursor_ok :: "vga \<Rightarrow> bool" where
  "cursor_ok v \<longleftrightarrow> unat (text_x v) \<le> 80 \<and> unat (text_y v) \<le> 24"

section \<open>Cells in memory\<close>

lemma blank_cells_eq:
  "n \<le> 2147483647 \<Longrightarrow> blank_cells n m p c =
     (\<lambda>x. if in_range x p (2 * n) then (if even (unat (x - p)) then 0 else c) else m x)"
proof (induction n arbitrary: m p)
  case (Suc n)
  have r: "in_range x p (Suc (Suc (2 * n))) \<longleftrightarrow> x = p \<or> x = p + 1 \<or> in_range x (p + 2) (2 * n)" for x
    using Suc.prems in_range_Suc [of "Suc (2 * n)" x p] in_range_Suc [of "2 * n" x "p + 1"] by (simp add: add.assoc)
  have nr: "\<not> in_range p (p + 2) (2 * n)" "\<not> in_range (p + 1) (p + 2) (2 * n)"
    using Suc.prems by (auto simp: in_range_def)
  have ev: "even (unat (x - (p + 2))) = even (unat (x - p))" if "in_range x (p + 2) (2 * n)" for x
  proof -
    have "\<exists>k<2 * n. x = p + 2 + of_nat k" using that Suc.prems by (subst (asm) in_range_iff) simp_all
    then obtain k where k: "k < 2 * n" "x = p + 2 + of_nat k" by blast
    then have "x - p = of_nat (k + 2)" "x - (p + 2) = of_nat k" by simp_all
    then show ?thesis using k Suc.prems by (simp only: unat_of_nat_u32) simp
  qed
  show ?case using Suc.prems by (auto simp: Suc.IH fun_eq_iff r nr ev)
qed simp

lemma cell_ptr_eq: "cursor_ok v \<Longrightarrow> cell_ptr v = VIDEO_BASE + of_nat (2 * (unat (text_y v) * 80 + unat (text_x v)))"
  by (simp add: cell_ptr_def COLUMNS_def algebra_simps)

lemma cells_update:
  assumes "k < 2000" "length cs = 2000" "\<And>j. j < 2000 \<Longrightarrow> j \<noteq> k \<Longrightarrow> cell_of m' j = cell_of m j"
  shows "map (cell_of m') [0..<2000] = (map (cell_of m) [0..<2000])[k := cell_of m' k]"
  using assms by (intro nth_equalityI) (auto simp: nth_list_update)

lemma cell_of_glyph:
  assumes "k < 2000" "j < 2000" "p = VIDEO_BASE + of_nat (2 * k)"
  shows "cell_of (m(p := c, p + 1 := color)) j = (if j = k then (c, color) else cell_of m j)"
proof -
  have p1: "p + 1 = VIDEO_BASE + of_nat (2 * k + 1)" using assms(3) by (simp add: algebra_simps)
  have e: "VIDEO_BASE + of_nat a = p \<longleftrightarrow> a = 2 * k" "VIDEO_BASE + of_nat a = p + 1 \<longleftrightarrow> a = 2 * k + 1" if "a < 4000" for a
    using that assms(1,3) unfolding p1 by (simp_all only:) (subst index_eq_iff; linarith)+
  have "2 * j < 4000" "2 * j + 1 < 4000" using assms(2) by simp_all
  note e = e [OF this(1)] e [OF this(2)]
  show ?thesis unfolding cell_of_def fun_upd_apply e by (simp; presburger)
qed

lemma cell_of_blank:
  assumes "a + n \<le> 2000" "j < 2000"
  shows "cell_of (blank_cells n m (VIDEO_BASE + of_nat (2 * a)) color) j = (if a \<le> j \<and> j < a + n then (0, color) else cell_of m j)"
proof -
  have r: "in_range (VIDEO_BASE + of_nat b) (VIDEO_BASE + of_nat (2 * a)) (2 * n) \<longleftrightarrow> 2 * a \<le> b \<and> b < 2 * a + 2 * n" if "b < 4000" for b
  proof -
    have v: "unat (VIDEO_BASE + of_nat c) = 753664 + c" if "c < 5000" for c
      using that by (subst unat_add_nowrap) (simp_all add: VIDEO_BASE_def)
    show ?thesis using that assms by (subst in_range_interval) (simp_all only: v, auto)
  qed
  have u: "unat (VIDEO_BASE + of_nat b - (VIDEO_BASE + of_nat (2 * a))) = b - 2 * a" if "2 * a \<le> b" "b < 4000" for b
  proof -
    have "VIDEO_BASE + of_nat b - (VIDEO_BASE + of_nat (2 * a)) = (of_nat (b - 2 * a) :: u32)"
      using that by (simp add: of_nat_diff)
    then show ?thesis using that by (simp only: unat_of_nat_u32)
  qed
  have b: "2 * j < 4000" "2 * j + 1 < 4000" "n \<le> 2147483647" using assms by simp_all
  have i: "2 * a \<le> 2 * j \<and> 2 * j < 2 * a + 2 * n \<longleftrightarrow> a \<le> j \<and> j < a + n"
    "2 * a \<le> 2 * j + 1 \<and> 2 * j + 1 < 2 * a + 2 * n \<longleftrightarrow> a \<le> j \<and> j < a + n" by auto
  show ?thesis
    unfolding cell_of_def blank_cells_eq [OF b(3)] r [OF b(1)] r [OF b(2)] i
    using u [OF _ b(1)] u [OF _ b(2)] by auto
qed

lemma cell_of_scroll:
  assumes "j < 1920"
  shows "cell_of (fst (memcpy m VIDEO_BASE (VIDEO_BASE + 160) 3840)) j = cell_of m (j + 80)"
proof -
  have c: "fst (memcpy m VIDEO_BASE (VIDEO_BASE + 160) 3840) =
      (\<lambda>x. if in_range x VIDEO_BASE 3840 then m (VIDEO_BASE + 160 + (x - VIDEO_BASE)) else m x)"
    by (simp add: memcpy_def memcpy_loop_eq)
  have r: "in_range (VIDEO_BASE + of_nat b) VIDEO_BASE 3840" if "b < 3840" for b
    using that by (simp add: in_range_def)
  have s: "VIDEO_BASE + 160 + (VIDEO_BASE + of_nat b - VIDEO_BASE) = VIDEO_BASE + of_nat (b + 160)" for b
    by simp
  have b: "2 * j < 3840" "2 * j + 1 < 3840" "2 * j + 160 = 2 * (j + 80)" "2 * j + 1 + 160 = 2 * (j + 80) + 1"
    using assms by simp_all
  show ?thesis unfolding cell_of_def c using r [OF b(1)] r [OF b(2)] s [of "2 * j"] s [of "2 * j + 1"]
    unfolding b(3,4) by (simp add: algebra_simps)
qed

section \<open>The driver implements the terminal\<close>

lemma screen_sel [simp]:
  "length (cells (screen v)) = 2000" "cx (screen v) = unat (text_x v)" "cy (screen v) = unat (text_y v)"
  by (simp_all add: screen_def)

lemma cursor_succ: "unat (w :: u32) \<le> 100 \<Longrightarrow> unat (w + 1) = Suc (unat w)"
  by (subst unat_add_nowrap) simp_all

lemma newline_refines:
  assumes ok: "cursor_ok v"
  shows "screen (putc_newline v) = term_newline (current_color v) (screen v)" "cursor_ok (putc_newline v)"
proof -
  have y: "unat (text_y v) \<le> 24" using ok by (simp add: cursor_ok_def)
  have t: "text_y v = LINES - 1 \<longleftrightarrow> unat (text_y v) = 24"
    by (simp add: LINES_def word_unat_eq_iff)
  show "cursor_ok (putc_newline v)" using y t by (auto simp: putc_newline_def cursor_ok_def Let_def cursor_succ)
  show "screen (putc_newline v) = term_newline (current_color v) (screen v)"
  proof (cases "unat (text_y v) = 24")
    case False
    then show ?thesis using t y
      by (simp add: putc_newline_def term_newline_def screen_def Let_def cursor_succ)
  next
    case True
    define m where "m = fst (memcpy (vmem v) VIDEO_BASE (VIDEO_BASE + 160) 3840)"
    have p: "VIDEO_BASE + 3840 = VIDEO_BASE + of_nat (2 * 1920)" by simp
    have "map (cell_of (blank_cells 80 m (VIDEO_BASE + 3840) (current_color v))) [0..<2000] =
        drop 80 (map (cell_of (vmem v)) [0..<2000]) @ replicate 80 (0, current_color v)"
    proof (rule nth_equalityI)
      fix j assume "j < length (map (cell_of (blank_cells 80 m (VIDEO_BASE + 3840) (current_color v))) [0..<2000])"
      then have j: "j < 2000" by simp
      then show "map (cell_of (blank_cells 80 m (VIDEO_BASE + 3840) (current_color v))) [0..<2000] ! j =
          (drop 80 (map (cell_of (vmem v)) [0..<2000]) @ replicate 80 (0, current_color v)) ! j"
        unfolding p using cell_of_blank [of 1920 80 j m "current_color v"] cell_of_scroll [of j "vmem v"]
        by (auto simp: nth_append m_def add.commute)
    qed simp
    with True t show ?thesis
      by (simp add: putc_newline_def term_newline_def screen_def Let_def m_def LINES_def COLUMNS_def)
  qed
qed

lemma color_newline [simp]: "current_color (putc_newline v) = current_color v"
  by (simp add: putc_newline_def Let_def)

lemma glyph_refines:
  assumes ok: "cursor_ok v" and x: "unat (text_x v) < 80"
  shows "screen (putc_glyph c v) =
      (screen v)\<lparr>cells := (cells (screen v))[cy (screen v) * 80 + cx (screen v) := (c, current_color v)],
        cx := Suc (cx (screen v))\<rparr>" "cursor_ok (putc_glyph c v)"
proof -
  let ?k = "unat (text_y v) * 80 + unat (text_x v)"
  have k: "?k < 2000" using ok x by (simp add: cursor_ok_def)
  have "map (cell_of ((vmem v)(cell_ptr v := c, cell_ptr v + 1 := current_color v))) [0..<2000] =
      (map (cell_of (vmem v)) [0..<2000])[?k := (c, current_color v)]"
    using cell_of_glyph [OF k _ cell_ptr_eq [OF ok]] k by (intro nth_equalityI) (auto simp: nth_list_update)
  moreover have "unat (text_x v + 1) = Suc (unat (text_x v))" using x by (intro cursor_succ) simp_all
  ultimately show "screen (putc_glyph c v) =
      (screen v)\<lparr>cells := (cells (screen v))[cy (screen v) * 80 + cx (screen v) := (c, current_color v)],
        cx := Suc (cx (screen v))\<rparr>" by (simp add: putc_glyph_def screen_def Let_def)
  show "cursor_ok (putc_glyph c v)" using ok x by (simp add: putc_glyph_def cursor_ok_def Let_def cursor_succ)
qed

lemma color_glyph [simp]: "current_color (putc_glyph c v) = current_color v"
  by (simp add: putc_glyph_def Let_def)

text \<open>A character that is none of the four control characters.\<close>

lemma plain_refines:
  assumes ok: "cursor_ok v" and c: "c \<notin> {8, 9, 10, 13}"
  shows "screen (text_putc c v) = term_glyph (current_color v) c (screen v)" "cursor_ok (text_putc c v)"
    "current_color (text_putc c v) = current_color v"
proof -
  have x: "text_x v = COLUMNS \<longleftrightarrow> unat (text_x v) = 80" by (simp add: COLUMNS_def word_unat_eq_iff)
  define w where "w = (if text_x v = COLUMNS then putc_newline v else v)"
  have w: "text_putc c v = putc_glyph c w"
    using c by (simp add: w_def text_putc.simps [of c v] text_putc.simps [of c "putc_newline v"] COLUMNS_def)
  have ok': "cursor_ok w" using ok by (simp add: w_def newline_refines)
  have x': "unat (text_x w) < 80" using ok x by (auto simp: w_def cursor_ok_def)
  have "screen w = (if cx (screen v) = 80 then term_newline (current_color v) (screen v) else screen v)"
    using x ok by (simp add: w_def newline_refines)
  moreover have "current_color w = current_color v" by (simp add: w_def)
  ultimately show "screen (text_putc c v) = term_glyph (current_color v) c (screen v)"
    unfolding w using glyph_refines(1) [OF ok' x'] by (simp add: term_glyph_def Let_def)
  show "cursor_ok (text_putc c v)" unfolding w using ok' x' by (rule glyph_refines)
  show "current_color (text_putc c v) = current_color v" unfolding w by (simp add: w_def)
qed

lemma putc_refines:
  assumes ok: "cursor_ok v" and c: "c \<noteq> 8"
  shows "screen (text_putc c v) = term_putc (current_color v) c (screen v)" "cursor_ok (text_putc c v)"
    "current_color (text_putc c v) = current_color v"
proof -
  consider "c = 9" | "c = 10" | "c = 13" | "c \<notin> {8, 9, 10, 13}" using c by blast
  then have "screen (text_putc c v) = term_putc (current_color v) c (screen v) \<and> cursor_ok (text_putc c v) \<and>
    current_color (text_putc c v) = current_color v"
  proof cases
    case 1
    have "text_putc 9 v = text_putc 0 (text_putc 0 (text_putc 0 (text_putc 0 v)))"
      by (subst text_putc.simps) simp
    moreover have "(f ^^ 4) t = f (f (f (f t)))" for f and t :: terminal by (simp add: eval_nat_numeral)
    ultimately show ?thesis using ok 1 by (simp add: term_putc_def plain_refines)
  next
    case 2
    then show ?thesis using ok by (simp add: text_putc.simps term_putc_def newline_refines)
  next
    case 3
    then show ?thesis using ok by (simp add: text_putc.simps term_putc_def cursor_ok_def screen_def)
  next
    case 4
    then show ?thesis using ok by (simp add: term_putc_def plain_refines)
  qed
  then show "screen (text_putc c v) = term_putc (current_color v) c (screen v)" "cursor_ok (text_putc c v)"
    "current_color (text_putc c v) = current_color v" by simp_all
qed

text \<open>Only the screen's 4000 bytes change.\<close>

lemma blank_cells_other:
  "\<not> in_range x VIDEO_BASE 4000 \<Longrightarrow> a + 2 * n \<le> 4000 \<Longrightarrow> blank_cells n m (VIDEO_BASE + of_nat a) c x = m x"
proof -
  assume x: "\<not> in_range x VIDEO_BASE 4000" and a: "a + 2 * n \<le> 4000"
  then have "\<not> in_range x (VIDEO_BASE + of_nat a) (2 * n)"
    using in_range_offset [of x VIDEO_BASE a "2 * n" 4000] by auto
  then show ?thesis using a by (simp add: blank_cells_eq)
qed

lemma newline_frame: "\<not> in_range x VIDEO_BASE 4000 \<Longrightarrow> vmem (putc_newline v) x = vmem v x"
  using blank_cells_other [of x 3840 80]
  by (auto simp: putc_newline_def Let_def LINES_def COLUMNS_def memcpy_def memcpy_loop_eq in_range_def)

lemma glyph_frame:
  assumes "cursor_ok v" "unat (text_x v) < 80" "\<not> in_range x VIDEO_BASE 4000"
  shows "vmem (putc_glyph c v) x = vmem v x"
proof -
  let ?k = "2 * (unat (text_y v) * 80 + unat (text_x v))"
  have k: "?k + 1 < 4000" using assms(1,2) by (simp add: cursor_ok_def)
  have "in_range (VIDEO_BASE + of_nat k) VIDEO_BASE 4000" if "k < 4000" for k using that by (simp add: in_range_def)
  from this [of ?k] this [of "?k + 1"] k
  have "x \<noteq> cell_ptr v" "x \<noteq> cell_ptr v + 1" using assms(3) by (auto simp: cell_ptr_eq [OF assms(1)] algebra_simps)
  then show ?thesis by (simp add: putc_glyph_def Let_def)
qed

lemma plain_frame:
  assumes "cursor_ok v" "c \<notin> {8, 9, 10, 13}" "\<not> in_range x VIDEO_BASE 4000"
  shows "vmem (text_putc c v) x = vmem v x"
proof -
  have "unat (text_x v) \<noteq> 80" if "text_x v \<noteq> COLUMNS" using that by (simp add: COLUMNS_def word_unat_eq_iff)
  moreover have "vmem (putc_glyph c (putc_newline v)) x = vmem v x"
    using glyph_frame [OF newline_refines(2) [OF assms(1)]] assms(3) by (simp add: newline_frame)
  ultimately show ?thesis using assms glyph_frame [OF assms(1)]
    by (auto simp: text_putc.simps [of c v] text_putc.simps [of c "putc_newline v"] COLUMNS_def cursor_ok_def)
qed

lemma putc_frame:
  assumes "cursor_ok v" "c \<noteq> 8" "\<not> in_range x VIDEO_BASE 4000"
  shows "vmem (text_putc c v) x = vmem v x"
proof -
  have "text_putc 9 v = text_putc 0 (text_putc 0 (text_putc 0 (text_putc 0 v)))"
    by (subst text_putc.simps) simp
  moreover have "vmem (text_putc 10 v) x = vmem v x" "vmem (text_putc 13 v) x = vmem v x"
    using assms by (simp_all add: text_putc.simps newline_frame)
  ultimately show ?thesis using assms plain_frame [of v c x] plain_frame [of _ 0 x]
    by (cases "c \<in> {8, 9, 10, 13}") (auto simp: plain_refines)
qed

lemma text_refines:
  assumes "cursor_ok v" "8 \<notin> set str"
  shows "screen (fold text_putc str v) = fold (term_putc (current_color v)) str (screen v) \<and>
    cursor_ok (fold text_putc str v) \<and> current_color (fold text_putc str v) = current_color v \<and>
    (\<forall>x. \<not> in_range x VIDEO_BASE 4000 \<longrightarrow> vmem (fold text_putc str v) x = vmem v x)"
  using assms
proof (induction str arbitrary: v)
  case (Cons c str)
  then have c: "c \<noteq> 8" by auto
  show ?case using Cons.IH [of "text_putc c v"] Cons.prems putc_refines [OF Cons.prems(1) c] putc_frame [OF Cons.prems(1) c]
    by simp
qed simp

text \<open>A buffer outside the screen is written character by character.\<close>

lemma write_loop_fold:
  assumes "cursor_ok v" "8 \<notin> set (map (\<lambda>k. vmem v (buf + of_nat k)) [0..<n])"
    and "\<And>k. k < n \<Longrightarrow> \<not> in_range (buf + of_nat k) VIDEO_BASE 4000"
  shows "vga_write_loop n buf v = fold text_putc (map (\<lambda>k. vmem v (buf + of_nat k)) [0..<n]) v"
  using assms
proof (induction n arbitrary: buf v)
  case (Suc n)
  let ?c = "vmem v buf"
  have s: "map (\<lambda>k. vmem v (buf + of_nat k)) [0..<Suc n] = ?c # map (\<lambda>k. vmem v (buf + 1 + of_nat k)) [0..<n]"
    by (subst upt_conv_Cons) (simp_all add: map_Suc_upt [symmetric] algebra_simps del: upt_Suc map_Suc_upt)
  have c: "?c \<noteq> 8" using Suc.prems(2) unfolding s by auto
  have o: "\<not> in_range (buf + 1 + of_nat k) VIDEO_BASE 4000" if "k < n" for k
    using Suc.prems(3) [of "Suc k"] that by (simp add: algebra_simps)
  have m: "map (\<lambda>k. vmem (text_putc ?c v) (buf + 1 + of_nat k)) [0..<n] = map (\<lambda>k. vmem v (buf + 1 + of_nat k)) [0..<n]"
    using o putc_frame [OF Suc.prems(1) c] by simp
  show ?case unfolding s using Suc.IH [of "text_putc ?c v" "buf + 1"] Suc.prems(2) o putc_refines(2) [OF Suc.prems(1) c]
    unfolding s m by simp
qed simp

lemma cursor_init: "vga_setup v \<longrightarrow> cursor_ok v \<Longrightarrow> cursor_ok (init_vga v)"
  by (auto simp: init_vga_def text_clear_def cursor_ok_def)

section \<open>Results\<close>

text \<open>
  C6: The console implements a terminal. For a buffer outside the video memory that holds no
  backspace, writing it through an initialised console with its cursor on the screen has the effect on the 25 lines
  of 80 cells that writing its characters one by one has on the abstract terminal (newline, scrolling at the last
  line, carriage return, tab, wrapping at column 80); the cursor stays on the screen, no byte outside the video
  memory changes and the length is returned.
\<close>

theorem vga_write_refines:
  assumes "vga_setup v" "cursor_ok v" "str = map (\<lambda>k. vmem v (buf + of_nat k)) [0..<unat len]" "8 \<notin> set str"
    and "\<forall>k<unat len. \<not> in_range (buf + of_nat k) VIDEO_BASE 4000"
  shows "snd (vga_write buf len v) = len \<and>
    screen (fst (vga_write buf len v)) = fold (term_putc (current_color v)) str (screen v) \<and>
    cursor_ok (fst (vga_write buf len v)) \<and>
    (\<forall>x. \<not> in_range x VIDEO_BASE 4000 \<longrightarrow> vmem (fst (vga_write buf len v)) x = vmem v x)"
proof -
  have "fst (vga_write buf len v) = fold text_putc str v"
    using write_loop_fold [of v buf "unat len"] assms by (simp add: vga_write_def)
  then show ?thesis using text_refines [OF assms(2,4)] by (simp add: vga_write_def)
qed

definition hello_vga :: vga where
  "hello_vga = \<lparr>text_x = 79, text_y = 24, current_color = 3, vga_setup = True,
     vmem = (\<lambda>_. 0)(0x1000 := 72, 0x1001 := 105)\<rparr>"

theorem vga_write_refines_witness:
  "screen (fst (vga_write 0x1000 2 hello_vga)) = term_putc 3 105 (term_putc 3 72 (screen hello_vga))"
proof -
  have u: "unat (2 :: u32) = 2" "[0..<2] = [0, 1 :: nat]" by (simp_all add: upt_rec)
  have o: "\<forall>k<2. \<not> in_range (0x1000 + of_nat k) VIDEO_BASE 4000"
    by (auto simp: in_range_def VIDEO_BASE_def less_2_cases_iff)
  show ?thesis
    using vga_write_refines [of hello_vga "[72, 105]" "0x1000" 2] o unfolding u
    by (simp add: hello_vga_def cursor_ok_def)
qed

text \<open>
  Backspace. In column 0 the unsigned column wraps to \<open>0xffffffff\<close>, and the next printable
  character of the first line is written two bytes in front of the video memory; in any other column the character
  to the left of the cursor stays on the screen: the cell under the cursor loses its character instead.
\<close>

theorem backspace_spec:
  "text_x (text_putc 8 v) = text_x v - 1 \<and>
   (cursor_ok v \<longrightarrow> text_x v = 0 \<longrightarrow> text_y v = 0 \<longrightarrow> c \<notin> {8, 9, 10, 13} \<longrightarrow>
     \<not> in_range (VIDEO_BASE - 2) VIDEO_BASE 4000 \<and> vmem (text_putc c (text_putc 8 v)) (VIDEO_BASE - 2) = c) \<and>
   (cursor_ok v \<longrightarrow> 0 < text_x v \<longrightarrow> text_x v < COLUMNS \<longrightarrow>
     vmem (text_putc 8 v) (cell_ptr v) = 0 \<and> vmem (text_putc 8 v) (cell_ptr v - 2) = vmem v (cell_ptr v - 2))"
proof -
  have b: "text_putc 8 v = putc_backspace v" by (simp add: text_putc.simps)
  have "text_putc c (putc_backspace v) = putc_glyph c (putc_backspace v)" if "text_x v = 0" "c \<notin> {8, 9, 10, 13}"
    using that by (simp add: text_putc.simps [of c] putc_backspace_def COLUMNS_def Let_def)
  then show ?thesis unfolding b
    by (auto simp: putc_backspace_def putc_glyph_def Let_def cell_ptr_def in_range_def VIDEO_BASE_def COLUMNS_def)
qed

theorem backspace_spec_witness:
  "vmem (text_putc 65 (text_putc 8 (hello_vga\<lparr>text_x := 0, text_y := 0\<rparr>))) (VIDEO_BASE - 2) = 65"
  using backspace_spec [of "hello_vga\<lparr>text_x := 0, text_y := 0\<rparr>" 65] by (simp add: cursor_ok_def)

end
