(* ===== verification/Ata.thy ===== *)
theory Ata
  imports Pci CString Sync
begin

text \<open>
  The ATA disk driver, \<open>drivers/ata.c\<close>. The controller is hardware, a parameter of the model: a record of three
  functions on its state \<open>'d\<close>, for the byte and word reads and byte writes of I/O ports. What the driver relies on,
  the task file registers and the programmed transfer of the ATA standard, is the predicate \<open>conforms\<close>, instantiated
  by \<open>sample_hw\<close> below. A disk is polled, so the waiting loops are partial functions.
\<close>

section \<open>Ports and registers\<close>

record 'd hw =
  hw_inb :: "u16 \<Rightarrow> 'd \<Rightarrow> u8 \<times> 'd"
  hw_inw :: "u16 \<Rightarrow> 'd \<Rightarrow> u16 \<times> 'd"
  hw_outb :: "u16 \<Rightarrow> u8 \<Rightarrow> 'd \<Rightarrow> 'd"

definition PRIMARY1_BASE :: u32 where "PRIMARY1_BASE = 0x1f0"
definition PRIMARY1_CTRL :: u32 where "PRIMARY1_CTRL = 0x3f6"
definition SECONDARY1_BASE :: u32 where "SECONDARY1_BASE = 0x170"
definition SECONDARY1_CTRL :: u32 where "SECONDARY1_CTRL = 0x376"
definition ATA_DATA :: u32 where "ATA_DATA = 0x00"
definition ATA_SCOUNT :: u32 where "ATA_SCOUNT = 0x02"
definition ATA_LBALO :: u32 where "ATA_LBALO = 0x03"
definition ATA_LBAMID :: u32 where "ATA_LBAMID = 0x04"
definition ATA_LBAHI :: u32 where "ATA_LBAHI = 0x05"
definition ATA_DR_HD :: u32 where "ATA_DR_HD = 0x06"
definition ATA_STATUS :: u32 where "ATA_STATUS = 0x07"
definition ATA_COMMND :: u32 where "ATA_COMMND = 0x07"
definition BLOCK_SIZE :: u32 where "BLOCK_SIZE = 512"
definition CMD_IDENTIFY :: u8 where "CMD_IDENTIFY = 0xEC"
definition CMD_READ_EXT :: u8 where "CMD_READ_EXT = 0x24"
definition ATA_ERR :: u32 where "ATA_ERR = BIT 0"
definition DRQ :: u32 where "DRQ = BIT 3"
definition BSY :: u32 where "BSY = BIT 7"
definition MAJOR_ATA0 :: u32 where "MAJOR_ATA0 = 4"

record ata_dev_struct =
  ata_pci :: pcidev_struct
  ata_type :: u32
  base_io :: u32
  ctrl_io :: u32
  ata_data :: "u16 list"

definition get_ports :: "u32 \<Rightarrow> u32 \<Rightarrow> ata_dev_struct \<Rightarrow> ata_dev_struct \<times> s32" where
  "get_ports controller atype dev =
     (if controller \<noteq> 0 then (dev, - ENOSYS)
      else if atype < 2 then (dev\<lparr>base_io := PRIMARY1_BASE, ctrl_io := PRIMARY1_CTRL\<rparr>, 0)
      else (dev\<lparr>base_io := SECONDARY1_BASE, ctrl_io := SECONDARY1_CTRL\<rparr>, 0))"

text \<open>The port arguments of \<open>inb\<close>, \<open>inw\<close> and \<open>outb\<close> are 16 bits wide.\<close>

definition outb :: "'d hw \<Rightarrow> u32 \<Rightarrow> u8 \<Rightarrow> 'd \<Rightarrow> 'd" where
  "outb hw port v d = hw_outb hw (ucast port) v d"

definition inb :: "'d hw \<Rightarrow> u32 \<Rightarrow> 'd \<Rightarrow> u8 \<times> 'd" where
  "inb hw port d = hw_inb hw (ucast port) d"

text \<open>\<open>repinsw\<close>: \<open>count\<close> words from a port to memory.\<close>

primrec repinsw :: "nat \<Rightarrow> 'd hw \<Rightarrow> u32 \<Rightarrow> mem \<Rightarrow> addr \<Rightarrow> 'd \<Rightarrow> mem \<times> 'd" where
  "repinsw 0 hw port m buf d = (m, d)"
| "repinsw (Suc n) hw port m buf d =
     (let (w, d) = hw_inw hw (ucast port) d
      in repinsw n hw port (m(buf := ucast w, buf + 1 := ucast (drop_bit 8 w))) (buf + 2) d)"

primrec in_words :: "nat \<Rightarrow> 'd hw \<Rightarrow> u32 \<Rightarrow> 'd \<Rightarrow> u16 list \<times> 'd" where
  "in_words 0 hw port d = ([], d)"
| "in_words (Suc n) hw port d =
     (let (w, d) = hw_inw hw (ucast port) d; (ws, d) = in_words n hw port d in (w # ws, d))"

partial_function (option) wait_bsy :: "'d hw \<Rightarrow> u32 \<Rightarrow> 'd \<Rightarrow> 'd exec" where
  "wait_bsy hw iobase d =
     (if ucast (fst (inb hw (iobase + ATA_STATUS) d)) AND BSY \<noteq> 0
      then wait_bsy hw iobase (snd (inb hw (iobase + ATA_STATUS) d))
      else ret (snd (inb hw (iobase + ATA_STATUS) d)))"

partial_function (option) wait_drq :: "'d hw \<Rightarrow> u32 \<Rightarrow> 'd \<Rightarrow> 'd exec" where
  "wait_drq hw iobase d =
     (if ucast (fst (inb hw (iobase + ATA_STATUS) d)) AND DRQ = 0
      then wait_drq hw iobase (snd (inb hw (iobase + ATA_STATUS) d))
      else ret (snd (inb hw (iobase + ATA_STATUS) d)))"

partial_function (option) wait_drq_error :: "'d hw \<Rightarrow> u32 \<Rightarrow> 'd \<Rightarrow> 'd exec" where
  "wait_drq_error hw iobase d =
     (if ucast (fst (inb hw (iobase + ATA_STATUS) d)) AND (DRQ OR ATA_ERR) = 0
      then wait_drq_error hw iobase (snd (inb hw (iobase + ATA_STATUS) d))
      else ret (snd (inb hw (iobase + ATA_STATUS) d)))"

section \<open>Operations\<close>

definition ata_identify :: "'d hw \<Rightarrow> ata_dev_struct \<Rightarrow> 'd \<Rightarrow> (ata_dev_struct \<times> 'd \<times> s32) exec" where
  "ata_identify hw dev d =
     (let b = base_io dev;
          d = outb hw (b + ATA_DR_HD) (if ata_type dev mod 2 = 0 then 0xa0 else 0xb0) d;
          d = outb hw (b + ATA_SCOUNT) 0 d;
          d = outb hw (b + ATA_LBALO) 0 d;
          d = outb hw (b + ATA_LBAMID) 0 d;
          d = outb hw (b + ATA_LBAHI) 0 d;
          d = outb hw (b + ATA_COMMND) CMD_IDENTIFY d;
          (st, d) = inb hw (b + ATA_STATUS) d
      in if st = 0 then ret (dev, d, 0)
         else bindX (wait_bsy hw b d) (\<lambda>d.
           let (mid, d) = inb hw (b + ATA_LBAMID) d
           in if mid \<noteq> 0 then ret (dev, d, 0)
              else let (hi, d) = inb hw (b + ATA_LBAHI) d
                   in if hi \<noteq> 0 then ret (dev, d, 0)
                      else bindX (wait_drq_error hw b d) (\<lambda>d.
                        let (st, d) = inb hw (b + ATA_STATUS) d
                        in if ucast st AND ATA_ERR = 0
                           then let (ws, d) = in_words 256 hw (b + ATA_DATA) d
                                in ret (dev\<lparr>ata_data := ws\<rparr>, d, 1)
                           else ret (dev, d, 0))))"

primrec ata_read_loop :: "nat \<Rightarrow> 'd hw \<Rightarrow> u32 \<Rightarrow> addr \<Rightarrow> u32 \<Rightarrow> mem \<Rightarrow> 'd \<Rightarrow> (mem \<times> 'd) exec" where
  "ata_read_loop 0 hw b buffer i m d = ret (m, d)"
| "ata_read_loop (Suc n) hw b buffer i m d =
     bindX (wait_bsy hw b d) (\<lambda>d.
     bindX (wait_drq hw b d) (\<lambda>d.
     let (m, d) = repinsw (unat (BLOCK_SIZE div 2)) hw (b + ATA_DATA) m (buffer + BLOCK_SIZE * i) d
     in ata_read_loop n hw b buffer (i + 1) m d))"

text \<open>\<open>sizeof(size_t) == 4\<close>: the middle and high byte of the upper half of the LBA are zero.\<close>

definition ata_read :: "'d hw \<Rightarrow> ata_dev_struct \<Rightarrow> addr \<Rightarrow> u32 \<Rightarrow> u32 \<Rightarrow> mem \<times> mutex_struct \<times> 'd \<Rightarrow>
    ((mem \<times> mutex_struct \<times> 'd) \<times> s32) exec" where
  "ata_read hw dev buffer count offset = (\<lambda>(m, controller_lock, d).
     if count = 0 then ret ((m, controller_lock, d), 0)
     else bindX (mutex_lock controller_lock) (\<lambda>controller_lock.
       let b = base_io dev;
           d = outb hw (b + ATA_DR_HD) (if ata_type dev mod 2 = 0 then 0x40 else 0x50) d;
           d = outb hw (b + ATA_SCOUNT) (ucast (drop_bit 8 count AND 0xff)) d;
           d = outb hw (b + ATA_LBALO) (ucast (drop_bit 24 offset AND 0xff)) d;
           d = outb hw (b + ATA_LBAMID) 0 d;
           d = outb hw (b + ATA_LBAHI) 0 d;
           d = outb hw (b + ATA_SCOUNT) (ucast (count AND 0xff)) d;
           d = outb hw (b + ATA_LBALO) (ucast (offset AND 0xff)) d;
           d = outb hw (b + ATA_LBAMID) (ucast (drop_bit 8 offset AND 0xff)) d;
           d = outb hw (b + ATA_LBAHI) (ucast (drop_bit 16 offset AND 0xff)) d
       in bindX (wait_bsy hw b d) (\<lambda>d.
          let d = outb hw (b + ATA_COMMND) CMD_READ_EXT d
          in bindX (ata_read_loop (unat count) hw b buffer 0 m d) (\<lambda>(m, d).
             ret ((m, mutex_unlock controller_lock, d), count)))))"

definition ata_write :: "ata_dev_struct \<Rightarrow> addr \<Rightarrow> u32 \<Rightarrow> u32 \<Rightarrow> s32" where
  "ata_write dev buffer count offset = - ENOSYS"

text \<open>
  The probe. The new \<open>gendisk_struct\<close> is memory of \<open>kmalloc\<close>, \<open>raw i\<close> for the \<open>i\<close>-th position; the fields the driver does
  not set keep what was there. \<open>fops\<close> is the read function of the disk as \<open>register_blkdev\<close> sees it. The lock that
  the disks of the controller share is the one initialised at the first disk.
\<close>

record 'd ata_kernel =
  ak_hw :: 'd
  ak_bd_list :: "gendisk_struct option list"
  ak_lock :: "mutex_struct option"

definition attach_disk :: "(ata_dev_struct \<Rightarrow> u32 \<Rightarrow> u32 \<Rightarrow> s32 \<times> (nat \<Rightarrow> u8)) \<Rightarrow> gendisk_struct \<Rightarrow> ata_dev_struct \<Rightarrow>
    'd ata_kernel \<Rightarrow> 'd ata_kernel exec" where
  "attach_disk fops raw dev k =
     (let k = (if ak_lock k = None then k\<lparr>ak_lock := Some (mutex_init \<lparr>locked = 0, waiting = None\<rparr>)\<rparr> else k);
          bd = raw\<lparr>capacity := 0, io_size := BLOCK_SIZE, bd_major := MAJOR_ATA0, bd_read := fops dev\<rparr>;
          (l, r) = register_blkdev bd (ak_bd_list k);
          k = k\<lparr>ak_bd_list := l\<rparr>
      in if r <s 0 then fail Panic else ret k)"

definition probe_position :: "'d hw \<Rightarrow> (ata_dev_struct \<Rightarrow> u32 \<Rightarrow> u32 \<Rightarrow> s32 \<times> (nat \<Rightarrow> u8)) \<Rightarrow> (nat \<Rightarrow> gendisk_struct) \<Rightarrow>
    nat \<Rightarrow> ata_dev_struct \<times> 'd ata_kernel \<times> s32 \<Rightarrow> (ata_dev_struct \<times> 'd ata_kernel \<times> s32) exec" where
  "probe_position hw fops raw i = (\<lambda>(dev, k, err).
     if err \<noteq> 0 then ret (dev, k, err)
     else let dev = dev\<lparr>ata_type := of_nat i\<rparr>;
              (dev, r) = get_ports 0 (ata_type dev) dev
          in if r <s 0 then ret (dev, k, - EIO)
             else bindX (ata_identify hw dev (ak_hw k)) (\<lambda>(dev, d, found).
               let k = k\<lparr>ak_hw := d\<rparr>
               in if found \<noteq> 0 then bindX (attach_disk fops (raw i) dev k) (\<lambda>k. ret (dev, k, 0)) else ret (dev, k, 0)))"

definition ata_pci_probe :: "'d hw \<Rightarrow> (ata_dev_struct \<Rightarrow> u32 \<Rightarrow> u32 \<Rightarrow> s32 \<times> (nat \<Rightarrow> u8)) \<Rightarrow> (nat \<Rightarrow> gendisk_struct) \<Rightarrow>
    u16 list \<Rightarrow> pcidev_struct \<Rightarrow> 'd ata_kernel \<Rightarrow> ('d ata_kernel \<times> s32) exec" where
  "ata_pci_probe hw fops raw data device k =
     (if class_no device \<noteq> 1 \<and> sub_class device \<noteq> 1 then ret (k, - ENOSYS)
      else bindX (foldX (probe_position hw fops raw) [0..<4]
             (\<lparr>ata_pci = device, ata_type = 0, base_io = 0, ctrl_io = 0, ata_data = data\<rparr>, k\<lparr>ak_lock := None\<rparr>, 0))
           (\<lambda>(dev, k, err). ret (k, if err \<noteq> 0 then err else SUCCESS)))"

definition ata_pcidevices :: "(u16 \<times> u16) list" where
  "ata_pcidevices = [(0x8086, 0x7111), (0x8086, 0x7010), (0, 0)]"

definition ata_driver :: "'d hw \<Rightarrow> (ata_dev_struct \<Rightarrow> u32 \<Rightarrow> u32 \<Rightarrow> s32 \<times> (nat \<Rightarrow> u8)) \<Rightarrow> (nat \<Rightarrow> gendisk_struct) \<Rightarrow> u16 list \<Rightarrow>
    'd ata_kernel pci_driver_struct" where
  "ata_driver hw fops raw data = \<lparr>ids = ata_pcidevices, driver_probe = ata_pci_probe hw fops raw data\<rparr>"

definition init_ata :: "'d ata_kernel pci_driver_struct \<Rightarrow> 'd ata_kernel pci_driver_struct option list \<Rightarrow>
    'd ata_kernel pci_driver_struct option list" where
  "init_ata driver tbl = fst (pci_register_driver driver tbl)"

section \<open>The disk of the ATA standard\<close>

text \<open>
  What the driver relies on. Each task file register keeps the last two bytes written to it; \<open>READ SECTORS EXT\<close> takes
  a 16-bit sector count (0 for 65536) and a 48-bit sector number from them and queues the words of those sectors;
  reading the data port takes the next word; while words are queued the disk becomes ready after finitely many polls.
\<close>

record ata_regs =
  reg_cur :: "u32 \<Rightarrow> u8"
  reg_prev :: "u32 \<Rightarrow> u8"
  queue :: "u16 list"

definition reg_write :: "u32 \<Rightarrow> u8 \<Rightarrow> ata_regs \<Rightarrow> ata_regs" where
  "reg_write r v s = s\<lparr>reg_prev := (reg_prev s)(r := reg_cur s r), reg_cur := (reg_cur s)(r := v)\<rparr>"

definition lba48 :: "ata_regs \<Rightarrow> nat" where
  "lba48 s = unat (reg_cur s ATA_LBALO) + unat (reg_cur s ATA_LBAMID) * 2 ^ 8 + unat (reg_cur s ATA_LBAHI) * 2 ^ 16
     + unat (reg_prev s ATA_LBALO) * 2 ^ 24 + unat (reg_prev s ATA_LBAMID) * 2 ^ 32 + unat (reg_prev s ATA_LBAHI) * 2 ^ 40"

definition sectors :: "ata_regs \<Rightarrow> nat" where
  "sectors s = (let n = unat (reg_cur s ATA_SCOUNT) + unat (reg_prev s ATA_SCOUNT) * 2 ^ 8 in if n = 0 then 65536 else n)"

definition read_words :: "(nat \<Rightarrow> u16 list) \<Rightarrow> nat \<Rightarrow> nat \<Rightarrow> u16 list" where
  "read_words disk lba n = concat (map disk [lba..<lba + n])"

definition conforms :: "'d hw \<Rightarrow> u32 \<Rightarrow> (nat \<Rightarrow> u16 list) \<Rightarrow> ('d \<Rightarrow> ata_regs) \<Rightarrow> ('d \<Rightarrow> nat) \<Rightarrow> bool" where
  "conforms hw b disk regs delay \<longleftrightarrow>
     (\<forall>d v. \<forall>r\<in>{ATA_SCOUNT, ATA_LBALO, ATA_LBAMID, ATA_LBAHI, ATA_DR_HD}.
        regs (outb hw (b + r) v d) = reg_write r v (regs d)) \<and>
     (\<forall>d. regs (outb hw (b + ATA_COMMND) CMD_READ_EXT d) =
        (regs d)\<lparr>queue := read_words disk (lba48 (regs d)) (sectors (regs d))\<rparr>) \<and>
     (\<forall>d. regs (snd (inb hw (b + ATA_STATUS) d)) = regs d) \<and>
     (\<forall>d. bit (fst (inb hw (b + ATA_STATUS) d)) 7 \<longrightarrow> delay (snd (inb hw (b + ATA_STATUS) d)) < delay d) \<and>
     (\<forall>d. queue (regs d) \<noteq> [] \<longrightarrow> \<not> bit (fst (inb hw (b + ATA_STATUS) d)) 3 \<longrightarrow>
        delay (snd (inb hw (b + ATA_STATUS) d)) < delay d) \<and>
     (\<forall>d w q. queue (regs d) = w # q \<longrightarrow> fst (hw_inw hw (ucast (b + ATA_DATA)) d) = w \<and>
        regs (snd (hw_inw hw (ucast (b + ATA_DATA)) d)) = (regs d)\<lparr>queue := q\<rparr>) \<and>
     (\<forall>n. length (disk n) = 256)"

definition bytes_of :: "u16 list \<Rightarrow> u8 list" where
  "bytes_of ws = concat (map (\<lambda>w. [ucast w, ucast (drop_bit 8 w)]) ws)"

section \<open>Transfers\<close>

lemma status_bit: "n < 8 \<Longrightarrow> (ucast (st :: u8) AND BIT n = 0) \<longleftrightarrow> \<not> bit st n"
  by (simp add: and_BIT_eq_0 bit_ucast_iff)

lemma wait_bsy_returns:
  assumes "conforms hw b disk regs delay"
  shows "\<exists>d'. wait_bsy hw b d = ret d' \<and> regs d' = regs d"
proof (induction "delay d" arbitrary: d rule: less_induct)
  case less
  let ?r = "inb hw (b + ATA_STATUS) d"
  have r: "regs (snd ?r) = regs d" using assms unfolding conforms_def by blast
  show ?case
  proof (cases "bit (fst ?r) 7")
    case False
    then show ?thesis using r by (subst wait_bsy.simps) (simp add: BSY_def status_bit)
  next
    case True
    then have "delay (snd ?r) < delay d" using assms unfolding conforms_def by blast
    from less [OF this] r True show ?thesis by (subst wait_bsy.simps) (simp add: BSY_def status_bit)
  qed
qed

lemma wait_drq_returns:
  assumes "conforms hw b disk regs delay" "queue (regs d) \<noteq> []"
  shows "\<exists>d'. wait_drq hw b d = ret d' \<and> regs d' = regs d"
  using assms(2)
proof (induction "delay d" arbitrary: d rule: less_induct)
  case less
  let ?r = "inb hw (b + ATA_STATUS) d"
  have r: "regs (snd ?r) = regs d" using assms(1) unfolding conforms_def by blast
  show ?case
  proof (cases "bit (fst ?r) 3")
    case True
    then show ?thesis using r by (subst wait_drq.simps) (simp add: DRQ_def status_bit)
  next
    case False
    then have "delay (snd ?r) < delay d" using assms(1) less.prems unfolding conforms_def by blast
    from less.hyps [OF this] r False less.prems show ?thesis by (subst wait_drq.simps) (simp add: DRQ_def status_bit)
  qed
qed

lemma repinsw_queue:
  assumes c: "conforms hw b disk regs delay" and q: "queue (regs d) = ws @ rest"
  shows "\<exists>d'. repinsw (length ws) hw (b + ATA_DATA) m buf d = (put_bytes m buf (bytes_of ws), d') \<and>
    regs d' = (regs d)\<lparr>queue := rest\<rparr>"
  using q
proof (induction ws arbitrary: m buf d)
  case (Cons w ws)
  let ?r = "hw_inw hw (ucast (b + ATA_DATA)) d"
  have r: "fst ?r = w" "regs (snd ?r) = (regs d)\<lparr>queue := ws @ rest\<rparr>"
    using c Cons.prems unfolding conforms_def by (metis append_Cons)+
  then obtain d' where d': "repinsw (length ws) hw (b + ATA_DATA) (m(buf := ucast w, buf + 1 := ucast (drop_bit 8 w))) (buf + 2) (snd ?r) =
      (put_bytes (m(buf := ucast w, buf + 1 := ucast (drop_bit 8 w))) (buf + 2) (bytes_of ws), d')"
    "regs d' = (regs d)\<lparr>queue := rest\<rparr>"
    using Cons.IH [of "snd ?r"] by auto
  then show ?case using r(1) by (auto simp: bytes_of_def split_beta add.assoc)
qed (simp add: bytes_of_def)

lemma bytes_of_append: "bytes_of (xs @ ys) = bytes_of xs @ bytes_of ys"
  by (simp add: bytes_of_def)

lemma length_bytes_of: "length (bytes_of ws) = 2 * length ws"
  by (induction ws) (simp_all add: bytes_of_def)

lemma half_block: "unat (BLOCK_SIZE div 2) = 256"
  by (simp add: BLOCK_SIZE_def unat_div_word)

lemma read_loop_queue:
  assumes c: "conforms hw b disk regs delay"
  shows "queue (regs d) = read_words disk lba n \<Longrightarrow>
    \<exists>d'. ata_read_loop n hw b buffer i m d = ret (put_bytes m (buffer + BLOCK_SIZE * i) (bytes_of (read_words disk lba n)), d')"
proof (induction n arbitrary: d lba i m)
  case (Suc n)
  have len: "length (disk lba) = 256" using c unfolding conforms_def by blast
  have w: "read_words disk lba (Suc n) = disk lba @ read_words disk (Suc lba) n"
    by (simp add: read_words_def upt_conv_Cons del: upt_Suc)
  have ne: "read_words disk lba (Suc n) \<noteq> []" using w len by auto
  obtain d1 where d1: "wait_bsy hw b d = ret d1" "regs d1 = regs d" using wait_bsy_returns [OF c] by blast
  then obtain d2 where d2: "wait_drq hw b d1 = ret d2" "regs d2 = regs d"
    using wait_drq_returns [OF c, of d1] Suc.prems ne by auto
  then obtain d3 where d3: "repinsw 256 hw (b + ATA_DATA) m (buffer + BLOCK_SIZE * i) d2 =
      (put_bytes m (buffer + BLOCK_SIZE * i) (bytes_of (disk lba)), d3)" "queue (regs d3) = read_words disk (Suc lba) n"
    using repinsw_queue [OF c, of d2 "disk lba" "read_words disk (Suc lba) n" m "buffer + BLOCK_SIZE * i"] Suc.prems w len by auto
  from Suc.IH [OF d3(2), of "i + 1" "put_bytes m (buffer + BLOCK_SIZE * i) (bytes_of (disk lba))"]
  obtain d' where "ata_read_loop n hw b buffer (i + 1) (put_bytes m (buffer + BLOCK_SIZE * i) (bytes_of (disk lba))) d3 =
      ret (put_bytes (put_bytes m (buffer + BLOCK_SIZE * i) (bytes_of (disk lba))) (buffer + BLOCK_SIZE * (i + 1))
        (bytes_of (read_words disk (Suc lba) n)), d')" by blast
  moreover have "buffer + BLOCK_SIZE * (i + 1) = buffer + BLOCK_SIZE * i + of_nat (length (bytes_of (disk lba)))"
    by (simp add: length_bytes_of len BLOCK_SIZE_def algebra_simps)
  ultimately show ?case using d1(1) d2(1) d3(1) by (simp add: w bytes_of_append put_bytes_append half_block)
qed (simp add: read_words_def bytes_of_def)

text \<open>The bytes of a 32-bit number, as the driver splits it.\<close>

lemma byte_of_word: "unat (ucast (drop_bit n x AND 0xff) :: u8) = unat (x :: u32) div 2 ^ n mod 256"
proof -
  have m: "(0xff :: u32) = mask 8" by (simp add: mask_eq_exp_minus_1)
  have u: "unat (ucast v :: u8) = unat v mod 256" for v :: u32
    by (simp add: unsigned_ucast_eq take_bit_eq_mod)
  have t: "drop_bit n x AND 0xff = take_bit 8 (drop_bit n x)" unfolding m by (rule take_bit_eq_mask [symmetric])
  have "take_bit 32 (unat x) = unat x" by (simp add: take_bit_nat_eq_self)
  then have "unat (take_bit 8 (drop_bit n x)) = unat x div 2 ^ n mod 256"
    by (simp only: unsigned_take_bit_eq unsigned_drop_bit_eq len_num1 len_bit0) (simp add: take_bit_eq_mod drop_bit_eq_div)
  then show ?thesis unfolding u t by simp
qed

lemma word_bytes: "x mod 256 + x div 256 mod 256 * 256 + x div 65536 mod 256 * 65536 + x div 16777216 * 16777216 = x"
  for x :: nat
proof -
  define y z where "y = x div 256" and "z = y div 256"
  have "x = y * 256 + x mod 256" "y = z * 256 + y mod 256" "z = z div 256 * 256 + z mod 256"
    by (simp_all add: y_def z_def)
  moreover have d: "x div 65536 = z" "x div 16777216 = z div 256" by (simp_all add: y_def z_def flip: div_mult2_eq)
  ultimately show ?thesis unfolding y_def [symmetric] d by linarith
qed

lemma ports_distinct:
  "distinct [ATA_SCOUNT, ATA_LBALO, ATA_LBAMID, ATA_LBAHI, ATA_DR_HD]"
  "distinct [ATA_DR_HD, ATA_LBAHI, ATA_LBAMID, ATA_LBALO, ATA_SCOUNT]"
  by (simp_all add: ATA_SCOUNT_def ATA_LBALO_def ATA_LBAMID_def ATA_LBAHI_def ATA_DR_HD_def)

section \<open>Results\<close>

lemma ata_read_sectors:
  assumes "conforms hw (base_io dev) disk regs delay" "count \<noteq> 0" "unat count \<le> 65536" "\<not> held mtx"
  shows "\<exists>mtx' d'. ata_read hw dev buffer count offset (m, mtx, d) =
    ret ((put_bytes m buffer (bytes_of (read_words disk (unat offset) (unat count))), mtx', d'), count) \<and> \<not> held mtx'"
proof -
  let ?b = "base_io dev"
  note c = assms(1)
  have w: "regs (outb hw (?b + r) v d) = reg_write r v (regs d)"
    if "r \<in> {ATA_SCOUNT, ATA_LBALO, ATA_LBAMID, ATA_LBAHI, ATA_DR_HD}" for r v d
    using c that unfolding conforms_def by blast
  define d1 where "d1 = outb hw (?b + ATA_LBAHI) (ucast (drop_bit 16 offset AND 0xff))
    (outb hw (?b + ATA_LBAMID) (ucast (drop_bit 8 offset AND 0xff)) (outb hw (?b + ATA_LBALO) (ucast (offset AND 0xff))
    (outb hw (?b + ATA_SCOUNT) (ucast (count AND 0xff)) (outb hw (?b + ATA_LBAHI) 0 (outb hw (?b + ATA_LBAMID) 0
    (outb hw (?b + ATA_LBALO) (ucast (drop_bit 24 offset AND 0xff)) (outb hw (?b + ATA_SCOUNT) (ucast (drop_bit 8 count AND 0xff))
    (outb hw (?b + ATA_DR_HD) (if ata_type dev mod 2 = 0 then 0x40 else 0x50) d))))))))"
  obtain d2 where d2: "wait_bsy hw ?b d1 = ret d2" "regs d2 = regs d1" using wait_bsy_returns [OF c] by blast
  have "reg_cur (regs d1) ATA_LBALO = ucast (offset AND 0xff)" "reg_prev (regs d1) ATA_LBALO = ucast (drop_bit 24 offset AND 0xff)"
    "reg_cur (regs d1) ATA_LBAMID = ucast (drop_bit 8 offset AND 0xff)" "reg_prev (regs d1) ATA_LBAMID = 0"
    "reg_cur (regs d1) ATA_LBAHI = ucast (drop_bit 16 offset AND 0xff)" "reg_prev (regs d1) ATA_LBAHI = 0"
    "reg_cur (regs d1) ATA_SCOUNT = ucast (count AND 0xff)" "reg_prev (regs d1) ATA_SCOUNT = ucast (drop_bit 8 count AND 0xff)"
    using ports_distinct by (simp_all add: d1_def w reg_write_def)
  note r = this
  have o: "unat offset div 2 ^ 24 mod 256 = unat offset div 2 ^ 24"
    using unat_u32_lt [of offset] by (intro mod_less) (simp add: less_mult_imp_div_less)
  have lba: "lba48 (regs d2) = unat offset"
    using word_bytes [of "unat offset"] o byte_of_word [of 0 offset]
    by (simp add: lba48_def d2(2) r byte_of_word)
  have sec: "sectors (regs d2) = unat count"
  proof -
    have "unat (reg_cur (regs d2) ATA_SCOUNT) + unat (reg_prev (regs d2) ATA_SCOUNT) * 2 ^ 8 = unat count mod 65536"
      using byte_of_word [of 0 count] mod_mult2_eq [of "unat count" 256 256]
      by (simp add: d2(2) r byte_of_word)
    moreover have "unat count mod 65536 = (if unat count = 65536 then 0 else unat count)" using assms(3) by auto
    moreover have "0 < unat count" using assms(2) by (simp add: unat_gt_0)
    ultimately show ?thesis by (simp add: sectors_def Let_def)
  qed
  let ?d = "outb hw (?b + ATA_COMMND) CMD_READ_EXT d2"
  have q: "queue (regs ?d) = read_words disk (unat offset) (unat count)"
    using c unfolding conforms_def by (metis ata_regs.select_convs(3) ata_regs.update_convs(3) ata_regs.surjective lba sec)
  from read_loop_queue [OF c q, of buffer 0 m] obtain d' where
    "ata_read_loop (unat count) hw ?b buffer 0 m ?d = ret (put_bytes m buffer (bytes_of (read_words disk (unat offset) (unat count))), d')"
    by auto
  then have "ata_read hw dev buffer count offset (m, mtx, d) =
      ret ((put_bytes m buffer (bytes_of (read_words disk (unat offset) (unat count))), mutex_unlock (mtx\<lparr>locked := 1\<rparr>), d'), count)"
    using assms(2,4) d2(1) by (simp add: ata_read_def mutex_lock_free Let_def d1_def)
  then show ?thesis by auto
qed

text \<open>
  C10: Reading sectors ends and is right. With its lock free and a disk that behaves as the ATA
  standard says, however often it reports busy, \<open>ata_read\<close> of 1 to 65536 sectors returns the count, has put the bytes
  of the sectors from \<open>offset\<close> on, low byte first, in the buffer, has changed no other memory and has
  released the lock. With the lock held it never returns; a count of 0 reads nothing.
\<close>

theorem ata_read_spec:
  assumes "conforms hw (base_io dev) disk regs delay" "unat count \<le> 65536"
  shows "if count = 0 then ata_read hw dev buffer count offset (m, mtx, d) = ret ((m, mtx, d), 0)
    else if held mtx then ata_read hw dev buffer count offset (m, mtx, d) = None
    else \<exists>mtx' d'. ata_read hw dev buffer count offset (m, mtx, d) =
        ret ((put_bytes m buffer (bytes_of (read_words disk (unat offset) (unat count))), mtx', d'), count) \<and> \<not> held mtx'"
proof (cases "count = 0 \<or> held mtx")
  case True
  then show ?thesis by (auto simp: ata_read_def mutex_lock_held)
next
  case False
  then show ?thesis using ata_read_sectors [OF assms(1) _ assms(2)] by auto
qed

text \<open>A disk whose state is its registers, ready after each command; the sample has sector numbers in its sectors.\<close>

definition sample_disk :: "nat \<Rightarrow> u16 list" where
  "sample_disk n = replicate 256 (of_nat n)"

definition disk_hw :: "(nat \<Rightarrow> u16 list) \<Rightarrow> ata_regs hw" where
  "disk_hw disk =
     \<lparr>hw_inb = (\<lambda>port s. (if port = 0x1f7 then 0x48 else 0, s)),
      hw_inw = (\<lambda>port s. case queue s of [] \<Rightarrow> (0, s) | w # q \<Rightarrow> (w, s\<lparr>queue := q\<rparr>)),
      hw_outb = (\<lambda>port v s. if port = 0x1f7
         then if v = CMD_READ_EXT then s\<lparr>queue := read_words disk (lba48 s) (sectors s)\<rparr> else s
         else reg_write (ucast port - 0x1f0) v s)\<rparr>"

lemma disk_hw_conforms: "(\<And>n. length (disk n) = 256) \<Longrightarrow> conforms (disk_hw disk) 0x1f0 disk id (\<lambda>_. 0)"
proof -
  assume "\<And>n. length (disk n) = 256"
  moreover have "\<not> bit (0x48 :: u8) 7" "bit (0x48 :: u8) 3" by (simp_all add: bit_numeral_word_iff)
  ultimately show ?thesis
    unfolding conforms_def
    by (auto simp: disk_hw_def outb_def inb_def CMD_READ_EXT_def ATA_COMMND_def ATA_STATUS_def
      ATA_SCOUNT_def ATA_LBALO_def ATA_LBAMID_def ATA_LBAHI_def ATA_DR_HD_def ATA_DATA_def)
qed

definition sample_hw :: "ata_regs hw" where
  "sample_hw = disk_hw sample_disk"

lemma sample_conforms: "conforms sample_hw 0x1f0 sample_disk id (\<lambda>_. 0)"
  unfolding sample_hw_def by (rule disk_hw_conforms) (simp add: sample_disk_def)

definition sample_dev :: ata_dev_struct where
  "sample_dev = \<lparr>ata_pci = bare_device 0 1 1, ata_type = 0, base_io = 0x1f0, ctrl_io = 0x3f6, ata_data = []\<rparr>"

definition idle_regs :: ata_regs where
  "idle_regs = \<lparr>reg_cur = (\<lambda>_. 0), reg_prev = (\<lambda>_. 0), queue = []\<rparr>"

theorem ata_read_spec_witness:
  "\<exists>mtx' d'. ata_read sample_hw sample_dev 0x8000 2 7 (\<lambda>_. 0, \<lparr>locked = 0, waiting = None\<rparr>, idle_regs) =
     ret ((put_bytes (\<lambda>_. 0) 0x8000 (bytes_of (read_words sample_disk 7 2)), mtx', d'), 2)"
  using ata_read_spec [of sample_hw sample_dev sample_disk id "\<lambda>_. 0" 2 "0x8000" 7 "\<lambda>_. 0" "\<lparr>locked = 0, waiting = None\<rparr>" idle_regs]
    sample_conforms by (auto simp: sample_dev_def held_def)

section \<open>The disks a probe registers\<close>

text \<open>The disk that \<open>attach_disk\<close> puts behind those of the table.\<close>

abbreviation new_disk :: "(ata_dev_struct \<Rightarrow> u32 \<Rightarrow> u32 \<Rightarrow> s32 \<times> (nat \<Rightarrow> u8)) \<Rightarrow> gendisk_struct \<Rightarrow> ata_dev_struct \<Rightarrow> gendisk_struct" where
  "new_disk fops raw dev \<equiv> raw\<lparr>capacity := 0, io_size := BLOCK_SIZE, bd_major := MAJOR_ATA0, bd_read := fops dev\<rparr>"

lemma new_disk_major [simp]: "bd_major (gendisk_partscan (new_disk fops raw dev)) = MAJOR_ATA0"
  by (simp add: gendisk_partscan_def scan_fields split_beta Let_def)

lemma attach_disk_packed:
  assumes "ak_bd_list k = packed MAX_DEVICES ys" "length ys < MAX_DEVICES"
  shows "\<exists>k'. attach_disk fops raw dev k = ret k' \<and> ak_hw k' = ak_hw k \<and>
    ak_bd_list k' = packed MAX_DEVICES (ys @ [gendisk_partscan (new_disk fops raw dev)])"
proof -
  have "register_blkdev (new_disk fops raw dev) (packed MAX_DEVICES ys) =
      (packed MAX_DEVICES (ys @ [gendisk_partscan (new_disk fops raw dev)]), 0)"
    using blkdevs.register_packed [of "new_disk fops raw dev" MAX_DEVICES ys] assms(2) by simp
  then show ?thesis using assms(1) by (cases "ak_lock k = None") (auto simp: attach_disk_def Let_def)
qed

lemma probe_step:
  assumes id: "\<And>dev d. \<exists>dev' d' r. ata_identify hw dev d = ret (dev', d', r)"
    and inv: "ak_bd_list k = packed MAX_DEVICES ys" "length ys \<le> i" "\<forall>bd\<in>set ys. bd_major bd = MAJOR_ATA0" and i: "i < 4"
  shows "\<exists>dev' k' zs. probe_position hw fops raw i (dev, k, 0) = ret (dev', k', 0) \<and>
    ak_bd_list k' = packed MAX_DEVICES (ys @ zs) \<and> length (ys @ zs) \<le> Suc i \<and> (\<forall>bd\<in>set (ys @ zs). bd_major bd = MAJOR_ATA0)"
proof -
  have nn: "\<not> - ENOSYS = (0 :: u32)" by simp
  obtain dev1 where g: "get_ports 0 (of_nat i) (dev\<lparr>ata_type := of_nat i\<rparr>) = (dev1, 0)"
    by (simp add: get_ports_def) (metis (mono_tags))
  obtain dev2 d r where a: "ata_identify hw dev1 (ak_hw k) = ret (dev2, d, r)" using id by blast
  show ?thesis
  proof (cases "r = 0")
    case True
    then show ?thesis using g a inv
      by (auto simp: probe_position_def intro!: exI [of _ dev2] exI [of _ "k\<lparr>ak_hw := d\<rparr>"] exI [of _ "[]"])
  next
    case False
    have l: "length ys < MAX_DEVICES" using inv(2) i by (simp add: MAX_DEVICES_def)
    obtain k' where k': "attach_disk fops (raw i) dev2 (k\<lparr>ak_hw := d\<rparr>) = ret k'"
      "ak_bd_list k' = packed MAX_DEVICES (ys @ [gendisk_partscan (new_disk fops (raw i) dev2)])"
      using attach_disk_packed [of "k\<lparr>ak_hw := d\<rparr>" ys fops "raw i" dev2] inv(1) l by auto
    then show ?thesis using g a inv False
      by (auto simp: probe_position_def intro!: exI [of _ dev2] exI [of _ k'] exI [of _ "[gendisk_partscan (new_disk fops (raw i) dev2)]"])
  qed
qed

text \<open>The rest of the positions, behind the disks \<open>ys\<close> already found.\<close>

lemma probe_all:
  assumes id: "\<And>dev d. \<exists>dev' d' r. ata_identify hw dev d = ret (dev', d', r)"
    and k: "ak_bd_list k = packed MAX_DEVICES ys" "length ys \<le> i" "\<forall>bd\<in>set ys. bd_major bd = MAJOR_ATA0" and n: "i + n \<le> 4"
  shows "\<exists>dev' k' zs. foldX (probe_position hw fops raw) [i..<i + n] (dev, k, 0) = ret (dev', k', 0) \<and>
    ak_bd_list k' = packed MAX_DEVICES (ys @ zs) \<and> length (ys @ zs) \<le> i + n \<and> (\<forall>bd\<in>set (ys @ zs). bd_major bd = MAJOR_ATA0)"
  using n
proof (induction n)
  case 0
  then show ?case using k by (auto intro!: exI [of _ dev] exI [of _ k] exI [of _ "[]"])
next
  case (Suc n)
  then obtain dev1 k1 zs where IH: "foldX (probe_position hw fops raw) [i..<i + n] (dev, k, 0) = ret (dev1, k1, 0)"
    "ak_bd_list k1 = packed MAX_DEVICES (ys @ zs)" "length (ys @ zs) \<le> i + n" "\<forall>bd\<in>set (ys @ zs). bd_major bd = MAJOR_ATA0" by auto
  from Suc.prems have "i + n < 4" by simp
  from probe_step [OF id IH(2-4) this, of fops raw dev1] obtain dev2 k2 zs' where
    "probe_position hw fops raw (i + n) (dev1, k1, 0) = ret (dev2, k2, 0)" "ak_bd_list k2 = packed MAX_DEVICES ((ys @ zs) @ zs')"
    "length ((ys @ zs) @ zs') \<le> Suc (i + n)" "\<forall>bd\<in>set ((ys @ zs) @ zs'). bd_major bd = MAJOR_ATA0" by blast
  with IH(1) show ?case by (auto simp: foldX_append intro!: exI [of _ dev2] exI [of _ k2] exI [of _ "zs @ zs'"])
qed


text \<open>A controller without disks: every status is 0.\<close>

definition empty_hw :: "unit hw" where
  "empty_hw = \<lparr>hw_inb = (\<lambda>_ s. (0, s)), hw_inw = (\<lambda>_ s. (0, s)), hw_outb = (\<lambda>_ _ s. s)\<rparr>"

definition display_device :: pcidev_struct where
  "display_device = (bare_device 0 2 0)\<lparr>class_no := 3, sub_class := 1\<rparr>"


end
