(* ===== verification/Ext2.thy ===== *)
theory Ext2
  imports Vfs
begin

text \<open>
  The ext2 file system driver, \<open>kernel/fs/ext2.c\<close>, on top of the disks of \<open>Devices\<close> and the directories of \<open>Vfs\<close>.
  The state extends the one of \<open>Vfs\<close> by the disks, the mounted file systems (by the address of their \<open>mntp_struct\<close>),
  the inode that the entry of a directory carries as payload, and what \<open>kmalloc\<close> will return: addresses with
  the bytes the memory there happens to hold, since it is not cleared. When the list is empty the heap is exhausted and the
  unchecked null pointer is used. Disk structures are read from byte buffers, little-endian.
\<close>

section \<open>Structures on disk\<close>

definition IO_BLOCK_SIZE :: u32 where "IO_BLOCK_SIZE = 512"
definition SB_SECT_OFFSET :: u32 where "SB_SECT_OFFSET = 2"
definition SB_SECT_SIZE :: u32 where "SB_SECT_SIZE = 2"

type_synonym bytes = "nat \<Rightarrow> u8"

definition buf16 :: "bytes \<Rightarrow> nat \<Rightarrow> u16" where
  "buf16 b i = ucast (b i) OR push_bit 8 (ucast (b (i + 1)))"

record sb_t =
  total_inodes :: u32
  total_blocks :: u32
  block_size_log :: u32
  blocks_per_group :: u32
  inodes_per_group :: u32
  signature :: u16
  inode_size :: u16

definition read_sb :: "bytes \<Rightarrow> sb_t" where
  "read_sb b = \<lparr>total_inodes = buf32 b 0, total_blocks = buf32 b 4, block_size_log = buf32 b 24, blocks_per_group = buf32 b 32,
     inodes_per_group = buf32 b 40, signature = buf16 b 56, inode_size = buf16 b 88\<rparr>"

text \<open>The fields of an inode of 128 bytes, and of a group descriptor of 32 bytes.\<close>

definition sizeof_inode :: nat where "sizeof_inode = 128"
definition i_mode :: "bytes \<Rightarrow> u16" where "i_mode inode = buf16 inode 0"
definition i_size :: "bytes \<Rightarrow> u32" where "i_size inode = buf32 inode 4"
definition i_blocks :: "bytes \<Rightarrow> u32" where "i_blocks inode = buf32 inode 28"
definition i_block :: "bytes \<Rightarrow> nat \<Rightarrow> u32" where "i_block inode k = buf32 inode (40 + 4 * k)"

definition sizeof_gd :: nat where "sizeof_gd = 32"
definition bg_inode_table :: "bytes \<Rightarrow> nat \<Rightarrow> u32" where "bg_inode_table gds n = buf32 gds (n * sizeof_gd + 8)"

record ext2_direntry_struct =
  ed_inode :: u32
  rec_len :: u16
  name_len :: u8
  file_type :: u8

definition read_direntry :: "bytes \<Rightarrow> nat \<Rightarrow> ext2_direntry_struct" where
  "read_direntry b i = \<lparr>ed_inode = buf32 b i, rec_len = buf16 b (i + 4), name_len = b (i + 6), file_type = b (i + 7)\<rparr>"

section \<open>State\<close>

record ext2fs_struct =
  superblock :: sb_t
  fs_part :: hd_struct
  block_size :: u32
  gd_count :: u32
  group_descriptors :: bytes
  gd_bytes :: nat

record ext2_state = vfs +
  e_bds :: "addr \<Rightarrow> gendisk_struct"
  e_mounts :: "addr \<Rightarrow> ext2fs_struct"
  e_payload :: "addr \<Rightarrow> bytes option"
  e_heap :: "(addr \<times> bytes) list"
  e_freed :: "addr list"

definition alloc :: "ext2_state \<Rightarrow> ((addr \<times> bytes) \<times> ext2_state) exec" where
  "alloc s = (case e_heap s of [] \<Rightarrow> fail Out_Of_Bounds | p # rest \<Rightarrow> ret (p, s\<lparr>e_heap := rest\<rparr>))"

definition hdd_read :: "ext2_state \<Rightarrow> hd_struct \<Rightarrow> u32 \<Rightarrow> u32 \<Rightarrow> s32 \<times> bytes" where
  "hdd_read s part sectors lba = bd_read (e_bds s (hd_bd part)) sectors (lba + sect_offset part)"

section \<open>Operations\<close>

definition ext2_probe :: "hd_struct \<Rightarrow> ext2_state \<Rightarrow> (ext2_state \<times> s32) exec" where
  "ext2_probe part s =
     (let (n, b) = hdd_read s part SB_SECT_SIZE SB_SECT_OFFSET
      in if n <s SB_SECT_SIZE then ret (s, - EIO)
         else if signature (read_sb b) = 0xef53 then ret (s, SUCCESS) else ret (s, - ENOTSUP))"

text \<open>\<open>inode\<close> is what the memory for the inode held before.\<close>

definition fetch_inode :: "ext2_state \<Rightarrow> u32 \<Rightarrow> ext2fs_struct \<Rightarrow> bytes \<Rightarrow> (bytes \<times> s32) exec" where
  "fetch_inode s inode_no fsinfo inode =
     (let sb = superblock fsinfo
      in if inode_no > total_inodes sb then ret (inode, - ENOENT)
         else if inodes_per_group sb = 0 then fail Div_Zero
         else let block_group_no = (inode_no - 1) div inodes_per_group sb
              in if inode_size sb = 0 then fail Div_Zero
                 else let inodes_per_disk_sector = IO_BLOCK_SIZE div ucast (inode_size sb)
                      in if inodes_per_disk_sector = 0 then fail Div_Zero
                         else let disk_sector_offset = ((inode_no - 1) mod inodes_per_group sb) div inodes_per_disk_sector
                              in if gd_bytes fsinfo < unat block_group_no * sizeof_gd + sizeof_gd then fail Out_Of_Bounds
                                 else let inode_table_lba = bg_inode_table (group_descriptors fsinfo) (unat block_group_no)
                                            * (block_size fsinfo div IO_BLOCK_SIZE);
                                          (error, inode_buf) = hdd_read s (fs_part fsinfo) 1 (inode_table_lba + disk_sector_offset)
                                      in if error <s 0 then ret (inode, error)
                                         else if sizeof_inode < unat (inode_size sb) then fail Out_Of_Bounds
                                         else let off = unat ((inode_no - 1) mod inodes_per_disk_sector * ucast (inode_size sb))
                                              in ret (\<lambda>k. if k < unat (inode_size sb) then inode_buf (off + k) else inode k, SUCCESS))"

text \<open>
  \<open>payload\<close> is the payload of the directory entry, \<open>mnt\<close> the file system of its parent directory. An entry without
  payload gets new memory; the inode is given back when it cannot be fetched.
\<close>

definition direntry_get_inode :: "u32 \<Rightarrow> addr \<Rightarrow> bytes option \<Rightarrow> ext2_state \<Rightarrow> (bytes option \<times> ext2_state) exec" where
  "direntry_get_inode inode_no mnt payload s =
     bindX (case payload of Some inode \<Rightarrow> ret (inode, s)
            | None \<Rightarrow> bindX (alloc s) (\<lambda>((a, raw), s). ret (raw, s))) (\<lambda>(inode, s).
     bindX (fetch_inode s inode_no (e_mounts s mnt) inode) (\<lambda>(inode, error).
       if error <s 0 then ret (None, s) else ret (Some inode, s)))"

definition get_direntry :: "direntry_struct \<Rightarrow> bytes option \<Rightarrow> ext2_state \<Rightarrow>
    (direntry_struct \<times> bytes option \<times> ext2_state \<times> s32) exec" where
  "get_direntry de payload s =
     bindX (ASSERT (d_fs_info (dirs s (de_parent de)) \<noteq> 0)) (\<lambda>_.
     bindX (direntry_get_inode (de_inode_no de) (d_fs_info (dirs s (de_parent de))) payload s) (\<lambda>(inode, s).
       case inode of None \<Rightarrow> ret (de, None, s, - EIO)
       | Some inode \<Rightarrow> ret (de\<lparr>de_mode := i_mode inode, de_type := ucast (i_mode inode) AND 0xf000,
           de_size := i_size inode, de_blocks := i_blocks inode\<rparr>, Some inode, s, 0)))"

text \<open>
  One turn of the loop over a directory block: the entry at offset \<open>i\<close>. The payload of the new
  entry is the word that the allocated memory holds at its place, unless the entry is the directory
  itself or its parent; a payload that is not null is used as the address of an inode.
\<close>

definition entry_name :: "bytes \<Rightarrow> nat \<Rightarrow> nat \<Rightarrow> string" where
  "entry_name b i n = takeWhile (\<lambda>c. c \<noteq> CHR 0x00) (map (\<lambda>k. char_of (unat (b (i + k)))) [0..<n])"

definition payload_offset :: nat where "payload_offset = 288"

text \<open>\<open>ASSERT(get_direntry(current_entry) >= 0)\<close>; the inode is shared with the entry of directory \<open>owner\<close>.\<close>

definition enter :: "direntry_struct \<Rightarrow> bytes option \<Rightarrow> addr option \<Rightarrow> ext2_state \<Rightarrow> (direntry_struct \<times> ext2_state) exec" where
  "enter de payload owner s =
     bindX (get_direntry de payload s) (\<lambda>(entry, p, s, r).
     bindX (ASSERT (0 \<le>s r)) (\<lambda>_.
     ret (entry, case owner of None \<Rightarrow> s | Some d \<Rightarrow> s\<lparr>e_payload := (e_payload s)(d := p)\<rparr>)))"

definition fresh_entry :: "addr \<Rightarrow> bytes \<Rightarrow> ext2_direntry_struct \<Rightarrow> nat \<Rightarrow> bytes \<Rightarrow> direntry_struct" where
  "fresh_entry dir b fs_dir_entry i raw =
     \<lparr>de_type = buf32 raw 0, de_mode = buf16 raw 4, de_size = buf32 raw 8, de_blocks = buf32 raw 12,
      de_name = entry_name b (i + 8) (unat (name_len fs_dir_entry)), de_inode_no = ed_inode fs_dir_entry,
      de_parent = dir, directory = 0\<rparr>"

definition new_dir :: "addr \<Rightarrow> u32 \<Rightarrow> addr \<Rightarrow> ext2_state \<Rightarrow> ext2_state" where
  "new_dir dir ino sub s = s\<lparr>dirs := (dirs s)(sub := \<lparr>d_inode_no = ino, d_fs_info = d_fs_info (dirs s dir),
     d_mnt_point = d_mnt_point (dirs s dir), d_parent = dir, entries = []\<rparr>)\<rparr>"

definition new_entry :: "addr \<Rightarrow> bytes \<Rightarrow> ext2_direntry_struct \<Rightarrow> nat \<Rightarrow> ext2_state \<Rightarrow> (direntry_struct \<times> ext2_state) exec" where
  "new_entry dir b fs_dir_entry i s =
     bindX (alloc s) (\<lambda>((a, raw), s).
     let ino = ed_inode fs_dir_entry; entry = fresh_entry dir b fs_dir_entry i raw; parent = d_parent (dirs s dir)
     in if file_type fs_dir_entry = 2 \<and> ino = d_inode_no (dirs s dir)
        then enter (entry\<lparr>directory := dir\<rparr>) (e_payload s dir) (map_option (\<lambda>_. dir) (e_payload s dir)) s
        else if file_type fs_dir_entry = 2 \<and> ino = d_inode_no (dirs s parent)
        then enter (entry\<lparr>directory := parent\<rparr>) (e_payload s parent) (map_option (\<lambda>_. parent) (e_payload s parent)) s
        else if file_type fs_dir_entry = 2
        then bindX (alloc s) (\<lambda>((sub, _), s).
             if buf32 raw payload_offset \<noteq> 0 then fail Out_Of_Bounds
             else enter (entry\<lparr>directory := sub\<rparr>) None (Some sub) (new_dir dir ino sub s))
        else if buf32 raw payload_offset \<noteq> 0 then fail Out_Of_Bounds else enter entry None None s)"

text \<open>
  Every turn allocates, so the loop ends when the heap does: also on an entry of length 0, which does not move the
  offset.
\<close>

lemma alloc_heap: "alloc s = ret (p, s') \<Longrightarrow> length (e_heap s) = Suc (length (e_heap s'))"
  by (auto simp: alloc_def split: list.splits)

lemma get_inode_heap: "direntry_get_inode ino mnt p s = ret (q, s') \<Longrightarrow> length (e_heap s') \<le> length (e_heap s)"
  by (auto simp: direntry_get_inode_def bindX_eq_ret split: option.splits prod.splits if_splits dest!: alloc_heap)

lemma enter_heap: "enter de p owner s = ret (de', s') \<Longrightarrow> length (e_heap s') \<le> length (e_heap s)"
  by (auto simp: enter_def get_direntry_def bindX_eq_ret split: option.splits prod.splits if_splits dest!: get_inode_heap)

lemma new_entry_heap:
  assumes "new_entry dir b e i s = ret (de, s')"
  shows "length (e_heap s') < length (e_heap s)"
proof -
  obtain p s1 where s1: "alloc s = ret (p, s1)"
    using assms unfolding new_entry_def by (elim bindX_retE) (auto split: prod.splits)
  have "length (e_heap s') \<le> length (e_heap s1)"
  proof (cases "alloc s1 = fail Out_Of_Bounds")
    case True
    then show ?thesis using assms s1 by (auto simp: new_entry_def Let_def split: prod.splits if_splits dest!: enter_heap)
  next
    case False
    then obtain q s2 where s2: "alloc s1 = ret (q, s2)" by (auto simp: alloc_def split: list.splits)
    have "e_heap (new_dir dir ino sub s) = e_heap s" for ino sub s by (simp add: new_dir_def)
    with s2 show ?thesis using assms s1 alloc_heap [OF s2]
      by (auto simp: new_entry_def Let_def split: prod.splits if_splits dest!: enter_heap)
  qed
  then show ?thesis using alloc_heap [OF s1] by simp
qed

function entry_loop :: "u32 \<Rightarrow> addr \<Rightarrow> bytes \<Rightarrow> u32 \<Rightarrow> direntry_struct list \<Rightarrow> ext2_state \<Rightarrow> (direntry_struct list \<times> ext2_state) exec" where
  "entry_loop bsize dir b i acc s =
     (if bsize \<le> i then ret (acc, s)
      else if unat bsize < unat i + 8 \<or> unat bsize < unat i + 8 + unat (name_len (read_direntry b (unat i))) then fail Out_Of_Bounds
      else let e = read_direntry b (unat i);
               i' = i + ucast (rec_len e);
               i'' = i' + (if i' mod 4 \<noteq> 0 then 4 - i' mod 4 else 0)
           in bindX (new_entry dir b e (unat i) s) (\<lambda>r. entry_loop bsize dir b i'' (acc @ [fst r]) (snd r)))"
  by pat_completeness auto
termination
  by (relation "measure (\<lambda>(_, _, _, _, _, s). length (e_heap s))") (auto dest: new_entry_heap)

declare entry_loop.simps [simp del]

definition ext2_get_direntries :: "addr \<Rightarrow> ext2_state \<Rightarrow> (ext2_state \<times> s32) exec" where
  "ext2_get_direntries dir s =
     bindX (ASSERT (dir \<noteq> 0)) (\<lambda>_.
     bindX (ASSERT (d_fs_info (dirs s dir) \<noteq> 0)) (\<lambda>_.
     let fsinfo = e_mounts s (d_fs_info (dirs s dir))
     in if entries (dirs s dir) \<noteq> [] then ret (s, SUCCESS)
        else bindX (direntry_get_inode (d_inode_no (dirs s dir)) (d_fs_info (dirs s (d_parent (dirs s dir)))) (e_payload s dir) s) (\<lambda>(inode, s).
          let s = s\<lparr>e_payload := (e_payload s)(dir := inode)\<rparr>
          in if block_size fsinfo = 0 then ret (s, SUCCESS)
             else case inode of None \<Rightarrow> fail Out_Of_Bounds
             | Some inode \<Rightarrow>
                 let per_block = block_size fsinfo div IO_BLOCK_SIZE;
                     (error, b) = hdd_read s (fs_part fsinfo) per_block (i_block inode 0 * per_block)
                 in if error <s 0 then ret (s, error)
                    else bindX (entry_loop (block_size fsinfo) dir b 0 [] s) (\<lambda>(es, s).
                         ret (s\<lparr>dirs := (dirs s)(dir := (dirs s dir)\<lparr>entries := es\<rparr>)\<rparr>, SUCCESS)))))"

definition release :: "addr list \<Rightarrow> ext2_state \<Rightarrow> ext2_state" where
  "release as s = s\<lparr>e_freed := e_freed s @ as\<rparr>"

definition ext2_mount :: "hd_struct \<Rightarrow> addr \<Rightarrow> ext2_state \<Rightarrow> (ext2_state \<times> s32) exec" where
  "ext2_mount part mnt_point s =
     bindX (ext2_probe part s) (\<lambda>(s, error).
     if error <s 0 then ret (s, error)
     else bindX (alloc s) (\<lambda>((fsinfo_a, _), s).
     bindX (alloc s) (\<lambda>((mnt_info, _), s).
     let (error, b) = hdd_read s part SB_SECT_SIZE SB_SECT_OFFSET; sb = read_sb b
     in if error <s SB_SECT_SIZE then ret (release [fsinfo_a, mnt_info] s, error)
        else if 32 \<le> block_size_log sb \<or> blocks_per_group sb = 0
        then fail (if 32 \<le> block_size_log sb then Out_Of_Bounds else Div_Zero)
        else let bsize = push_bit (unat (block_size_log sb)) 0x400;
                 count = total_blocks sb div blocks_per_group sb + 1;
                 gdt_lba = (if bsize = 0x400 then 2 else 1) * (bsize div IO_BLOCK_SIZE);
                 gdt_size = count * of_nat sizeof_gd;
                 gdt_size_sectors = gdt_size div IO_BLOCK_SIZE + (if gdt_size mod IO_BLOCK_SIZE \<noteq> 0 then 1 else 0)
             in bindX (alloc s) (\<lambda>((gds, _), s).
                let (error, gdt) = hdd_read s part gdt_size_sectors gdt_lba
                in if error <s 0 then ret (release [gds, fsinfo_a, mnt_info] s, error)
                   else let fsinfo = \<lparr>superblock = sb, fs_part = part, block_size = bsize, gd_count = count,
                              group_descriptors = gdt, gd_bytes = unat (gdt_size_sectors * IO_BLOCK_SIZE)\<rparr>;
                            backup = dirs s mnt_point;
                            s = s\<lparr>e_mounts := (e_mounts s)(mnt_info := fsinfo),
                                  dirs := (dirs s)(mnt_point := backup\<lparr>d_fs_info := mnt_info, d_mnt_point := mnt_point, d_inode_no := 2\<rparr>)\<rparr>
                        in bindX (ext2_get_direntries mnt_point s) (\<lambda>(s, error).
                           if error <s 0
                           then ret (release [gds, fsinfo_a, mnt_info] (s\<lparr>dirs := (dirs s)(mnt_point := (dirs s mnt_point)
                                  \<lparr>d_fs_info := d_fs_info backup, d_mnt_point := d_mnt_point backup\<rparr>)\<rparr>), error)
                           else ret (s, SUCCESS))))))"

definition ext2fs :: "ext2_state fs_struct" where
  "ext2fs = \<lparr>fs_name = ''ext2'', mbr_id = 0x83, fs_probe = ext2_probe, fs_mount = ext2_mount\<rparr>"

definition init_ext2 :: "ext2_state fs_struct option list \<Rightarrow> ext2_state fs_struct option list" where
  "init_ext2 filesystems = fst (register_fs ext2fs filesystems)"

text \<open>\<open>get_direntries\<close> of \<open>vfs.c\<close> calls through the operations of the file system and drops the result.\<close>

definition load_ext2 :: "addr \<Rightarrow> ext2_state \<Rightarrow> ext2_state exec" where
  "load_ext2 dir s = bindX (ext2_get_direntries dir s) (\<lambda>(s, error). ret s)"

section \<open>Termination\<close>

definition ends :: "'a exec \<Rightarrow> bool" where "ends m \<longleftrightarrow> m \<noteq> None"

lemma ends_intros [intro!]:
  "ends (ret x)" "ends (fail f)" "ends (ASSERT b)" "ends (alloc s)"
  "ends m \<Longrightarrow> (\<And>x. m = ret x \<Longrightarrow> ends (k x)) \<Longrightarrow> ends (bindX m k)"
  by (auto simp: ends_def ASSERT_def alloc_def bindX_def split: option.splits sum.splits list.splits)

lemma ends_fetch_inode [intro!]: "ends (fetch_inode s ino fsinfo inode)"
  by (auto simp: fetch_inode_def Let_def split: prod.splits)

lemma ends_get_inode [intro!]: "ends (direntry_get_inode ino mnt p s)"
  by (auto simp: direntry_get_inode_def split: option.splits prod.splits)

lemma ends_get_direntry [intro!]: "ends (get_direntry de p s)"
  by (auto simp: get_direntry_def split: option.splits prod.splits)

lemma ends_enter [intro!]: "ends (enter de p owner s)"
  by (auto simp: enter_def split: option.splits prod.splits)

lemma ends_new_entry [intro!]: "ends (new_entry dir b e i s)"
  by (auto simp: new_entry_def Let_def split: prod.splits)

lemma ends_entry_loop [intro!]: "ends (entry_loop bsize dir b i acc s)"
proof (induction bsize dir b i acc s rule: entry_loop.induct)
  case (1 bsize dir b i acc s)
  show ?case
  proof (cases "bsize \<le> i \<or> unat bsize < unat i + 8 \<or> unat bsize < unat i + 8 + unat (name_len (read_direntry b (unat i)))")
    case True
    then show ?thesis by (subst entry_loop.simps) auto
  next
    case False
    have "ends (bindX (new_entry dir b (read_direntry b (unat i)) (unat i) s) (\<lambda>r. entry_loop bsize dir b
        (let i' = i + ucast (rec_len (read_direntry b (unat i))) in i' + (if i' mod 4 \<noteq> 0 then 4 - i' mod 4 else 0))
        (acc @ [fst r]) (snd r)))"
      unfolding Let_def using False by (intro ends_intros(5) ends_new_entry) (rule 1; auto)
    moreover have n: "(bsize \<le> i) = False" "(unat bsize < unat i + 8) = False"
      "(unat bsize < unat i + 8 + unat (name_len (read_direntry b (unat i)))) = False" using False by simp_all
    ultimately show ?thesis by (subst entry_loop.simps) (simp only: Let_def n if_False simp_thms)
  qed
qed

lemma ends_get_direntries [intro!]: "ends (ext2_get_direntries dir s)"
  by (auto simp: ext2_get_direntries_def Let_def split: option.splits prod.splits)

lemma ends_probe [intro!]: "ends (ext2_probe part s)"
  by (auto simp: ext2_probe_def Let_def split: prod.splits)

lemma ends_mount: "ends (ext2_mount part mnt_point s)"
  by (auto simp: ext2_mount_def Let_def split: prod.splits)

text \<open>An entry of length 0 is read again and again until the heap is exhausted.\<close>

lemma entry_loop_stuck:
  assumes "i < bsize" "rec_len (read_direntry b (unat i)) = 0" "i mod 4 = 0"
  shows "\<exists>f. entry_loop bsize dir b i acc s = fail f"
proof (induction "length (e_heap s)" arbitrary: acc s rule: less_induct)
  case less
  show ?case
  proof (cases "new_entry dir b (read_direntry b (unat i)) (unat i) s")
    case None
    then show ?thesis using ends_new_entry [of dir b "read_direntry b (unat i)" "unat i" s] by (simp add: ends_def)
  next
    case (Some r)
    show ?thesis
    proof (cases r)
      case (Inl f)
      then show ?thesis using assms Some by (subst entry_loop.simps) (simp add: Let_def not_le)
    next
      case (Inr p)
      then have "length (e_heap (snd p)) < length (e_heap s)"
        using Some new_entry_heap [of dir b _ _ s "fst p" "snd p"] by simp
      from less [OF this, of "acc @ [fst p]"] show ?thesis
        using assms Some Inr by (subst entry_loop.simps) (auto simp: Let_def not_le)
    qed
  qed
qed



section \<open>Fetching an inode\<close>

text \<open>The partition holds the bytes \<open>disk\<close> in \<open>n\<close> sectors: a read inside it succeeds.\<close>

definition part_image :: "ext2_state \<Rightarrow> hd_struct \<Rightarrow> nat \<Rightarrow> (nat \<Rightarrow> u8) \<Rightarrow> bool" where
  "part_image s part n disk \<longleftrightarrow> n < 2147483648 \<and>
     (\<forall>c lba. unat lba + unat c \<le> n \<longrightarrow> fst (hdd_read s part c lba) = c \<and>
        (\<forall>k < 512 * unat c. snd (hdd_read s part c lba) k = disk (512 * unat lba + k)))"

lemma unat_mult_nowrap: "unat x * unat y < 4294967296 \<Longrightarrow> unat (x * y :: u32) = unat x * unat y"
  by (simp add: unat_word_ariths)

lemma nonneg_small: "unat (n :: s32) < 2147483648 \<Longrightarrow> \<not> n <s 0"
proof -
  assume "unat n < 2147483648"
  then have "sint (of_nat (unat n) :: s32) = int (unat n)" by (rule sint_of_nat_s32)
  then show ?thesis by (simp add: word_sless_alt)
qed

text \<open>The place of an inode on the partition, as the ext2 layout defines it.\<close>

definition inode_place :: "ext2fs_struct \<Rightarrow> u32 \<Rightarrow> nat" where
  "inode_place fsinfo ino =
     unat (bg_inode_table (group_descriptors fsinfo) ((unat ino - 1) div unat (inodes_per_group (superblock fsinfo)))) * unat (block_size fsinfo)
     + (unat ino - 1) mod unat (inodes_per_group (superblock fsinfo)) * unat (inode_size (superblock fsinfo))"

definition inode_ok :: "ext2fs_struct \<Rightarrow> nat \<Rightarrow> u32 \<Rightarrow> bool" where
  "inode_ok fsinfo n ino \<longleftrightarrow> (let sb = superblock fsinfo in
     1 \<le> ino \<and> ino \<le> total_inodes sb \<and> inodes_per_group sb \<noteq> 0 \<and> unat (inodes_per_group sb) mod 4 = 0 \<and>
     unat (inode_size sb) \<in> {128, 256, 512} \<and> unat (block_size fsinfo) mod 512 = 0 \<and>
     (unat ino - 1) div unat (inodes_per_group sb) * 32 + 32 \<le> gd_bytes fsinfo \<and>
     inode_place fsinfo ino + unat (inode_size sb) \<le> 512 * n)"

lemma inode_sector:
  assumes "d \<in> {1, 2, 4 :: nat}" "m mod 4 = 0"
  shows "x mod m * (512 div d) = 512 * (x mod m div d) + x mod d * (512 div d)"
proof -
  have dm: "d dvd m" using assms by (auto simp: mod_eq_0_iff_dvd intro: dvd_trans [of _ 4])
  then have "x mod m mod d = x mod d" by (rule mod_mod_cancel)
  moreover have "x mod m = x mod m div d * d + x mod m mod d" by simp
  ultimately have "x mod m * (512 div d) = (x mod m div d * d + x mod d) * (512 div d)" by metis
  also have "\<dots> = x mod m div d * (d * (512 div d)) + x mod d * (512 div d)" by (simp add: algebra_simps)
  also have "d * (512 div d) = 512" using assms(1) by auto
  finally show ?thesis by simp
qed

text \<open>The sector and the offset in it that \<open>fetch_inode\<close> computes.\<close>

definition per_sector :: "ext2fs_struct \<Rightarrow> u32" where
  "per_sector fsinfo = IO_BLOCK_SIZE div ucast (inode_size (superblock fsinfo))"

definition inode_lba :: "ext2fs_struct \<Rightarrow> u32 \<Rightarrow> u32" where
  "inode_lba fsinfo ino =
     bg_inode_table (group_descriptors fsinfo) (unat ((ino - 1) div inodes_per_group (superblock fsinfo)))
       * (block_size fsinfo div IO_BLOCK_SIZE)
     + ((ino - 1) mod inodes_per_group (superblock fsinfo)) div per_sector fsinfo"

definition inode_offset :: "ext2fs_struct \<Rightarrow> u32 \<Rightarrow> nat" where
  "inode_offset fsinfo ino = unat ((ino - 1) mod per_sector fsinfo * ucast (inode_size (superblock fsinfo)))"

lemma inode_words:
  assumes ok: "inode_ok fsinfo n ino" and n: "n < 2147483648"
  shows "per_sector fsinfo \<noteq> 0" "unat ((ino - 1) div inodes_per_group (superblock fsinfo)) = (unat ino - 1) div unat (inodes_per_group (superblock fsinfo))"
    "512 * unat (inode_lba fsinfo ino) + inode_offset fsinfo ino = inode_place fsinfo ino"
    "unat (inode_lba fsinfo ino) + 1 \<le> n" "inode_offset fsinfo ino + unat (inode_size (superblock fsinfo)) \<le> 512"
proof -
  let ?sb = "superblock fsinfo" and ?q = "per_sector fsinfo"
  let ?ipg = "unat (inodes_per_group ?sb)" and ?sz = "unat (inode_size ?sb)" and ?x = "unat ino - 1"
  let ?T = "bg_inode_table (group_descriptors fsinfo) (?x div ?ipg)" and ?bs = "unat (block_size fsinfo)"
  have sz: "?sz \<in> {128, 256, 512}" and m4: "?ipg mod 4 = 0" and bs: "?bs mod 512 = 0"
    and pl: "inode_place fsinfo ino + ?sz \<le> 512 * n" and ino: "1 \<le> ino"
    using ok by (simp_all add: inode_ok_def Let_def)
  define d where "d = 512 div ?sz"
  have d: "d \<in> {1, 2, 4}" "512 div d = ?sz" "?sz * d = 512" "0 < ?sz" using sz by (auto simp: d_def)
  have x: "unat (ino - 1) = ?x" using ino by (simp add: unat_sub word_le_nat_alt)
  have "?sz \<le> 512" using sz by auto
  then have szw: "unat (ucast (inode_size ?sb) :: u32) = ?sz"
    by (simp add: unsigned_ucast_eq take_bit_nat_eq_self)
  have q: "unat ?q = d" by (simp add: per_sector_def IO_BLOCK_SIZE_def unat_div_word szw d_def)
  then show "?q \<noteq> 0" using d(1) by auto
  show gno: "unat ((ino - 1) div inodes_per_group ?sb) = ?x div ?ipg" by (simp add: unat_div_word x)
  let ?r = "((ino - 1) mod inodes_per_group ?sb) div ?q"
  have r: "unat ?r = ?x mod ?ipg div d" by (simp add: unat_div_word unat_mod_word x q)
  have "unat ?T * ?bs = 512 * (unat ?T * (?bs div 512))"
    using bs by (metis mod_0_imp_dvd dvd_mult_div_cancel mult.left_commute)
  then have place: "inode_place fsinfo ino = 512 * (unat ?T * (?bs div 512) + unat ?r) + ?x mod d * ?sz"
    unfolding inode_place_def using inode_sector [OF d(1) m4, of ?x] by (simp add: d(2) r algebra_simps)
  have "(?x mod d + 1) * ?sz \<le> d * ?sz" using d(1) by (intro mult_right_mono) (auto simp: Suc_le_eq)
  then have off: "?x mod d * ?sz + ?sz \<le> 512" using d(3) by (simp add: algebra_simps)
  then have o': "inode_offset fsinfo ino = ?x mod d * ?sz" unfolding inode_offset_def
    by (subst unat_mult_nowrap) (simp_all add: unat_mod_word x q szw)
  with off show "inode_offset fsinfo ino + ?sz \<le> 512" by simp
  have "512 * (unat ?T * (?bs div 512) + unat ?r) < 512 * n" using pl place d(4) by linarith
  then have lim: "unat ?T * (?bs div 512) + unat ?r + 1 \<le> n" by (simp only: mult_less_cancel1) simp
  have "unat (?T * (block_size fsinfo div IO_BLOCK_SIZE)) = unat ?T * (?bs div 512)"
    using lim n by (subst unat_mult_nowrap) (simp_all add: IO_BLOCK_SIZE_def unat_div_word)
  then have "unat (inode_lba fsinfo ino) = unat ?T * (?bs div 512) + unat ?r"
    using lim n unfolding inode_lba_def gno by (subst unat_add_nowrap) simp_all
  with lim place o' show "512 * unat (inode_lba fsinfo ino) + inode_offset fsinfo ino = inode_place fsinfo ino"
    "unat (inode_lba fsinfo ino) + 1 \<le> n" by simp_all
qed

lemma fetch_inode_ok:
  assumes img: "part_image s (fs_part fsinfo) n disk" and ok: "inode_ok fsinfo n ino"
  shows "if inode_size (superblock fsinfo) = 128
    then \<exists>inode'. fetch_inode s ino fsinfo inode = ret (inode', SUCCESS) \<and>
      (\<forall>k<128. inode' k = disk (inode_place fsinfo ino + k))
    else fetch_inode s ino fsinfo inode = fail Out_Of_Bounds"
proof -
  let ?sb = "superblock fsinfo"
  let ?sz = "unat (inode_size ?sb)" and ?lba = "inode_lba fsinfo ino"
  note w = inode_words [OF ok]
  have n: "n < 2147483648" using img by (simp add: part_image_def)
  have c: "\<not> total_inodes ?sb < ino" "inodes_per_group ?sb \<noteq> 0" "inode_size ?sb \<noteq> 0" "?sz \<in> {128, 256, 512}"
    "\<not> gd_bytes fsinfo < unat ((ino - 1) div inodes_per_group ?sb) * sizeof_gd + sizeof_gd"
    using ok w(2) [OF n] by (auto simp: inode_ok_def Let_def sizeof_gd_def not_less)
  obtain buf where buf: "hdd_read s (fs_part fsinfo) 1 ?lba = (1, buf)" "\<forall>k<512. buf k = disk (512 * unat ?lba + k)"
  proof -
    have "unat ?lba + unat (1 :: u32) \<le> n" using w(4) [OF n] by simp
    then have "fst (hdd_read s (fs_part fsinfo) 1 ?lba) = 1"
      "\<forall>k<512. snd (hdd_read s (fs_part fsinfo) 1 ?lba) k = disk (512 * unat ?lba + k)"
      using img unfolding part_image_def by (metis mult.right_neutral unat_1)+
    then show ?thesis using that [of "snd (hdd_read s (fs_part fsinfo) 1 ?lba)"] by (metis prod.collapse)
  qed
  have one: "\<not> (1 :: s32) <s 0" by (simp add: word_sless_alt)
  have f: "fetch_inode s ino fsinfo inode = (if sizeof_inode < ?sz then fail Out_Of_Bounds
      else ret (\<lambda>k. if k < ?sz then buf (inode_offset fsinfo ino + k) else inode k, SUCCESS))"
    unfolding fetch_inode_def Let_def per_sector_def [symmetric] inode_lba_def [symmetric] buf(1) split inode_offset_def [symmetric]
    using c w(1) [OF n] one by simp
  show ?thesis
  proof (cases "inode_size ?sb = 128")
    case True
    then have z: "?sz = 128" by simp
    have "buf (inode_offset fsinfo ino + k) = disk (inode_place fsinfo ino + k)" if "k < 128" for k
      using buf(2) that w(3,5) [OF n] z by (simp add: algebra_simps flip: w(3) [OF n])
    then show ?thesis using f z True by (simp add: sizeof_inode_def)
  next
    case False
    then have "?sz \<noteq> 128" by (auto simp: word_unat_eq_iff)
    then show ?thesis using f c(4) False by (auto simp: sizeof_inode_def)
  qed
qed

section \<open>Loading a directory\<close>

text \<open>A directory block, as the ext2 layout defines it: records one after the other, each a multiple of 4 bytes.\<close>

record ext2_rec =
  r_ino :: u32
  r_type :: u8
  r_name :: "u8 list"
  r_len :: nat

primrec dir_layout :: "bytes \<Rightarrow> nat \<Rightarrow> ext2_rec list \<Rightarrow> nat \<Rightarrow> bool" where
  "dir_layout b pos [] stop \<longleftrightarrow> pos = stop"
| "dir_layout b pos (r # rs) stop \<longleftrightarrow>
     read_direntry b pos = \<lparr>ed_inode = r_ino r, rec_len = of_nat (r_len r), name_len = of_nat (length (r_name r)), file_type = r_type r\<rparr> \<and>
     length (r_name r) < 256 \<and> (\<forall>k<length (r_name r). b (pos + 8 + k) = r_name r ! k) \<and> 0 \<notin> set (r_name r) \<and>
     8 + length (r_name r) \<le> r_len r \<and> r_len r < 65536 \<and> r_len r mod 4 = 0 \<and> dir_layout b (pos + r_len r) rs stop"

lemma dir_layout_le: "dir_layout b pos rs stop \<Longrightarrow> pos \<le> stop"
  by (induction rs arbitrary: pos) fastforce+

lemma read_direntry_cong:
  assumes "\<And>k. k < 8 \<Longrightarrow> b (i + k) = b' (i + k)"
  shows "read_direntry b i = read_direntry b' i"
proof -
  have five: "i + 4 + 1 = i + 5" by simp
  have "b i = b' i" using assms [of 0] by simp
  moreover have "b (i + 1) = b' (i + 1)" "b (i + 2) = b' (i + 2)" "b (i + 3) = b' (i + 3)" "b (i + 4) = b' (i + 4)"
    "b (i + 5) = b' (i + 5)" "b (i + 6) = b' (i + 6)" "b (i + 7) = b' (i + 7)"
    by (rule assms, simp)+
  ultimately show ?thesis unfolding read_direntry_def buf32_def buf16_def five by simp
qed

lemma dir_layout_cong:
  "dir_layout b pos rs stop \<Longrightarrow> (\<And>k. k < stop \<Longrightarrow> b k = b' k) \<Longrightarrow> dir_layout b' pos rs stop"
proof (induction rs arbitrary: pos)
  case (Cons r rs)
  have le: "pos + r_len r \<le> stop" "8 + length (r_name r) \<le> r_len r" using Cons.prems(1) dir_layout_le by auto
  then have "read_direntry b pos = read_direntry b' pos" using Cons.prems(2) by (intro read_direntry_cong) simp
  moreover have "b (pos + 8 + k) = b' (pos + 8 + k)" if "k < length (r_name r)" for k using that le Cons.prems(2) by simp
  ultimately show ?case using Cons by simp
qed simp

text \<open>
  A directory being loaded: its file system \<open>fsinfo\<close> is mounted as \<open>mnt\<close> on a partition with the bytes \<open>disk\<close>,
  and the memory to come holds null payloads.
\<close>

definition loading :: "addr \<Rightarrow> addr \<Rightarrow> ext2fs_struct \<Rightarrow> nat \<Rightarrow> (nat \<Rightarrow> u8) \<Rightarrow> dir_struct \<Rightarrow> ext2_state \<Rightarrow> bool" where
  "loading dir mnt fsinfo n disk d s \<longleftrightarrow>
     mnt \<noteq> 0 \<and> dirs s dir = d \<and> d_fs_info d = mnt \<and> e_mounts s mnt = fsinfo \<and> inode_size (superblock fsinfo) = 128 \<and>
     part_image s (fs_part fsinfo) n disk \<and>
     (\<forall>(a, raw)\<in>set (e_heap s). buf32 raw payload_offset = 0 \<and> a \<noteq> dir)"

definition inode_at :: "ext2fs_struct \<Rightarrow> (nat \<Rightarrow> u8) \<Rightarrow> u32 \<Rightarrow> bytes" where
  "inode_at fsinfo disk ino k = disk (inode_place fsinfo ino + k)"

definition with_inode :: "bytes \<Rightarrow> direntry_struct \<Rightarrow> direntry_struct" where
  "with_inode inode de = de\<lparr>de_mode := i_mode inode, de_type := ucast (i_mode inode) AND 0xf000,
     de_size := i_size inode, de_blocks := i_blocks inode\<rparr>"

lemma inode_fields:
  assumes "\<forall>k<128. inode k = inode' k"
  shows "i_mode inode = i_mode inode'" "i_size inode = i_size inode'" "i_blocks inode = i_blocks inode'"
    "i_block inode 0 = i_block inode' 0"
  using assms by (simp_all add: i_mode_def i_size_def i_blocks_def i_block_def buf16_def buf32_def)

lemma get_inode_ok:
  assumes "part_image s (fs_part fsinfo) n disk" "e_mounts s mnt = fsinfo" "inode_size (superblock fsinfo) = 128"
    "inode_ok fsinfo n ino" "payload = None \<longrightarrow> e_heap s \<noteq> []"
  shows "\<exists>inode. direntry_get_inode ino mnt payload s =
      ret (Some inode, s\<lparr>e_heap := drop (if payload = None then 1 else 0) (e_heap s)\<rparr>) \<and>
    (\<forall>k<128. inode k = inode_at fsinfo disk ino k)"
proof -
  have b: "part_image (s\<lparr>e_heap := h\<rparr>) (fs_part fsinfo) n disk" for h
    using assms(1) by (simp add: part_image_def hdd_read_def)
  have f: "\<exists>inode'. fetch_inode (s\<lparr>e_heap := h\<rparr>) ino fsinfo inode = ret (inode', SUCCESS) \<and>
      (\<forall>k<128. inode' k = inode_at fsinfo disk ino k)" for h inode
    using fetch_inode_ok [OF b assms(4), of h inode] assms(3) by (simp add: inode_at_def)
  have h: "s = s\<lparr>e_heap := e_heap s\<rparr>" by simp
  show ?thesis
  proof (cases payload)
    case None
    then obtain a raw rest where "e_heap s = (a, raw) # rest" using assms(5) by (cases "e_heap s") auto
    with None f [of rest raw] assms(2) show ?thesis by (auto simp: direntry_get_inode_def alloc_def)
  next
    case (Some old)
    with f [of "e_heap s" old] assms(2) show ?thesis by (auto simp: direntry_get_inode_def)
  qed
qed

lemma enter_ok:
  assumes l: "loading dir mnt fsinfo n disk d s" and de: "de_parent de = dir" "inode_ok fsinfo n (de_inode_no de)"
    and h: "payload = None \<longrightarrow> e_heap s \<noteq> []"
  shows "\<exists>s'. enter de payload owner s = ret (with_inode (inode_at fsinfo disk (de_inode_no de)) de, s') \<and>
    loading dir mnt fsinfo n disk d s' \<and> dirs s' = dirs s \<and> e_heap s' = drop (if payload = None then 1 else 0) (e_heap s)"
proof -
  have p: "part_image s (fs_part fsinfo) n disk" "e_mounts s mnt = fsinfo" "inode_size (superblock fsinfo) = 128"
    "d_fs_info (dirs s (de_parent de)) = mnt" "mnt \<noteq> 0" using l de(1) by (simp_all add: loading_def)
  from get_inode_ok [OF p(1-3) de(2) h] obtain inode where i:
    "direntry_get_inode (de_inode_no de) mnt payload s = ret (Some inode, s\<lparr>e_heap := drop (if payload = None then 1 else 0) (e_heap s)\<rparr>)"
    "\<forall>k<128. inode k = inode_at fsinfo disk (de_inode_no de) k" by blast
  have w: "with_inode inode de = with_inode (inode_at fsinfo disk (de_inode_no de)) de"
    using inode_fields [OF i(2)] by (simp add: with_inode_def)
  have u: "loading dir mnt fsinfo n disk d (s\<lparr>e_heap := drop k (e_heap s)\<rparr>)"
    "loading dir mnt fsinfo n disk d (s\<lparr>e_heap := drop k (e_heap s), e_payload := pl\<rparr>)" for k pl
    using l by (auto simp: loading_def part_image_def hdd_read_def dest!: in_set_dropD)
  show ?thesis using i(1) p(4,5) w u
    by (cases owner) (auto simp: enter_def get_direntry_def with_inode_def)
qed

text \<open>What an entry of the directory is after loading: the name and number of its record, the data of its inode.\<close>

definition describes :: "ext2fs_struct \<Rightarrow> (nat \<Rightarrow> u8) \<Rightarrow> addr \<Rightarrow> dir_struct \<Rightarrow> ext2_rec \<Rightarrow> direntry_struct \<Rightarrow> bool" where
  "describes fsinfo disk dir d r e \<longleftrightarrow> (let inode = inode_at fsinfo disk (r_ino r) in
     de_name e = map (\<lambda>c. char_of (unat c)) (r_name r) \<and> de_inode_no e = r_ino r \<and> de_parent e = dir \<and>
     de_mode e = i_mode inode \<and> de_type e = ucast (i_mode inode) AND 0xf000 \<and>
     de_size e = i_size inode \<and> de_blocks e = i_blocks inode \<and>
     (r_type r \<noteq> 2 \<longrightarrow> directory e = 0) \<and> (r_type r = 2 \<longrightarrow> r_ino r = d_inode_no d \<longrightarrow> directory e = dir))"

lemma char_of_nonzero: "c \<noteq> 0 \<Longrightarrow> char_of (unat (c :: u8)) \<noteq> CHR 0x00"
proof
  assume "c \<noteq> 0" "char_of (unat c) = CHR 0x00"
  then have "of_char (char_of (unat c) :: char) = (of_char (CHR 0x00) :: nat)" by simp
  moreover have "unat c < 256" by simp
  ultimately have "unat c = 0" by simp
  with \<open>c \<noteq> 0\<close> show False by (simp add: unat_eq_zero)
qed

lemma entry_name_layout:
  assumes "\<forall>k<length nm. b (i + k) = nm ! k" "0 \<notin> set nm"
  shows "entry_name b i (length nm) = map (\<lambda>c. char_of (unat c)) nm"
proof -
  have m: "map (\<lambda>k. char_of (unat (b (i + k)))) [0..<length nm] = map (\<lambda>c. char_of (unat c)) nm"
    using assms(1) by (intro nth_equalityI) auto
  have "\<forall>c\<in>set (map (\<lambda>c. char_of (unat c)) nm). c \<noteq> CHR 0x00" using assms(2) by auto (metis char_of_nonzero)
  then show ?thesis unfolding entry_name_def m by (simp add: takeWhile_eq_all_conv)
qed

lemma new_entry_ok:
  assumes l: "loading dir mnt fsinfo n disk d s" and lay: "dir_layout b i (r # rs) stop"
    and ok: "inode_ok fsinfo n (r_ino r)" and h: "3 \<le> length (e_heap s)"
  shows "\<exists>e s'. new_entry dir b (read_direntry b i) i s = ret (e, s') \<and> describes fsinfo disk dir d r e \<and>
    loading dir mnt fsinfo n disk d s' \<and> length (e_heap s) \<le> length (e_heap s') + 3"
proof -
  obtain a raw h1 where h1: "e_heap s = (a, raw) # h1" "2 \<le> length h1" using h by (cases "e_heap s") auto
  obtain a2 raw2 h2 where h2: "h1 = (a2, raw2) # h2" "1 \<le> length h2" using h1(2) by (cases h1) auto
  have "h2 \<noteq> []" using h2(2) by auto
  define s1 where "s1 = s\<lparr>e_heap := h1\<rparr>"
  have al: "alloc s = ret ((a, raw), s1)" "alloc s1 = ret ((a2, raw2), s\<lparr>e_heap := h2\<rparr>)"
    using h1 h2 by (simp_all add: alloc_def s1_def)
  have raw: "buf32 raw payload_offset = 0" "a2 \<noteq> dir" using l h1 h2 by (auto simp: loading_def)
  have l1: "loading dir mnt fsinfo n disk d s1" using l h1 by (auto simp: s1_def loading_def part_image_def hdd_read_def)
  have l2: "loading dir mnt fsinfo n disk d (new_dir dir ino a2 (s\<lparr>e_heap := h2\<rparr>))" for ino
    using l h1 h2 raw(2) by (auto simp: new_dir_def loading_def part_image_def hdd_read_def)
  have rd: "read_direntry b i = \<lparr>ed_inode = r_ino r, rec_len = of_nat (r_len r), name_len = of_nat (length (r_name r)), file_type = r_type r\<rparr>"
    and nm: "entry_name b (i + 8) (unat (of_nat (length (r_name r)) :: u8)) = map (\<lambda>c. char_of (unat c)) (r_name r)"
    using lay entry_name_layout [of "r_name r" b "i + 8"] by (simp_all add: unat_of_nat)
  let ?e = "fresh_entry dir b (read_direntry b i) i raw" and ?par = "d_parent (dirs s1 dir)"
  have e: "de_name ?e = map (\<lambda>c. char_of (unat c)) (r_name r)" "de_parent ?e = dir" "de_inode_no ?e = r_ino r" "directory ?e = 0"
    by (simp_all add: fresh_entry_def rd nm)
  have d: "dirs s1 dir = d" using l1 by (simp add: loading_def)
  have D: "describes fsinfo disk dir d r (with_inode (inode_at fsinfo disk (r_ino r)) (?e\<lparr>directory := x\<rparr>))"
    if "r_type r = 2" "r_ino r = d_inode_no d \<longrightarrow> x = dir" for x
    using e that by (simp add: describes_def with_inode_def)
  have hne: "e_heap s1 \<noteq> []" "length (e_heap s) \<le> length (drop k (e_heap s1)) + 3" if "k \<le> 1" for k
    using h1 h2 that by (auto simp: s1_def)
  have E: "\<exists>s'. enter (?e\<lparr>directory := x\<rparr>) p owner s1 = ret (with_inode (inode_at fsinfo disk (r_ino r)) (?e\<lparr>directory := x\<rparr>), s') \<and>
      loading dir mnt fsinfo n disk d s' \<and> length (e_heap s) \<le> length (e_heap s') + 3" for x p owner
    using enter_ok [OF l1, of "?e\<lparr>directory := x\<rparr>" p owner] e ok hne [of 0] hne [of 1] by (auto split: if_splits)
  have E2: "\<exists>s'. enter (?e\<lparr>directory := x\<rparr>) None owner (new_dir dir ino a2 (s\<lparr>e_heap := h2\<rparr>)) =
      ret (with_inode (inode_at fsinfo disk (r_ino r)) (?e\<lparr>directory := x\<rparr>), s') \<and>
      loading dir mnt fsinfo n disk d s' \<and> length (e_heap s) \<le> length (e_heap s') + 3" for x ino owner
    using enter_ok [OF l2 [of ino], of "?e\<lparr>directory := x\<rparr>" None owner] e ok h1 h2 \<open>h2 \<noteq> []\<close> by (auto simp: new_dir_def)
  consider "r_type r = 2" "r_ino r = d_inode_no d" | "r_type r = 2" "r_ino r \<noteq> d_inode_no d" "r_ino r = d_inode_no (dirs s1 ?par)"
    | "r_type r = 2" "r_ino r \<noteq> d_inode_no d" "r_ino r \<noteq> d_inode_no (dirs s1 ?par)" | "r_type r \<noteq> 2" by blast
  then show ?thesis
  proof cases
    case 1
    then show ?thesis using E [of dir] D [of dir] d by (fastforce simp: new_entry_def al Let_def rd)
  next
    case 2
    then show ?thesis using E [of ?par] D [of ?par] d by (fastforce simp: new_entry_def al Let_def rd)
  next
    case 3
    then show ?thesis using E2 [of a2] D [of a2] d raw by (fastforce simp: new_entry_def al Let_def rd)
  next
    case 4
    have "?e\<lparr>directory := 0\<rparr> = ?e" using e(4) by simp
    moreover have "describes fsinfo disk dir d r (with_inode (inode_at fsinfo disk (r_ino r)) ?e)"
      using e 4 by (simp add: describes_def with_inode_def)
    ultimately show ?thesis using 4 E [of 0 None None] raw by (fastforce simp: new_entry_def al Let_def rd)
  qed
qed

text \<open>
  The loop over a directory block, for an invariant \<open>J\<close> of the records read, the entries made and the state that
  every turn keeps.
\<close>

lemma entry_loop_inv:
  assumes step: "\<And>r ds es pos rest s. J ds es s \<Longrightarrow> P r \<Longrightarrow> dir_layout b pos (r # rest) (unat bsize) \<Longrightarrow> 3 \<le> length (e_heap s) \<Longrightarrow>
      \<exists>e s'. new_entry dir b (read_direntry b pos) pos s = ret (e, s') \<and> J (ds @ [r]) (es @ [e]) s' \<and> length (e_heap s) \<le> length (e_heap s') + 3"
    and "J ds es s" "\<forall>r\<in>set rs. P r" "dir_layout b pos rs (unat bsize)" "pos mod 4 = 0" "3 * length rs \<le> length (e_heap s)"
  shows "\<exists>es' s'. entry_loop bsize dir b (of_nat pos) es s = ret (es', s') \<and> J (ds @ rs) es' s' \<and>
    length (e_heap s) \<le> length (e_heap s') + 3 * length rs"
  using assms(2-)
proof (induction rs arbitrary: pos ds es s)
  case Nil
  then show ?case by (subst entry_loop.simps) auto
next
  case (Cons r rs)
  have rd: "read_direntry b pos = \<lparr>ed_inode = r_ino r, rec_len = of_nat (r_len r), name_len = of_nat (length (r_name r)), file_type = r_type r\<rparr>"
    and len: "8 + length (r_name r) \<le> r_len r" "length (r_name r) < 256" "r_len r < 65536" "r_len r mod 4 = 0"
    and rest: "dir_layout b (pos + r_len r) rs (unat bsize)" using Cons.prems(3) by simp_all
  from rest have le: "pos + r_len r \<le> unat bsize" by (rule dir_layout_le)
  then have pos: "pos + r_len r < 4294967296" using unat_u32_lt [of bsize] by linarith
  have p: "unat (of_nat pos :: u32) = pos" using pos by simp
  have nl: "unat (of_nat (length (r_name r)) :: u8) = length (r_name r)" using len(2) by (simp add: unat_of_nat)
  have "\<not> bsize \<le> of_nat pos" using le len(1) p by (simp add: word_le_nat_alt)
  moreover have "\<not> unat bsize < pos + 8" "\<not> unat bsize < pos + 8 + length (r_name r)" using le len(1) by simp_all
  moreover have "(ucast (of_nat (r_len r) :: u16) :: u32) = of_nat (r_len r)"
    using len(3) by (simp add: word_unat_eq_iff unsigned_ucast_eq unat_of_nat take_bit_nat_eq_self)
  moreover have "(of_nat pos + of_nat (r_len r) :: u32) mod 4 = 0"
  proof -
    have "unat (of_nat (pos + r_len r) :: u32) mod 4 = 0" using pos Cons.prems(4) len(4) by (simp only: unat_of_nat_u32) presburger
    then have "unat (of_nat (pos + r_len r) mod 4 :: u32) = 0" by (simp only: unat_mod_word) simp
    then show ?thesis by (simp add: unat_eq_zero)
  qed
  ultimately have turn: "entry_loop bsize dir b (of_nat pos) es s =
      bindX (new_entry dir b (read_direntry b pos) pos s) (\<lambda>x. entry_loop bsize dir b (of_nat (pos + r_len r)) (es @ [fst x]) (snd x))"
    using nl by (subst entry_loop.simps) (simp add: p rd Let_def)
  from step [OF Cons.prems(1) _ Cons.prems(3)] Cons.prems(2,5) obtain e s1 where
    e: "new_entry dir b (read_direntry b pos) pos s = ret (e, s1)" "J (ds @ [r]) (es @ [e]) s1"
    "length (e_heap s) \<le> length (e_heap s1) + 3" by auto
  have "(pos + r_len r) mod 4 = 0" using Cons.prems(4) len(4) by presburger
  with Cons.IH [OF e(2) _ rest] Cons.prems(2,5) e(3) obtain es' s' where
    "entry_loop bsize dir b (of_nat (pos + r_len r)) (es @ [e]) s1 = ret (es', s')" "J ((ds @ [r]) @ rs) es' s'"
    "length (e_heap s1) \<le> length (e_heap s') + 3 * length rs" by auto
  then show ?case using e turn by (intro exI [of _ es'] exI [of _ s']) simp
qed

lemma entry_loop_ok:
  assumes "loading dir mnt fsinfo n disk d s" "dir_layout b 0 rs (unat bsize)"
    "\<forall>r\<in>set rs. inode_ok fsinfo n (r_ino r)" "3 * length rs \<le> length (e_heap s)"
  shows "\<exists>es s'. entry_loop bsize dir b 0 [] s = ret (es, s') \<and>
    list_all2 (describes fsinfo disk dir d) rs es \<and> loading dir mnt fsinfo n disk d s'"
proof -
  define J where "J ds es s \<longleftrightarrow> list_all2 (describes fsinfo disk dir d) ds es \<and> loading dir mnt fsinfo n disk d s" for ds es s
  have step: "\<exists>e s'. new_entry dir b (read_direntry b pos) pos s = ret (e, s') \<and> J (ds @ [r]) (es @ [e]) s' \<and> length (e_heap s) \<le> length (e_heap s') + 3"
    if "J ds es s" "inode_ok fsinfo n (r_ino r)" "dir_layout b pos (r # rest) (unat bsize)" "3 \<le> length (e_heap s)" for r ds es pos rest s
    using new_entry_ok [OF _ that(3,2,4), where mnt = mnt and disk = disk and d = d] that(1) by (fastforce simp: J_def intro: list_all2_appendI)
  have "\<exists>es' s'. entry_loop bsize dir b (of_nat 0) [] s = ret (es', s') \<and> J ([] @ rs) es' s' \<and> length (e_heap s) \<le> length (e_heap s') + 3 * length rs"
    by (rule entry_loop_inv [where J = J and P = "\<lambda>r. inode_ok fsinfo n (r_ino r)"], rule step, assumption+)
      (use assms in \<open>simp_all add: J_def\<close>)
  then show ?thesis by (auto simp: J_def)
qed

text \<open>Before the loop, the inode of the directory and its first block are read.\<close>

lemma get_direntries_reads:
  assumes "loading dir mnt fsinfo n disk (dirs s dir) s" "dir \<noteq> 0" "entries (dirs s dir) = []"
    and "d_fs_info (dirs s (d_parent (dirs s dir))) = mnt"
    and "inode_ok fsinfo n (d_inode_no (dirs s dir))"
    and "block_size fsinfo \<noteq> 0" "unat (block_size fsinfo) mod 512 = 0"
    and "first = unat (i_block (inode_at fsinfo disk (d_inode_no (dirs s dir))) 0) * unat (block_size fsinfo)"
    and "first + unat (block_size fsinfo) \<le> 512 * n"
    and "dir_layout (\<lambda>k. disk (first + k)) 0 rs (unat (block_size fsinfo))"
    and "e_heap s \<noteq> []"
  obtains k inode b where "k \<le> 1" "dir_layout b 0 rs (unat (block_size fsinfo))"
    "\<And>es s'. entry_loop (block_size fsinfo) dir b 0 [] (s\<lparr>e_heap := drop k (e_heap s), e_payload := (e_payload s)(dir := Some inode)\<rparr>) = ret (es, s') \<Longrightarrow>
      ext2_get_direntries dir s = ret (s'\<lparr>dirs := (dirs s')(dir := (dirs s' dir)\<lparr>entries := es\<rparr>)\<rparr>, SUCCESS)"
proof -
  let ?d = "dirs s dir" and ?bs = "block_size fsinfo"
  let ?pb = "?bs div IO_BLOCK_SIZE"
  note l = assms(1) [unfolded loading_def]
  have pb: "unat ?pb = unat ?bs div 512" by (simp add: IO_BLOCK_SIZE_def unat_div_word)
  have bs: "unat ?bs = 512 * (unat ?bs div 512)" using assms(7) by (simp add: mod_0_imp_dvd)
  let ?k = "if e_payload s dir = None then 1 else 0 :: nat"
  from get_inode_ok [of s fsinfo n disk mnt "d_inode_no ?d" "e_payload s dir"] l assms(5,11) obtain inode where
    i: "direntry_get_inode (d_inode_no ?d) mnt (e_payload s dir) s = ret (Some inode, s\<lparr>e_heap := drop ?k (e_heap s)\<rparr>)"
    "\<forall>k<128. inode k = inode_at fsinfo disk (d_inode_no ?d) k" by fastforce
  let ?blk = "i_block inode 0"
  have first: "first = unat ?blk * unat ?bs" using assms(8) inode_fields(4) [OF i(2)] by simp
  define s1 where "s1 = s\<lparr>e_heap := drop ?k (e_heap s), e_payload := (e_payload s)(dir := Some inode)\<rparr>"
  have n: "n < 2147483648" using l by (simp add: part_image_def)
  have f512: "first = 512 * (unat ?blk * (unat ?bs div 512))" unfolding first by (subst (1) bs) (simp only: mult.left_commute)
  have "512 * (unat ?blk * (unat ?bs div 512) + unat ?bs div 512) \<le> 512 * n"
    using assms(9) by (simp only: distrib_left flip: f512 bs)
  then have lim: "unat ?blk * (unat ?bs div 512) + unat ?bs div 512 \<le> n" by simp
  then have lba: "unat (?blk * ?pb) = unat ?blk * (unat ?bs div 512)" using n by (subst unat_mult_nowrap) (simp_all add: pb)
  have img: "part_image s1 (fs_part fsinfo) n disk" using l by (simp add: s1_def part_image_def hdd_read_def)
  have "unat (?blk * ?pb) + unat ?pb \<le> n" using lim lba pb by simp
  then have rd: "fst (hdd_read s1 (fs_part fsinfo) ?pb (?blk * ?pb)) = ?pb"
    "\<forall>k<unat ?bs. snd (hdd_read s1 (fs_part fsinfo) ?pb (?blk * ?pb)) k = disk (first + k)"
    using img bs f512 unfolding part_image_def by (metis lba pb)+
  define b where "b = snd (hdd_read s1 (fs_part fsinfo) ?pb (?blk * ?pb))"
  have lay: "dir_layout b 0 rs (unat ?bs)"
    using dir_layout_cong [OF assms(10), of b] rd(2) by (simp add: b_def)
  have pos: "\<not> ?pb <s 0" using lim n pb by (intro nonneg_small) linarith
  have "hdd_read s1 (fs_part fsinfo) ?pb (?blk * ?pb) = (?pb, b)" using rd(1) by (simp add: b_def prod_eq_iff)
  then have "ext2_get_direntries dir s = ret (s'\<lparr>dirs := (dirs s')(dir := (dirs s' dir)\<lparr>entries := es\<rparr>)\<rparr>, SUCCESS)"
    if "entry_loop ?bs dir b 0 [] s1 = ret (es, s')" for es s'
    using l assms(2-4,6) i(1) that pos unfolding ext2_get_direntries_def Let_def by (simp add: s1_def [symmetric])
  then show thesis using that [of ?k b inode] lay by (simp add: s1_def)
qed

lemma get_direntries_ok:
  assumes "loading dir mnt fsinfo n disk (dirs s dir) s" "dir \<noteq> 0" "entries (dirs s dir) = []"
    and "d_fs_info (dirs s (d_parent (dirs s dir))) = mnt"
    and "inode_ok fsinfo n (d_inode_no (dirs s dir))" "\<forall>r\<in>set rs. inode_ok fsinfo n (r_ino r)"
    and "block_size fsinfo \<noteq> 0" "unat (block_size fsinfo) mod 512 = 0"
    and "first = unat (i_block (inode_at fsinfo disk (d_inode_no (dirs s dir))) 0) * unat (block_size fsinfo)"
    and "first + unat (block_size fsinfo) \<le> 512 * n"
    and "dir_layout (\<lambda>k. disk (first + k)) 0 rs (unat (block_size fsinfo))"
    and "1 + 3 * length rs \<le> length (e_heap s)"
  shows "\<exists>s'. ext2_get_direntries dir s = ret (s', SUCCESS) \<and>
    list_all2 (describes fsinfo disk dir (dirs s dir)) rs (entries (dirs s' dir))"
proof -
  have "e_heap s \<noteq> []" using assms(12) by auto
  with assms obtain k inode b where r: "k \<le> 1" "dir_layout b 0 rs (unat (block_size fsinfo))"
    "\<And>es s'. entry_loop (block_size fsinfo) dir b 0 [] (s\<lparr>e_heap := drop k (e_heap s), e_payload := (e_payload s)(dir := Some inode)\<rparr>) = ret (es, s') \<Longrightarrow>
      ext2_get_direntries dir s = ret (s'\<lparr>dirs := (dirs s')(dir := (dirs s' dir)\<lparr>entries := es\<rparr>)\<rparr>, SUCCESS)"
    using get_direntries_reads [of dir mnt fsinfo n disk s first rs] by metis
  let ?s = "s\<lparr>e_heap := drop k (e_heap s), e_payload := (e_payload s)(dir := Some inode)\<rparr>"
  have "loading dir mnt fsinfo n disk (dirs s dir) ?s"
    using assms(1) by (auto simp: loading_def part_image_def hdd_read_def dest!: in_set_dropD)
  moreover have "3 * length rs \<le> length (e_heap ?s)" using assms(12) r(1) by simp
  ultimately show ?thesis using entry_loop_ok [OF _ r(2) assms(6)] r(3) by fastforce
qed

section \<open>Results\<close>

text \<open>
  C8: Fetching an inode. For an inode number in range, on a partition whose sectors can be read,
  \<open>fetch_inode\<close> of inodes of 128 bytes copies exactly the bytes at the place the ext2 layout gives them: the inode
  table of the group, plus the index in the group times the inode size. Inodes of 256 or 512 bytes, which
  current tools create, are copied over the end of the 128-byte structure.
\<close>

theorem fetch_inode_spec:
  assumes "part_image s (fs_part fsinfo) n disk" "inode_ok fsinfo n ino"
  shows "if inode_size (superblock fsinfo) = 128
    then \<exists>inode'. fetch_inode s ino fsinfo inode = ret (inode', SUCCESS) \<and>
      (\<forall>k<128. inode' k = disk (inode_place fsinfo ino + k))
    else fetch_inode s ino fsinfo inode = fail Out_Of_Bounds"
  using assms by (rule fetch_inode_ok)

text \<open>A file system of 32 blocks of 1024 bytes with its inode table in block 5 and the root directory in block 10.\<close>

definition sample_image :: "nat \<Rightarrow> u8" where
  "sample_image = (\<lambda>_. 0)(5288 := 10,
     10240 := 2, 10244 := 12, 10246 := 1, 10247 := 2, 10248 := 46,
     10252 := 2, 10256 := 12, 10258 := 2, 10259 := 2, 10260 := 46, 10261 := 46,
     10264 := 12, 10268 := 232, 10269 := 3, 10270 := 1, 10271 := 1, 10272 := 97)"

definition sample_fs :: ext2fs_struct where
  "sample_fs = \<lparr>superblock = \<lparr>total_inodes = 16, total_blocks = 32, block_size_log = 0, blocks_per_group = 8192,
       inodes_per_group = 16, signature = 0xef53, inode_size = 128\<rparr>,
     fs_part = \<lparr>sect_offset = 0, sect_count = 64, fs_type = 0x83, hd_bd = 0x5000\<rparr>, block_size = 1024, gd_count = 1,
     group_descriptors = (\<lambda>_. 0)(8 := 5), gd_bytes = 512\<rparr>"

definition sample_ext2 :: ext2_state where
  "sample_ext2 = \<lparr>root_dir = 0x100, root_direntry = undefined,
     dirs = (\<lambda>_. \<lparr>d_inode_no = 2, d_fs_info = 0x200, d_mnt_point = 0x100, d_parent = 0x100, entries = []\<rparr>),
     e_bds = (\<lambda>_. (one_entry_disk 0)\<lparr>bd_read := \<lambda>c lba. (c, \<lambda>k. sample_image (512 * unat lba + k))\<rparr>),
     e_mounts = (\<lambda>_. sample_fs), e_payload = (\<lambda>_. None),
     e_heap = map (\<lambda>k. (0x1000 + of_nat k, \<lambda>_. 0)) [0..<10], e_freed = []\<rparr>"

lemma sample_part_image: "part_image sample_ext2 (fs_part sample_fs) 64 sample_image"
  by (simp add: part_image_def hdd_read_def sample_ext2_def sample_fs_def)

lemma bg_sample: "bg_inode_table (group_descriptors sample_fs) 0 = 5"
  by (simp add: bg_inode_table_def sizeof_gd_def sample_fs_def buf32_def)

lemma sample_inode_place: "1 \<le> ino \<Longrightarrow> ino \<le> 16 \<Longrightarrow> inode_place sample_fs ino = 5120 + (unat ino - 1) * 128"
proof -
  assume "1 \<le> ino" "ino \<le> 16"
  then have "unat ino - 1 < 16" by (simp add: word_le_nat_alt)
  then show ?thesis using bg_sample by (simp add: inode_place_def) (simp add: sample_fs_def)
qed

lemma sample_inode_ok: "1 \<le> ino \<Longrightarrow> ino \<le> 16 \<Longrightarrow> inode_ok sample_fs 64 ino"
proof -
  assume i: "1 \<le> ino" "ino \<le> 16"
  then have "unat ino - 1 < 16" by (simp add: word_le_nat_alt)
  then show ?thesis using i sample_inode_place [OF i] by (simp add: inode_ok_def Let_def) (simp add: sample_fs_def)
qed

theorem fetch_inode_spec_witness:
  "\<exists>inode'. fetch_inode sample_ext2 2 sample_fs (\<lambda>_. 0) = ret (inode', SUCCESS) \<and> inode' 40 = 10"
proof -
  have "inode_size (superblock sample_fs) = 128" by (simp add: sample_fs_def)
  then obtain inode' where "fetch_inode sample_ext2 2 sample_fs (\<lambda>_. 0) = ret (inode', SUCCESS)"
    "\<forall>k<128. inode' k = sample_image (inode_place sample_fs 2 + k)"
    using fetch_inode_spec [OF sample_part_image sample_inode_ok [of 2], of "\<lambda>_. 0"] by auto
  moreover have "inode_place sample_fs 2 = 5248" using sample_inode_place [of 2] by simp
  ultimately show ?thesis by (simp add: sample_image_def)
qed

text \<open>
  C9: Loading a directory. For an empty directory of a mounted file system with 128-byte inodes whose
  first block holds well-formed records \<open>rs\<close>, with every inode in range and enough cleared heap memory,
  \<open>ext2_get_direntries\<close> returns success and the directory has one entry per record, in order, with the name and
  number of the record and the mode, type, size and block count of its inode.
\<close>

theorem ext2_get_direntries_spec:
  assumes "loading dir mnt fsinfo n disk (dirs s dir) s" "dir \<noteq> 0" "entries (dirs s dir) = []"
    and "d_fs_info (dirs s (d_parent (dirs s dir))) = mnt"
    and "inode_ok fsinfo n (d_inode_no (dirs s dir))" "\<forall>r\<in>set rs. inode_ok fsinfo n (r_ino r)"
    and "block_size fsinfo \<noteq> 0" "unat (block_size fsinfo) mod 512 = 0"
    and "first = unat (i_block (inode_at fsinfo disk (d_inode_no (dirs s dir))) 0) * unat (block_size fsinfo)"
    and "first + unat (block_size fsinfo) \<le> 512 * n"
    and "dir_layout (\<lambda>k. disk (first + k)) 0 rs (unat (block_size fsinfo))"
    and "1 + 3 * length rs \<le> length (e_heap s)"
  shows "\<exists>s'. ext2_get_direntries dir s = ret (s', SUCCESS) \<and>
    list_all2 (describes fsinfo disk dir (dirs s dir)) rs (entries (dirs s' dir))"
  using assms by (rule get_direntries_ok)

definition sample_recs :: "ext2_rec list" where
  "sample_recs = [\<lparr>r_ino = 2, r_type = 2, r_name = [46], r_len = 12\<rparr>, \<lparr>r_ino = 2, r_type = 2, r_name = [46, 46], r_len = 12\<rparr>,
     \<lparr>r_ino = 12, r_type = 1, r_name = [97], r_len = 1000\<rparr>]"

lemma sample_heap: "\<forall>(a, raw)\<in>set (e_heap sample_ext2). buf32 raw payload_offset = 0 \<and> a \<noteq> 0x100"
proof -
  have "unat (0x1000 + of_nat k :: u32) = 0x1000 + k" if "k < 10" for k using that by (subst unat_add_nowrap) simp_all
  then have "(0x1000 + of_nat k :: u32) \<noteq> 0x100" if "k < 10" for k using that by (auto simp: word_unat_eq_iff)
  then show ?thesis by (auto simp: sample_ext2_def buf32_def)
qed

theorem ext2_get_direntries_spec_witness:
  "\<exists>s'. ext2_get_direntries 0x100 sample_ext2 = ret (s', SUCCESS) \<and>
    map de_name (entries (dirs s' 0x100)) = [''.'', ''..'', ''a'']"
proof -
  have d: "d_inode_no (dirs sample_ext2 0x100) = 2" "entries (dirs sample_ext2 0x100) = []"
    "d_fs_info (dirs sample_ext2 (d_parent (dirs sample_ext2 0x100))) = 0x200" "block_size sample_fs = 1024"
    by (simp_all add: sample_ext2_def sample_fs_def)
  have l: "loading 0x100 0x200 sample_fs 64 sample_image (dirs sample_ext2 0x100) sample_ext2"
    using sample_part_image sample_heap by (simp add: loading_def d) (simp add: sample_ext2_def sample_fs_def)
  have place: "inode_place sample_fs 2 = 5248" using sample_inode_place [of 2] by simp
  have first: "10240 = unat (i_block (inode_at sample_fs sample_image (d_inode_no (dirs sample_ext2 0x100))) 0) * unat (block_size sample_fs)"
    unfolding d by (simp add: i_block_def inode_at_def buf32_def place sample_image_def)
  have lay: "dir_layout (\<lambda>k. sample_image (10240 + k)) 0 sample_recs (unat (block_size sample_fs))"
    unfolding d by (simp add: sample_recs_def sample_image_def read_direntry_def buf32_def buf16_def less_Suc_eq)
  have recs: "\<forall>r\<in>set sample_recs. inode_ok sample_fs 64 (r_ino r)" by (simp add: sample_recs_def sample_inode_ok)
  have "1 + 3 * length sample_recs \<le> length (e_heap sample_ext2)" by (simp add: sample_recs_def sample_ext2_def)
  from ext2_get_direntries_spec [OF l _ d(2,3) _ recs _ _ first _ lay this] obtain s' where
    s': "ext2_get_direntries 0x100 sample_ext2 = ret (s', SUCCESS)"
    "list_all2 (describes sample_fs sample_image 0x100 (dirs sample_ext2 0x100)) sample_recs (entries (dirs s' 0x100))"
    using sample_inode_ok [of 2] by (auto simp: d)
  have "list_all2 (\<lambda>r e. de_name e = map (\<lambda>c. char_of (unat c)) (r_name r)) sample_recs (entries (dirs s' 0x100))"
    using s'(2) by (rule list_all2_mono) (simp add: describes_def Let_def)
  then have "map de_name (entries (dirs s' 0x100)) = map (\<lambda>r. map (\<lambda>c. char_of (unat c)) (r_name r)) sample_recs"
    by (simp add: list_all2_conv_all_nth list_eq_iff_nth_eq)
  also have "\<dots> = [''.'', ''..'', ''a'']"
  proof -
    have "char_of (unat (46 :: u8)) = CHR ''.''" "char_of (unat (97 :: u8)) = CHR ''a''" by (simp_all add: char_of_eq_iff)
    then show ?thesis by (simp add: sample_recs_def)
  qed
  finally have "map de_name (entries (dirs s' 0x100)) = [''.'', ''..'', ''a'']" .
  with s'(1) show ?thesis by - (rule exI [of _ s'], rule conjI)
qed

end
