(* ===== verification/Ext2_Lookup.thy ===== *)
theory Ext2_Lookup
  imports Ext2
begin

text \<open>
  From the bytes of a partition to a file: \<open>Ext2\<close> and \<open>Vfs\<close> together. \<open>image_fs\<close> reads the description of the file
  system off the bytes where the ext2 layout puts it; \<open>ext2_lookup_spec\<close> shows that mounting such an image as the root
  and looking a name up gives what the image says.
\<close>

section \<open>Operations keep the root\<close>

text \<open>\<open>st\<close> is the state in a result.\<close>

definition keeps_root :: "('a \<Rightarrow> ext2_state) \<Rightarrow> addr \<Rightarrow> 'a exec \<Rightarrow> bool" where
  "keeps_root st r m \<longleftrightarrow> (\<forall>x. m = ret x \<longrightarrow> root_dir (st x) = r)"

lemma keeps_root_intros [intro!]:
  "root_dir (st x) = r \<Longrightarrow> keeps_root st r (ret x)" "keeps_root st r (fail f)"
  "keeps_root snd r m \<Longrightarrow> (\<And>x. m = ret x \<Longrightarrow> root_dir (snd x) = r \<Longrightarrow> keeps_root st r (k x)) \<Longrightarrow> keeps_root st r (bindX m k)"
  "keeps_root st r (k' ()) \<Longrightarrow> keeps_root st r (bindX (ASSERT b) k')"
  by (auto simp: keeps_root_def ASSERT_def bindX_eq_ret)

lemma keeps_root_alloc [intro!]: "root_dir s = r \<Longrightarrow> keeps_root snd r (alloc s)"
  by (auto simp: alloc_def split: list.splits)

lemma keeps_root_get_inode [intro!]: "root_dir s = r \<Longrightarrow> keeps_root snd r (direntry_get_inode ino mnt p s)"
  by (auto simp: direntry_get_inode_def keeps_root_def bindX_eq_ret alloc_def split: option.splits prod.splits if_splits list.splits)

lemma keeps_root_enter [intro!]: "root_dir s = r \<Longrightarrow> keeps_root snd r (enter de p owner s)"
  using keeps_root_get_inode [of s r]
  by (auto simp: enter_def get_direntry_def keeps_root_def bindX_eq_ret split: option.splits prod.splits)

lemma root_new_dir: "root_dir (new_dir dir ino sub s) = root_dir s"
  by (simp add: new_dir_def)

lemma keeps_root_new_entry [intro!]: "root_dir s = r \<Longrightarrow> keeps_root snd r (new_entry dir b e i s)"
  by (auto simp: new_entry_def Let_def root_new_dir split: prod.splits)

lemma keeps_root_entry_loop [intro!]: "root_dir s = r \<Longrightarrow> keeps_root snd r (entry_loop bsize dir b i acc s)"
proof (induction bsize dir b i acc s rule: entry_loop.induct)
  case (1 bsize dir b i acc s)
  show ?case
  proof (cases "bsize \<le> i \<or> unat bsize < unat i + 8 \<or> unat bsize < unat i + 8 + unat (name_len (read_direntry b (unat i)))")
    case True
    then show ?thesis using 1(2) by (subst entry_loop.simps) auto
  next
    case False
    have "keeps_root snd r (bindX (new_entry dir b (read_direntry b (unat i)) (unat i) s) (\<lambda>x. entry_loop bsize dir b
        (let i' = i + ucast (rec_len (read_direntry b (unat i))) in i' + (if i' mod 4 \<noteq> 0 then 4 - i' mod 4 else 0))
        (acc @ [fst x]) (snd x)))"
      unfolding Let_def using False by (intro keeps_root_intros(3) keeps_root_new_entry 1(2)) (rule 1(1); auto)
    moreover have n: "(bsize \<le> i) = False" "(unat bsize < unat i + 8) = False"
      "(unat bsize < unat i + 8 + unat (name_len (read_direntry b (unat i)))) = False" using False by simp_all
    ultimately show ?thesis by (subst entry_loop.simps) (simp only: Let_def n if_False simp_thms)
  qed
qed

lemma keeps_root_get_direntries: "keeps_root fst (root_dir s) (ext2_get_direntries dir s)"
  by (auto simp: ext2_get_direntries_def Let_def split_beta split: option.splits)

section \<open>A file system on a partition\<close>

text \<open>
  The superblock is at byte 1024; the group descriptors are in the block after the superblock's, which is the third block
  of 1024 bytes or the second of a larger size.
\<close>

definition descriptor_place :: "u32 \<Rightarrow> nat" where
  "descriptor_place bsize = (if bsize = 1024 then 2048 else unat bsize)"

definition image_fs :: "hd_struct \<Rightarrow> bytes \<Rightarrow> ext2fs_struct" where
  "image_fs part disk =
     (let sb = read_sb (\<lambda>k. disk (1024 + k)); bsize = push_bit (unat (block_size_log sb)) 1024;
          count = total_blocks sb div blocks_per_group sb + 1
      in \<lparr>superblock = sb, fs_part = part, block_size = bsize, gd_count = count,
          group_descriptors = (\<lambda>k. disk (descriptor_place bsize + k)), gd_bytes = 32 * unat count\<rparr>)"

text \<open>The image is a file system the driver can mount: all of its description lies on the partition's \<open>n\<close> sectors.\<close>

definition mountable :: "ext2fs_struct \<Rightarrow> nat \<Rightarrow> bool" where
  "mountable fs n \<longleftrightarrow> signature (superblock fs) = 0xef53 \<and> unat (block_size_log (superblock fs)) \<le> 20 \<and>
     blocks_per_group (superblock fs) \<noteq> 0 \<and> inode_size (superblock fs) = 128 \<and> 4 \<le> n \<and> gd_bytes fs < 4294966784 \<and>
     descriptor_place (block_size fs) + gd_bytes fs + 511 \<le> 512 * n"

lemma read_sb_cong: "(\<And>k. k < 1024 \<Longrightarrow> b k = b' k) \<Longrightarrow> read_sb b = read_sb b'"
  by (simp add: read_sb_def buf32_def buf16_def)

lemma inode_image:
  assumes "superblock f = superblock g" "block_size f = block_size g" "gd_bytes g \<le> gd_bytes f"
    "\<forall>k<gd_bytes g. group_descriptors f k = group_descriptors g k" "inode_ok g n ino"
  shows "inode_place f ino = inode_place g ino" "inode_ok f n ino"
proof -
  let ?i = "(unat ino - 1) div unat (inodes_per_group (superblock g))"
  have i: "?i * 32 + 32 \<le> gd_bytes g" using assms(5) by (simp add: inode_ok_def Let_def)
  then have "bg_inode_table (group_descriptors f) ?i = bg_inode_table (group_descriptors g) ?i"
    using assms(4) by (simp add: bg_inode_table_def buf32_def sizeof_gd_def)
  then show p: "inode_place f ino = inode_place g ino" using assms(1,2) by (simp add: inode_place_def)
  show "inode_ok f n ino" using assms p by (auto simp: inode_ok_def Let_def)
qed

lemma part_read:
  assumes "part_image s part n disk" "unat lba + unat c \<le> n"
  obtains b where "hdd_read s part c lba = (c, b)" "\<And>k. k < 512 * unat c \<Longrightarrow> b k = disk (512 * unat lba + k)"
proof (rule that [of "snd (hdd_read s part c lba)"])
  have r: "fst (hdd_read s part c lba) = c" "\<forall>k<512 * unat c. snd (hdd_read s part c lba) k = disk (512 * unat lba + k)"
    using assms unfolding part_image_def by metis+
  show "hdd_read s part c lba = (c, snd (hdd_read s part c lba))" using r(1) by (simp add: prod_eq_iff)
  show "k < 512 * unat c \<Longrightarrow> snd (hdd_read s part c lba) k = disk (512 * unat lba + k)" for k using r(2) by blast
qed

lemma superblock_read:
  assumes "part_image s part n disk" "4 \<le> n"
  obtains b where "hdd_read s part SB_SECT_SIZE SB_SECT_OFFSET = (SB_SECT_SIZE, b)"
    "read_sb b = superblock (image_fs part disk)"
proof -
  have "unat SB_SECT_OFFSET + unat SB_SECT_SIZE \<le> n" using assms(2) by (simp add: SB_SECT_OFFSET_def SB_SECT_SIZE_def)
  with assms(1) obtain b where b: "hdd_read s part SB_SECT_SIZE SB_SECT_OFFSET = (SB_SECT_SIZE, b)"
    "\<And>k. k < 512 * unat SB_SECT_SIZE \<Longrightarrow> b k = disk (512 * unat SB_SECT_OFFSET + k)"
    by (rule part_read) blast
  have "read_sb b = read_sb (\<lambda>k. disk (1024 + k))"
    using b(2) by (intro read_sb_cong) (simp add: SB_SECT_SIZE_def SB_SECT_OFFSET_def)
  then have "read_sb b = superblock (image_fs part disk)" unfolding image_fs_def Let_def by simp
  with b(1) show thesis by (rule that)
qed

lemma image_block_size:
  assumes "unat k \<le> 20"
  shows "unat (push_bit (unat (k :: u32)) 1024 :: u32) = 1024 * 2 ^ unat k"
proof -
  have "(2 :: nat) ^ unat k \<le> 2 ^ 20" using assms by (intro power_increasing) simp_all
  then have "1024 * (2 :: nat) ^ unat k < 4294967296" by simp
  then have "take_bit 32 (push_bit (unat k) (1024 :: nat)) = 1024 * 2 ^ unat k"
    unfolding push_bit_eq_mult by (intro take_bit_nat_eq_self) simp
  then show ?thesis by (simp only: unsigned_push_bit_eq) simp
qed

lemma mountable_block_size:
  assumes "mountable (image_fs part disk) n"
  shows "unat (block_size (image_fs part disk)) mod 512 = 0" "block_size (image_fs part disk) \<noteq> 0"
    "unat (block_size (image_fs part disk)) \<le> 2 ^ 30"
proof -
  let ?k = "block_size_log (superblock (image_fs part disk))"
  have k: "unat ?k \<le> 20" using assms by (simp add: mountable_def)
  have b: "unat (block_size (image_fs part disk)) = 1024 * 2 ^ unat ?k"
    using image_block_size [OF k] by (simp add: image_fs_def Let_def)
  then show "unat (block_size (image_fs part disk)) mod 512 = 0" by simp
  have "0 < unat (block_size (image_fs part disk))" unfolding b by simp
  then show "block_size (image_fs part disk) \<noteq> 0" by auto
  have "(2 :: nat) ^ unat ?k \<le> 2 ^ 20" using k by (intro power_increasing) simp_all
  with b show "unat (block_size (image_fs part disk)) \<le> 2 ^ 30" by simp
qed

lemma div_512_up: "(g + 511) div 512 = g div 512 + (if g mod 512 \<noteq> 0 then 1 else 0)" for g :: nat
proof -
  have r: "g mod 512 < 512" by simp
  have "g + 511 = (g mod 512 + 511) + g div 512 * 512" by simp
  then have "(g + 511) div 512 = (g mod 512 + 511) div 512 + g div 512"
    by (metis div_mult_self1 zero_neq_numeral add.commute)
  moreover have "(g mod 512 + 511) div 512 = 1" if "g mod 512 \<noteq> 0"
    using r that by (intro div_nat_eqI) simp_all
  ultimately show ?thesis by (cases "g mod 512 = 0") simp_all
qed

text \<open>The sectors of the group descriptors, as \<open>ext2_mount\<close> computes them.\<close>

lemma descriptor_words:
  fixes bsize count :: u32
  assumes "unat bsize mod 512 = 0" "unat bsize \<le> 2 ^ 30" "32 * unat count < 4294966784"
  shows "512 * unat ((if bsize = 1024 then 2 else 1) * (bsize div IO_BLOCK_SIZE)) = descriptor_place bsize"
    "unat (count * of_nat sizeof_gd div IO_BLOCK_SIZE + (if count * of_nat sizeof_gd mod IO_BLOCK_SIZE \<noteq> 0 then 1 else 0))
       = (32 * unat count + 511) div 512"
proof -
  have d: "unat (bsize div IO_BLOCK_SIZE) = unat bsize div 512" by (simp add: IO_BLOCK_SIZE_def unat_div_word)
  show "512 * unat ((if bsize = 1024 then 2 else 1) * (bsize div IO_BLOCK_SIZE)) = descriptor_place bsize"
    using assms(1) d by (auto simp: descriptor_place_def IO_BLOCK_SIZE_def)
  have c: "unat (count * of_nat sizeof_gd) = 32 * unat count"
    using assms(3) by (subst unat_mult_nowrap) (simp_all add: sizeof_gd_def)
  have m: "(count * of_nat sizeof_gd mod IO_BLOCK_SIZE \<noteq> 0) = (32 * unat count mod 512 \<noteq> 0)"
    unfolding unat_eq_zero [symmetric] unat_mod_word c by (simp add: IO_BLOCK_SIZE_def)
  have q: "unat (count * of_nat sizeof_gd div IO_BLOCK_SIZE) = 32 * unat count div 512"
    by (simp add: unat_div_word c IO_BLOCK_SIZE_def)
  note e = div_512_up [of "32 * unat count"]
  have l: "32 * unat count div 512 + 1 < 4294967296" using assms(3) by simp
  let ?one = "if 32 * unat count mod 512 \<noteq> 0 then 1 else 0 :: u32"
  have o: "unat ?one = (if 32 * unat count mod 512 \<noteq> 0 then 1 else 0)" by simp
  then have "unat ?one \<le> 1" by simp
  then have "unat (count * of_nat sizeof_gd div IO_BLOCK_SIZE) + unat ?one < 4294967296" using l unfolding q by linarith
  then show "unat (count * of_nat sizeof_gd div IO_BLOCK_SIZE + (if count * of_nat sizeof_gd mod IO_BLOCK_SIZE \<noteq> 0 then 1 else 0))
      = (32 * unat count + 511) div 512"
    unfolding m e q [symmetric] o [symmetric] by (rule unat_add_nowrap)
qed

lemma hdd_read_state:
  "hdd_read (s\<lparr>e_heap := h\<rparr>) = hdd_read s" "hdd_read (s\<lparr>e_heap := h, e_mounts := m, dirs := ds\<rparr>) = hdd_read s"
  by (intro ext; simp add: hdd_read_def)+

lemma not_negative: "\<not> SB_SECT_SIZE <s SB_SECT_SIZE" "\<not> SUCCESS <s 0"
  by (simp_all add: word_sless_alt)

text \<open>The description that the driver keeps: the image's, with the descriptors of whole sectors.\<close>

definition kept_fs :: "ext2fs_struct \<Rightarrow> bytes \<Rightarrow> ext2fs_struct" where
  "kept_fs fs gdt = fs\<lparr>group_descriptors := gdt, gd_bytes := 512 * ((gd_bytes fs + 511) div 512)\<rparr>"

definition mounted :: "addr \<Rightarrow> addr \<Rightarrow> ext2fs_struct \<Rightarrow> (addr \<times> bytes) list \<Rightarrow> ext2_state \<Rightarrow> ext2_state" where
  "mounted root mnt fsinfo h s = s\<lparr>e_heap := h, e_mounts := (e_mounts s)(mnt := fsinfo),
     dirs := (dirs s)(root := (dirs s root)\<lparr>d_fs_info := mnt, d_mnt_point := root, d_inode_no := 2\<rparr>)\<rparr>"

lemma mount_reads:
  assumes img: "part_image s part n disk" and fs: "fs = image_fs part disk" and mt: "mountable fs n"
    and h: "e_heap s = (a1, w1) # (a2, w2) # (a3, w3) # h"
  obtains gdt where "\<And>k. k < gd_bytes fs \<Longrightarrow> gdt k = group_descriptors fs k"
    "\<And>root s'. ext2_get_direntries root (mounted root a2 (kept_fs fs gdt) h s) = ret (s', SUCCESS) \<Longrightarrow>
     ext2_mount part root s = ret (s', SUCCESS)"
proof -
  let ?sb = "superblock fs" and ?bs = "block_size fs" and ?c = "gd_count fs"
  note m = mt [unfolded mountable_def]
  note z = mountable_block_size [of part disk n, folded fs, OF mt]
  have gb: "gd_bytes fs = 32 * unat ?c" by (simp add: fs image_fs_def Let_def)
  define secs where "secs = ?c * of_nat sizeof_gd div IO_BLOCK_SIZE + (if ?c * of_nat sizeof_gd mod IO_BLOCK_SIZE \<noteq> 0 then 1 else 0)"
  define lba where "lba = (if ?bs = 1024 then 2 else 1) * (?bs div IO_BLOCK_SIZE)"
  have w: "512 * unat lba = descriptor_place ?bs" "unat secs = (gd_bytes fs + 511) div 512"
    using descriptor_words [of ?bs ?c] z(1,3) m gb by (simp_all add: secs_def lba_def)
  have lim: "unat lba + unat secs \<le> n" using m w by linarith
  have n: "n < 2147483648" using img by (simp add: part_image_def)
  from img lim obtain gdt where gdt: "hdd_read s part secs lba = (secs, gdt)"
    "\<And>k. k < 512 * unat secs \<Longrightarrow> gdt k = disk (512 * unat lba + k)" by (rule part_read) blast
  have pos: "\<not> secs <s 0" using lim n by (intro nonneg_small) linarith
  obtain b where b: "hdd_read s part SB_SECT_SIZE SB_SECT_OFFSET = (SB_SECT_SIZE, b)" "read_sb b = ?sb"
    using superblock_read [OF img] m fs by blast
  have probe: "ext2_probe part s = ret (s, SUCCESS)"
    using b m not_negative by (simp add: ext2_probe_def)
  have al: "alloc s = ret ((a1, w1), s\<lparr>e_heap := (a2, w2) # (a3, w3) # h\<rparr>)"
    "alloc (s\<lparr>e_heap := (a2, w2) # (a3, w3) # h\<rparr>) = ret ((a2, w2), s\<lparr>e_heap := (a3, w3) # h\<rparr>)"
    "alloc (s\<lparr>e_heap := (a3, w3) # h\<rparr>) = ret ((a3, w3), s\<lparr>e_heap := h\<rparr>)"
    by (simp_all add: alloc_def h)
  have im: "push_bit (unat (block_size_log ?sb)) 0x400 = ?bs" "total_blocks ?sb div blocks_per_group ?sb + 1 = ?c"
    "fs_part fs = part" unfolding fs image_fs_def Let_def by simp_all
  have bad: "(32 \<le> block_size_log ?sb \<or> blocks_per_group ?sb = 0) = False"
    using m by (simp add: word_le_nat_alt)
  have gbw: "unat (secs * IO_BLOCK_SIZE) = 512 * ((gd_bytes fs + 511) div 512)"
  proof -
    have "unat secs * 512 < 4294967296" using w(2) m by linarith
    then show ?thesis using w(2) by (subst unat_mult_nowrap) (simp_all add: IO_BLOCK_SIZE_def)
  qed
  have k: "\<lparr>superblock = ?sb, fs_part = part, block_size = ?bs, gd_count = ?c, group_descriptors = gdt,
      gd_bytes = unat (secs * IO_BLOCK_SIZE)\<rparr> = kept_fs fs gdt"
    unfolding gbw by (simp add: kept_fs_def im(3) [symmetric])
  have e: "ext2_mount part root s = ret (s', SUCCESS)"
    if "ext2_get_direntries root (mounted root a2 (kept_fs fs gdt) h s) = ret (s', SUCCESS)" for root s'
    using that unfolding ext2_mount_def mounted_def
    by (simp only: probe bindX_simps al b(1) b(2) hdd_read_state im bad Let_def prod.case if_False not_negative
        lba_def [symmetric] secs_def [symmetric] gdt(1) pos k) simp
  show thesis
  proof (rule that)
    show "gdt k = group_descriptors fs k" if "k < gd_bytes fs" for k
      using gdt(2) [of k] that w unfolding fs image_fs_def Let_def by simp
  qed (rule e)
qed

lemma three_cells:
  assumes "4 + m \<le> length (h :: ('a \<times> 'b) list)"
  obtains a1 w1 a2 w2 a3 w3 h' where "h = (a1, w1) # (a2, w2) # (a3, w3) # h'" "1 + m \<le> length h'"
proof -
  obtain p1 l1 where p1: "h = p1 # l1" using assms by (cases h) auto
  obtain p2 l2 where p2: "l1 = p2 # l2" using assms p1 by (cases l1) auto
  obtain p3 h' where p3: "l2 = p3 # h'" using assms p1 p2 by (cases l2) auto
  show thesis
    using that [of "fst p1" "snd p1" "fst p2" "snd p2" "fst p3" "snd p3" h'] assms by (simp add: p1 p2 p3)
qed

lemma mount_image:
  assumes img: "part_image s part n disk" and fs: "fs = image_fs part disk" and mt: "mountable fs n"
    and root: "root \<noteq> 0" "entries (dirs s root) = []" "d_parent (dirs s root) = root"
    and heap: "\<forall>(a, raw)\<in>set (e_heap s). buf32 raw payload_offset = 0 \<and> a \<noteq> 0 \<and> a \<noteq> root"
    and len: "4 + 3 * length rs \<le> length (e_heap s)"
    and ok: "inode_ok fs n 2" "\<forall>r\<in>set rs. inode_ok fs n (r_ino r)"
    and first: "first = unat (i_block (inode_at fs disk 2) 0) * unat (block_size fs)" "first + unat (block_size fs) \<le> 512 * n"
    and lay: "dir_layout (\<lambda>k. disk (first + k)) 0 rs (unat (block_size fs))"
  shows "\<exists>s'. ext2_mount part root s = ret (s', SUCCESS) \<and> root_dir s' = root_dir s \<and>
    list_all2 (describes fs disk root (dirs s root\<lparr>d_inode_no := 2\<rparr>)) rs (entries (dirs s' root))"
proof -
  obtain a1 w1 a2 w2 a3 w3 h where h: "e_heap s = (a1, w1) # (a2, w2) # (a3, w3) # h" "1 + 3 * length rs \<le> length h"
    using len by (rule three_cells) simp
  obtain gdt where gdt: "\<forall>k<gd_bytes fs. gdt k = group_descriptors fs k"
    "\<And>s'. ext2_get_direntries root (mounted root a2 (kept_fs fs gdt) h s) = ret (s', SUCCESS) \<Longrightarrow>
     ext2_mount part root s = ret (s', SUCCESS)" by (rule mount_reads [OF img fs mt h(1)]) blast
  define f where "f = kept_fs fs gdt"
  define t where "t = mounted root a2 f h s"
  have f: "superblock f = superblock fs" "block_size f = block_size fs" "fs_part f = part" "group_descriptors f = gdt"
    "gd_bytes f = 512 * ((gd_bytes fs + 511) div 512)" by (simp_all add: f_def kept_fs_def) (simp add: fs image_fs_def Let_def)
  have "gd_bytes fs \<le> gd_bytes f" unfolding f(5) by linarith
  note tr = inode_image [OF f(1,2) this, unfolded f(4), OF gdt(1)]
  have at: "inode_at f disk ino = inode_at fs disk ino" if "inode_ok fs n ino" for ino
    using tr(1) [OF that] by (simp add: inode_at_def fun_eq_iff)
  have d: "dirs t root = (dirs s root)\<lparr>d_fs_info := a2, d_mnt_point := root, d_inode_no := 2\<rparr>" "e_heap t = h"
    "root_dir t = root_dir s" by (simp_all add: t_def mounted_def)
  have a2: "a2 \<noteq> 0" "\<forall>(a, raw)\<in>set h. buf32 raw payload_offset = 0 \<and> a \<noteq> root" using heap unfolding h(1) by auto
  have rt: "hdd_read t = hdd_read s" "e_mounts t a2 = f"
    unfolding t_def mounted_def by (simp_all only: hdd_read_state) simp
  have "inode_size (superblock fs) = 128" using mt by (simp add: mountable_def)
  then have l: "loading root a2 f n disk (dirs t root) t"
    unfolding loading_def part_image_def rt f d(2) using a2 img rt(2) by (simp add: d part_image_def)
  have blk: "block_size fs \<noteq> 0" "unat (block_size fs) mod 512 = 0"
    using mountable_block_size [of part disk n, folded fs, OF mt] by simp_all
  have "\<exists>s'. ext2_get_direntries root t = ret (s', SUCCESS) \<and> list_all2 (describes f disk root (dirs t root)) rs (entries (dirs s' root))"
  proof (rule get_direntries_ok [OF l root(1)])
    show "entries (dirs t root) = []" "d_fs_info (dirs t (d_parent (dirs t root))) = a2" using root by (simp_all add: d)
    show "inode_ok f n (d_inode_no (dirs t root))" using tr(2) [OF ok(1)] by (simp add: d)
    show "\<forall>r\<in>set rs. inode_ok f n (r_ino r)" using ok(2) tr(2) by blast
    show "first = unat (i_block (inode_at f disk (d_inode_no (dirs t root))) 0) * unat (block_size f)"
      using first(1) at [OF ok(1)] f(2) by (simp add: d)
  qed (use blk first(2) lay h(2) f(2) d(2) in simp_all)
  then obtain s' where s': "ext2_get_direntries root t = ret (s', SUCCESS)" "list_all2 (describes f disk root (dirs t root)) rs (entries (dirs s' root))"
    by blast
  have "list_all2 (describes fs disk root (dirs s root\<lparr>d_inode_no := 2\<rparr>)) rs (entries (dirs s' root))"
    using s'(2) by (rule list.rel_mono_strong) (use ok(2) in \<open>simp add: describes_def d at Let_def\<close>)
  moreover have "root_dir s' = root_dir s"
    using keeps_root_get_direntries [of t root] s'(1) by (simp add: keeps_root_def d)
  ultimately show ?thesis using gdt(2) s'(1) by (auto simp: t_def f_def)
qed

section \<open>Looking a file up\<close>

definition rec_name :: "ext2_rec \<Rightarrow> string" where
  "rec_name r = map (\<lambda>c. char_of (unat c)) (r_name r)"

lemma namei_component:
  assumes "component name" "length name \<noteq> 1" "CHR 0x00 \<notin> set name"
  shows "namei load before after (CHR ''/'' # name) v =
    (case find (\<lambda>e. de_name e = name) (entries (dirs v (root_dir v))) of
       None \<Rightarrow> ret (v, - ENOENT, None) | Some e \<Rightarrow> ret (v, SUCCESS, Some e))"
  using namei_walks [of "[name]" False load before after v] assms by (simp split: option.split)

lemma lookup_entries:
  assumes "list_all2 (describes fs disk dir d) rs es"
  shows "case find (\<lambda>r. rec_name r = name) rs of None \<Rightarrow> find (\<lambda>e. de_name e = name) es = None
    | Some r \<Rightarrow> \<exists>e. find (\<lambda>e. de_name e = name) es = Some e \<and> describes fs disk dir d r e"
  using assms by (rule find_list_all2) (auto simp: describes_def rec_name_def Let_def)

lemma lookup_image:
  assumes "list_all2 (describes fs disk (root_dir v) d) rs (entries (dirs v (root_dir v)))"
    and "component name" "length name \<noteq> 1" "CHR 0x00 \<notin> set name"
  shows "case find (\<lambda>r. rec_name r = name) rs of
      None \<Rightarrow> namei load before after (CHR ''/'' # name) v = ret (v, - ENOENT, None)
    | Some r \<Rightarrow> \<exists>e. namei load before after (CHR ''/'' # name) v = ret (v, SUCCESS, Some e) \<and>
        describes fs disk (root_dir v) d r e"
  using lookup_entries [OF assms(1), of name] unfolding namei_component [OF assms(2-4)]
  by (auto split: option.splits)

text \<open>
  From the bytes on the disk to a file. For a partition whose bytes are an ext2 file system with inodes of 128 bytes,
  described by its superblock at byte 1024 and its group descriptors, with a root directory whose first block is a
  well-formed sequence of records and enough cleared heap memory, \<open>ext2_mount\<close> on the root succeeds. After that
  \<open>namei\<close> of the absolute path of a name finds the entry of the first record of that name, with the number, mode,
  type, size and block count that the inode on the disk has, and returns \<open>-ENOENT\<close> if no record has the name.
\<close>

theorem ext2_lookup_spec:
  assumes "part_image s part n disk" "fs = image_fs part disk" "mountable fs n"
    and "root_dir s \<noteq> 0" "entries (dirs s (root_dir s)) = []" "d_parent (dirs s (root_dir s)) = root_dir s"
    and "\<forall>(a, raw)\<in>set (e_heap s). buf32 raw payload_offset = 0 \<and> a \<noteq> 0 \<and> a \<noteq> root_dir s"
    and "4 + 3 * length rs \<le> length (e_heap s)"
    and "inode_ok fs n 2" "\<forall>r\<in>set rs. inode_ok fs n (r_ino r)"
    and "first = unat (i_block (inode_at fs disk 2) 0) * unat (block_size fs)" "first + unat (block_size fs) \<le> 512 * n"
    and "dir_layout (\<lambda>k. disk (first + k)) 0 rs (unat (block_size fs))"
    and "component name" "length name \<noteq> 1" "CHR 0x00 \<notin> set name"
  shows "\<exists>s'. ext2_mount part (root_dir s) s = ret (s', SUCCESS) \<and>
    (case find (\<lambda>r. rec_name r = name) rs of
       None \<Rightarrow> namei load before after (CHR ''/'' # name) s' = ret (s', - ENOENT, None)
     | Some r \<Rightarrow> \<exists>e. namei load before after (CHR ''/'' # name) s' = ret (s', SUCCESS, Some e) \<and>
         describes fs disk (root_dir s) (dirs s (root_dir s)\<lparr>d_inode_no := 2\<rparr>) r e)"
proof -
  obtain s' where s': "ext2_mount part (root_dir s) s = ret (s', SUCCESS)" "root_dir s' = root_dir s"
    "list_all2 (describes fs disk (root_dir s) (dirs s (root_dir s)\<lparr>d_inode_no := 2\<rparr>)) rs (entries (dirs s' (root_dir s)))"
    using mount_image [OF assms(1-13)] by blast
  then have es: "list_all2 (describes fs disk (root_dir s') (dirs s (root_dir s)\<lparr>d_inode_no := 2\<rparr>)) rs (entries (dirs s' (root_dir s')))"
    by simp
  show ?thesis
    using lookup_image [OF es assms(14-16), of load before after] s'(1) unfolding s'(2) by (intro exI [of _ s'] conjI)
qed

text \<open>A disk of 32 KB with a file \<open>/ab\<close> of 5 bytes.\<close>

definition disk_image :: "nat \<Rightarrow> u8" where
  "disk_image = sample_image(1024 := 16, 1028 := 32, 1057 := 32, 1064 := 16, 1080 := 0x53, 1081 := 0xef, 1112 := 128,
     2056 := 5, 6528 := 0xa4, 6529 := 0x81, 6532 := 5, 10270 := 2, 10273 := 98)"

definition disk_part :: hd_struct where
  "disk_part = \<lparr>sect_offset = 0, sect_count = 64, fs_type = 0x83, hd_bd = 0x5000\<rparr>"

definition disk_state :: ext2_state where
  "disk_state = sample_ext2\<lparr>e_bds := \<lambda>_. (one_entry_disk 0)\<lparr>bd_read := \<lambda>c lba. (c, \<lambda>k. disk_image (512 * unat lba + k))\<rparr>,
     e_heap := map (\<lambda>k. (0x1000 + of_nat k, \<lambda>_. 0)) [0..<13]\<rparr>"

definition disk_recs :: "ext2_rec list" where
  "disk_recs = [\<lparr>r_ino = 2, r_type = 2, r_name = [46], r_len = 12\<rparr>, \<lparr>r_ino = 2, r_type = 2, r_name = [46, 46], r_len = 12\<rparr>,
     \<lparr>r_ino = 12, r_type = 1, r_name = [97, 98], r_len = 1000\<rparr>]"

lemma disk_superblock:
  "read_sb (\<lambda>k. disk_image (1024 + k)) = \<lparr>total_inodes = 16, total_blocks = 32, block_size_log = 0, blocks_per_group = 8192,
     inodes_per_group = 16, signature = 0xef53, inode_size = 128\<rparr>"
  by (simp add: read_sb_def buf32_def buf16_def disk_image_def sample_image_def)

definition disk_fs :: ext2fs_struct where
  "disk_fs = image_fs disk_part disk_image"

lemma disk_fs_fields:
  "superblock disk_fs = \<lparr>total_inodes = 16, total_blocks = 32, block_size_log = 0, blocks_per_group = 8192,
     inodes_per_group = 16, signature = 0xef53, inode_size = 128\<rparr>"
  "block_size disk_fs = 1024" "gd_bytes disk_fs = 32" "bg_inode_table (group_descriptors disk_fs) 0 = 5"
proof -
  have div: "(32 :: u32) div 8192 = 0" by (simp add: word_unat_eq_iff unat_div_word)
  show "superblock disk_fs = \<lparr>total_inodes = 16, total_blocks = 32, block_size_log = 0, blocks_per_group = 8192,
     inodes_per_group = 16, signature = 0xef53, inode_size = 128\<rparr>"
    "block_size disk_fs = 1024" "gd_bytes disk_fs = 32"
    unfolding disk_fs_def image_fs_def Let_def disk_superblock by (simp_all add: div)
  show "bg_inode_table (group_descriptors disk_fs) 0 = 5"
    unfolding disk_fs_def image_fs_def Let_def disk_superblock
    by (simp add: bg_inode_table_def descriptor_place_def buf32_def disk_image_def sample_image_def)
qed

lemma small_inodes:
  assumes f: "superblock fs = \<lparr>total_inodes = 16, total_blocks = 32, block_size_log = 0, blocks_per_group = 8192,
       inodes_per_group = 16, signature = 0xef53, inode_size = 128\<rparr>"
      "block_size fs = 1024" "gd_bytes fs = 32" "bg_inode_table (group_descriptors fs) 0 = 5"
    and ino: "1 \<le> ino" "ino \<le> 16"
  shows "inode_place fs ino = 5120 + (unat ino - 1) * 128" "inode_ok fs 64 ino"
proof -
  have x: "unat ino - 1 < 16" "1 \<le> unat ino" using ino by (simp_all add: word_le_nat_alt)
  have i: "unat (inodes_per_group (superblock fs)) = 16" "inodes_per_group (superblock fs) \<noteq> 0"
    "unat (inode_size (superblock fs)) = 128" "total_inodes (superblock fs) = 16" "unat (block_size fs) = 1024"
    by (simp_all add: f)
  have z: "(unat ino - 1) div 16 = 0" "(unat ino - 1) mod 16 = unat ino - 1" using x by simp_all
  show p: "inode_place fs ino = 5120 + (unat ino - 1) * 128"
    unfolding inode_place_def i z f(4) by simp
  show "inode_ok fs 64 ino"
    unfolding inode_ok_def Let_def p i z f(3) using i(2) ino x by simp
qed

lemmas disk_inodes = small_inodes [OF disk_fs_fields]

lemma cells_fresh:
  assumes "n \<le> 100"
  shows "distinct (map fst (map (\<lambda>k. (0x1000 + of_nat k :: addr, \<lambda>_. 0 :: u8)) [0..<n]))"
    "\<forall>(a, raw)\<in>set (map (\<lambda>k. (0x1000 + of_nat k :: addr, \<lambda>_. 0)) [0..<n]). buf32 raw payload_offset = 0 \<and> a \<noteq> 0 \<and> a \<noteq> 0x100"
proof -
  have u: "unat (0x1000 + of_nat k :: u32) = 0x1000 + k" if "k < n" for k using that assms by (subst unat_add_nowrap) simp_all
  then have "inj_on (\<lambda>k. 0x1000 + of_nat k :: u32) {0..<n}" by (intro inj_onI) (metis add_left_cancel atLeastLessThan_iff)
  then show "distinct (map fst (map (\<lambda>k. (0x1000 + of_nat k :: addr, \<lambda>_. 0 :: u8)) [0..<n]))"
    by (simp add: comp_def distinct_map)
  have "(0x1000 + of_nat k :: u32) \<noteq> 0 \<and> (0x1000 + of_nat k :: u32) \<noteq> 0x100" if "k < n" for k
    using u [OF that] by (auto simp: word_unat_eq_iff)
  then show "\<forall>(a, raw)\<in>set (map (\<lambda>k. (0x1000 + of_nat k :: addr, \<lambda>_. 0)) [0..<n]). buf32 raw payload_offset = 0 \<and> a \<noteq> 0 \<and> a \<noteq> 0x100"
    by (auto simp: buf32_def)
qed

lemma disk_state_ok:
  "part_image disk_state disk_part 64 disk_image" "mountable disk_fs 64"
  "root_dir disk_state = 0x100" "entries (dirs disk_state 0x100) = []" "d_parent (dirs disk_state 0x100) = 0x100"
  "\<forall>(a, raw)\<in>set (e_heap disk_state). buf32 raw payload_offset = 0 \<and> a \<noteq> 0 \<and> a \<noteq> 0x100"
  "length (e_heap disk_state) = 13"
proof -
  show "part_image disk_state disk_part 64 disk_image"
    by (simp add: part_image_def hdd_read_def disk_state_def disk_part_def)
  show "mountable disk_fs 64"
    by (simp add: mountable_def disk_fs_fields descriptor_place_def)
  show "root_dir disk_state = 0x100" "entries (dirs disk_state 0x100) = []" "d_parent (dirs disk_state 0x100) = 0x100"
    "length (e_heap disk_state) = 13" by (simp_all add: disk_state_def sample_ext2_def)
  show "\<forall>(a, raw)\<in>set (e_heap disk_state). buf32 raw payload_offset = 0 \<and> a \<noteq> 0 \<and> a \<noteq> 0x100"
    using cells_fresh(2) [of 13] by (simp add: disk_state_def)
qed

lemma disk_recs_ok:
  "i_block (inode_at disk_fs disk_image 2) 0 = 10"
  "dir_layout (\<lambda>k. disk_image (10240 + k)) 0 disk_recs 1024" "\<forall>r\<in>set disk_recs. inode_ok disk_fs 64 (r_ino r)"
  "find (\<lambda>r. rec_name r = ''ab'') disk_recs = Some \<lparr>r_ino = 12, r_type = 1, r_name = [97, 98], r_len = 1000\<rparr>"
  "i_size (inode_at disk_fs disk_image 12) = 5"
proof -
  show "i_block (inode_at disk_fs disk_image 2) 0 = 10" "i_size (inode_at disk_fs disk_image 12) = 5"
    by (simp_all add: i_block_def i_size_def inode_at_def buf32_def disk_inodes disk_image_def sample_image_def)
  show "dir_layout (\<lambda>k. disk_image (10240 + k)) 0 disk_recs 1024"
    by (simp add: disk_recs_def disk_image_def sample_image_def read_direntry_def buf32_def buf16_def less_Suc_eq)
  show "\<forall>r\<in>set disk_recs. inode_ok disk_fs 64 (r_ino r)" by (simp add: disk_recs_def disk_inodes)
  have "char_of (unat (97 :: u8)) = CHR ''a''" "char_of (unat (98 :: u8)) = CHR ''b''" by (simp_all add: char_of_eq_iff)
  then show "find (\<lambda>r. rec_name r = ''ab'') disk_recs = Some \<lparr>r_ino = 12, r_type = 1, r_name = [97, 98], r_len = 1000\<rparr>"
    by (simp add: disk_recs_def rec_name_def)
qed

theorem ext2_lookup_spec_witness:
  "\<exists>s' e. ext2_mount disk_part 0x100 disk_state = ret (s', SUCCESS) \<and>
    namei load_ext2 CHR 0x00 CHR 0x00 ''/ab'' s' = ret (s', SUCCESS, Some e) \<and> de_inode_no e = 12 \<and> de_size e = 5"
proof -
  note o = disk_state_ok(4-6) [folded disk_state_ok(3)]
  have "10240 = unat (i_block (inode_at disk_fs disk_image 2) 0) * unat (block_size disk_fs)"
    by (simp add: disk_recs_ok disk_fs_fields)
  moreover have "dir_layout (\<lambda>k. disk_image (10240 + k)) 0 disk_recs (unat (block_size disk_fs))"
    using disk_recs_ok(2) by (simp add: disk_fs_fields)
  moreover have "component ''ab''" by (simp add: component_def)
  ultimately obtain s' where s': "ext2_mount disk_part 0x100 disk_state = ret (s', SUCCESS)"
    "case find (\<lambda>r. rec_name r = ''ab'') disk_recs of
       None \<Rightarrow> namei load_ext2 CHR 0x00 CHR 0x00 (CHR ''/'' # ''ab'') s' = ret (s', - ENOENT, None)
     | Some r \<Rightarrow> \<exists>e. namei load_ext2 CHR 0x00 CHR 0x00 (CHR ''/'' # ''ab'') s' = ret (s', SUCCESS, Some e) \<and>
         describes disk_fs disk_image (root_dir disk_state) (dirs disk_state (root_dir disk_state)\<lparr>d_inode_no := 2\<rparr>) r e"
    using ext2_lookup_spec [OF disk_state_ok(1) disk_fs_def disk_state_ok(2) _ o _ _ disk_recs_ok(3), of 10240 "''ab''"
        load_ext2 "CHR 0x00" "CHR 0x00"] disk_inodes(2) [of 2]
    by (auto simp: disk_state_ok(3,7) disk_recs_def disk_fs_fields)
  then obtain e where "namei load_ext2 CHR 0x00 CHR 0x00 ''/ab'' s' = ret (s', SUCCESS, Some e)"
    "describes disk_fs disk_image (root_dir disk_state) (dirs disk_state (root_dir disk_state)\<lparr>d_inode_no := 2\<rparr>)
       \<lparr>r_ino = 12, r_type = 1, r_name = [97, 98], r_len = 1000\<rparr> e" unfolding disk_recs_ok(4) by auto
  with s'(1) disk_recs_ok(5) show ?thesis by (auto simp: describes_def Let_def)
qed

end
