(* ===== verification/Fs_Interface.thy ===== *)
theory Fs_Interface
  imports Vfs
begin

text \<open>
  What \<open>vfs.c\<close> relies on in a file system, as a locale: \<open>directory_source\<close> promises that loading a directory gives one
  entry for each of its records and leaves the other directories alone. Path lookup and, for a debug build, the printing of
  the file tree are proved in it once; the operations \<open>print_dir\<close> and \<open>print_file_tree\<close> are here as well. \<open>Ext2_Tree\<close> and
  \<open>File_Tree\<close> interpret the locales by the ext2 driver.
\<close>

section \<open>The file tree of a debug build\<close>

text \<open>
  What is printed is a list of lines. \<open>fetch\<close> is \<open>get_direntries\<close> with what the file system prints. The list of a
  directory that is loaded never changes, so the rest of the list is what \<open>next\<close> leads to after a recursive call. One line
  is the indentation, \<open>level\<close> calls of \<open>kprintf\<close>, and the name. A tree with a cycle is printed for ever.
\<close>

type_synonym 'z fetcher = "addr \<Rightarrow> 'z vfs_scheme \<times> string list \<Rightarrow> ('z vfs_scheme \<times> string list) exec"

definition newline :: string where "newline = [CHR 0x0A]"

definition tree_line :: "nat \<Rightarrow> string \<Rightarrow> string" where
  "tree_line level name = replicate level (CHR '' '') @ name @ newline"

partial_function (option) print_entries ::
    "'z fetcher \<Rightarrow> nat \<Rightarrow> direntry_struct list \<Rightarrow> 'z vfs_scheme \<times> string list \<Rightarrow> ('z vfs_scheme \<times> string list) exec" where
  "print_entries fetch level files s =
     (if files = [] then ret s
      else let file = hd files; out = snd s @ [tree_line level (de_name file)]
           in if de_name file = ''.'' \<or> de_name file = ''..'' then print_entries fetch level (tl files) s
              else if de_type file AND F_DIR = 0 then print_entries fetch level (tl files) (fst s, out)
              else bindX (fetch (directory file) (fst s, out)) (\<lambda>s.
                   bindX (print_entries fetch (level + 1) (entries (dirs (fst s) (directory file))) s)
                     (print_entries fetch level (tl files))))"

definition print_dir :: "'z fetcher \<Rightarrow> addr \<Rightarrow> nat \<Rightarrow> 'z vfs_scheme \<times> string list \<Rightarrow> ('z vfs_scheme \<times> string list) exec" where
  "print_dir fetch dir level s = bindX (fetch dir s) (\<lambda>s. print_entries fetch level (entries (dirs (fst s) dir)) s)"

definition print_file_tree :: "'z fetcher \<Rightarrow> 'z vfs_scheme \<times> string list \<Rightarrow> ('z vfs_scheme \<times> string list) exec" where
  "print_file_tree fetch = (\<lambda>(s, out). print_dir fetch (root_dir s) 1 (s, out @ [''/'' @ newline]))"

lemma print_entries_simps [simp]:
  "print_entries fetch level [] s = ret s"
  "print_entries fetch level (file # files) s =
     (if de_name file = ''.'' \<or> de_name file = ''..'' then print_entries fetch level files s
      else bindX (if de_type file AND F_DIR = 0 then ret (fst s, snd s @ [tree_line level (de_name file)])
                  else print_dir fetch (directory file) (level + 1) (fst s, snd s @ [tree_line level (de_name file)]))
             (print_entries fetch level files))"
proof -
  show "print_entries fetch level [] s = ret s" by (subst print_entries.simps) simp
  show "print_entries fetch level (file # files) s =
     (if de_name file = ''.'' \<or> de_name file = ''..'' then print_entries fetch level files s
      else bindX (if de_type file AND F_DIR = 0 then ret (fst s, snd s @ [tree_line level (de_name file)])
                  else print_dir fetch (directory file) (level + 1) (fst s, snd s @ [tree_line level (de_name file)]))
             (print_entries fetch level files))"
    by (subst print_entries.simps) (simp add: print_dir_def Let_def bindX_assoc)
qed

section \<open>A tree of records\<close>

text \<open>
  The reference: directories are numbers, \<open>recs\<close> their records, and a record has a name, a number and may be a
  directory. \<open>dir_walk\<close> is the record a path ends at, or the error; \<open>dir_lines\<close> the lines below a directory, to depth \<open>d\<close>.
\<close>

fun dir_walk :: "('r \<Rightarrow> string) \<Rightarrow> ('r \<Rightarrow> u32) \<Rightarrow> ('r \<Rightarrow> bool) \<Rightarrow> (u32 \<Rightarrow> 'r list) \<Rightarrow> string list \<Rightarrow> bool \<Rightarrow> u32 \<Rightarrow> s32 + 'r" where
  "dir_walk rname rno isdir recs [] slash ino = Inl (- ENOENT)"
| "dir_walk rname rno isdir recs (c # cs) slash ino =
     (case find (\<lambda>r. rname r = c) (recs ino) of
        None \<Rightarrow> Inl (- ENOENT)
      | Some r \<Rightarrow>
          if cs = [] then if slash \<and> \<not> isdir r then Inl (- ENOTDIR) else Inr r
          else if \<not> isdir r then Inl (- ENOENT)
          else dir_walk rname rno isdir recs cs slash (rno r))"

primrec dir_lines :: "nat \<Rightarrow> ('r \<Rightarrow> string) \<Rightarrow> ('r \<Rightarrow> u32) \<Rightarrow> ('r \<Rightarrow> bool) \<Rightarrow> (u32 \<Rightarrow> 'r list) \<Rightarrow> nat \<Rightarrow> u32 \<Rightarrow> string list option" where
  "dir_lines 0 rname rno isdir recs level ino = None"
| "dir_lines (Suc d) rname rno isdir recs level ino = map_option concat (those (map (\<lambda>r.
     if rname r = ''.'' \<or> rname r = ''..'' then Some []
     else map_option ((#) (tree_line level (rname r)))
            (if isdir r then dir_lines d rname rno isdir recs (level + 1) (rno r) else Some [])) (recs ino)))"

lemma dir_lines_cong:
  assumes "\<And>ino r. ino \<in> A \<Longrightarrow> r \<in> set (recs ino) \<Longrightarrow> isdir r = isdir' r \<and> (isdir r \<longrightarrow> rno r \<in> A)"
  shows "ino \<in> A \<Longrightarrow> dir_lines d rname rno isdir recs level ino = dir_lines d rname rno isdir' recs level ino"
proof (induction d arbitrary: ino level)
  case (Suc d)
  show ?case unfolding dir_lines.simps
    by (rule arg_cong [where f = "\<lambda>x. map_option concat (those x)"], rule map_cong [OF refl]) (use assms Suc in auto)
qed simp

lemma dir_walk_cong:
  assumes "\<And>ino r. ino \<in> A \<Longrightarrow> r \<in> set (recs ino) \<Longrightarrow> isdir r = isdir' r \<and> (isdir r \<longrightarrow> rno r \<in> A)"
  shows "ino \<in> A \<Longrightarrow> dir_walk rname rno isdir recs cs slash ino = dir_walk rname rno isdir' recs cs slash ino"
proof (induction cs arbitrary: ino)
  case (Cons c cs)
  show ?case
  proof (cases "find (\<lambda>r. rname r = c) (recs ino)")
    case (Some q)
    then have "q \<in> set (recs ino)" by (auto simp: find_Some_iff)
    then show ?thesis using Some Cons.IH assms [OF Cons.prems] by auto
  qed simp
qed simp

section \<open>Known directories\<close>

text \<open>From one state to a later one: directories are only added and loaded.\<close>

definition grows :: "addr set \<Rightarrow> 'z vfs_scheme \<Rightarrow> addr set \<Rightarrow> 'z vfs_scheme \<Rightarrow> bool" where
  "grows K s K' s' \<longleftrightarrow> K \<subseteq> K' \<and> root_dir s' = root_dir s \<and> root_direntry s' = root_direntry s \<and>
     (\<forall>a\<in>K. d_inode_no (dirs s' a) = d_inode_no (dirs s a) \<and> d_fs_info (dirs s' a) = d_fs_info (dirs s a) \<and>
        d_parent (dirs s' a) = d_parent (dirs s a) \<and> (entries (dirs s a) \<noteq> [] \<longrightarrow> entries (dirs s' a) = entries (dirs s a)))"

lemma grows_refl [simp]: "grows K s K s"
  by (simp add: grows_def)

lemma grows_trans: "grows K s K1 s1 \<Longrightarrow> grows K1 s1 K2 s2 \<Longrightarrow> grows K s K2 s2"
  unfolding grows_def by (metis subset_trans subset_iff)

lemma grows_known: "grows K s K' s' \<Longrightarrow> a \<in> K \<Longrightarrow> a \<in> K' \<and> d_inode_no (dirs s' a) = d_inode_no (dirs s a)"
  by (auto simp: grows_def)

text \<open>An entry for a record: a subdirectory is known and has the number of the record.\<close>

definition entry_for :: "('r \<Rightarrow> direntry_struct \<Rightarrow> bool) \<Rightarrow> ('r \<Rightarrow> bool) \<Rightarrow> ('r \<Rightarrow> u32) \<Rightarrow> addr set \<Rightarrow> 'z vfs_scheme \<Rightarrow> 'r \<Rightarrow> direntry_struct \<Rightarrow> bool" where
  "entry_for ok isdir rno K s r e \<longleftrightarrow> ok r e \<and> (isdir r \<longrightarrow> directory e \<in> K \<and> d_inode_no (dirs s (directory e)) = rno r)"

lemma entry_for_grows: "entry_for ok isdir rno K s r e \<Longrightarrow> grows K s K' s' \<Longrightarrow> entry_for ok isdir rno K' s' r e"
  by (auto simp: entry_for_def dest: grows_known)

section \<open>The interface\<close>

text \<open>
  \<open>holds K m s\<close>: the directories at \<open>K\<close> are those the kernel knows, and \<open>m\<close> more can be loaded.
\<close>

locale directory_source =
  fixes load :: "'z loader" and holds :: "addr set \<Rightarrow> nat \<Rightarrow> 'z vfs_scheme \<Rightarrow> bool"
    and recs :: "u32 \<Rightarrow> 'r list" and rname :: "'r \<Rightarrow> string" and rno :: "'r \<Rightarrow> u32" and isdir :: "'r \<Rightarrow> bool"
    and ok :: "'r \<Rightarrow> direntry_struct \<Rightarrow> bool"
  assumes spare: "holds K (Suc m) s \<Longrightarrow> holds K m s"
    and load: "holds K (Suc m) s \<Longrightarrow> a \<in> K \<Longrightarrow> entries (dirs s a) = [] \<Longrightarrow>
      \<exists>s' K'. get_direntries load a s = ret s' \<and> holds K' m s' \<and> grows K s K' s' \<and> entries (dirs s' a) \<noteq> []"
    and loaded: "holds K m s \<Longrightarrow> a \<in> K \<Longrightarrow> entries (dirs s a) \<noteq> [] \<Longrightarrow>
      list_all2 (entry_for ok isdir rno K s) (recs (d_inode_no (dirs s a))) (entries (dirs s a))"
    and entry: "ok r e \<Longrightarrow> de_name e = rname r \<and> (de_type e = F_DIR \<longleftrightarrow> isdir r)"
begin

lemma spare_some: "holds K (n + m) s \<Longrightarrow> holds K m s"
  by (induction n) (auto dest: spare)

lemma load_unless:
  assumes "holds K (Suc m) s" "a \<in> K"
  shows "\<exists>s' K'. (if entries (dirs s a) = [] then get_direntries load a s else ret s) = ret s' \<and> holds K' m s' \<and>
    grows K s K' s' \<and> entries (dirs s' a) \<noteq> []"
proof (cases "entries (dirs s a) = []")
  case False
  then show ?thesis using spare [OF assms(1)] by (intro exI [of _ s] exI [of _ K]) simp
qed (use load [OF assms] in simp)

text \<open>Path lookup finds what the tree of records has.\<close>

lemma walk_source:
  "holds K (length cs + m) s \<Longrightarrow> a \<in> K \<Longrightarrow> entries (dirs s a) \<noteq> [] \<Longrightarrow>
    \<exists>s' K'. holds K' m s' \<and> grows K s K' s' \<and>
      (case dir_walk rname rno isdir recs cs slash (d_inode_no (dirs s a)) of
         Inl err \<Rightarrow> walk load cs slash a s = ret (s', err, None)
       | Inr r \<Rightarrow> \<exists>e. walk load cs slash a s = ret (s', SUCCESS, Some e) \<and> ok r e)"
proof (induction cs arbitrary: K s a)
  case Nil
  then show ?case by (intro exI [of _ s] exI [of _ K]) simp
next
  case (Cons c cs)
  let ?ino = "d_inode_no (dirs s a)"
  have h: "holds K (Suc (length cs + m)) s" using Cons.prems(1) by simp
  have end_here: ?case if "case dir_walk rname rno isdir recs (c # cs) slash ?ino of
         Inl err \<Rightarrow> walk load (c # cs) slash a s = ret (s, err, None)
       | Inr r \<Rightarrow> \<exists>e. walk load (c # cs) slash a s = ret (s, SUCCESS, Some e) \<and> ok r e"
    using spare_some [OF Cons.prems(1)] that by (intro exI [of _ s] exI [of _ K]) simp
  have "case find (\<lambda>r. rname r = c) (recs ?ino) of None \<Rightarrow> find (\<lambda>e. de_name e = c) (entries (dirs s a)) = None
      | Some r \<Rightarrow> \<exists>e. find (\<lambda>e. de_name e = c) (entries (dirs s a)) = Some e \<and> entry_for ok isdir rno K s r e"
    using loaded [OF Cons.prems] by (rule find_list_all2) (use entry in \<open>auto simp: entry_for_def\<close>)
  then consider "find (\<lambda>r. rname r = c) (recs ?ino) = None" "find (\<lambda>e. de_name e = c) (entries (dirs s a)) = None"
    | r e where "find (\<lambda>r. rname r = c) (recs ?ino) = Some r" "find (\<lambda>e. de_name e = c) (entries (dirs s a)) = Some e"
        "entry_for ok isdir rno K s r e" by (auto split: option.splits)
  then show ?case
  proof cases
    case 1
    then show ?thesis by (intro end_here) simp
  next
    case 2
    then have e: "ok r e" "de_type e = F_DIR \<longleftrightarrow> isdir r" using entry by (auto simp: entry_for_def)
    show ?thesis
    proof (cases "cs = [] \<or> \<not> isdir r")
      case True
      then show ?thesis using 2(1,2) e by (intro end_here) auto
    next
      case False
      then have sub: "directory e \<in> K" "d_inode_no (dirs s (directory e)) = rno r" using 2(3) by (simp_all add: entry_for_def)
      from load_unless [OF h sub(1)] obtain s1 K1 where
        s1: "(if entries (dirs s (directory e)) = [] then get_direntries load (directory e) s else ret s) = ret s1"
          "holds K1 (length cs + m) s1" "grows K s K1 s1" "entries (dirs s1 (directory e)) \<noteq> []" by blast
      note k1 = grows_known [OF s1(3) sub(1)]
      from Cons.IH [OF s1(2) _ s1(4)] k1 obtain s' K' where s': "holds K' m s'" "grows K1 s1 K' s'"
          "case dir_walk rname rno isdir recs cs slash (rno r) of
             Inl err \<Rightarrow> walk load cs slash (directory e) s1 = ret (s', err, None)
           | Inr r \<Rightarrow> \<exists>e'. walk load cs slash (directory e) s1 = ret (s', SUCCESS, Some e') \<and> ok r e'"
        unfolding sub(2) [symmetric] by auto
      have w: "walk load (c # cs) slash a s = walk load cs slash (directory e) s1" using 2(2) False e s1(1) by simp
      have iw: "dir_walk rname rno isdir recs (c # cs) slash ?ino = dir_walk rname rno isdir recs cs slash (rno r)"
        using 2(1) False by simp
      show ?thesis unfolding w iw using s'(1,3) grows_trans [OF s1(3) s'(2)] by blast
    qed
  qed
qed

end

text \<open>A file system that says when it is asked to load a directory again, and whose types show what is a directory by the bit \<open>F_DIR\<close>.\<close>

locale printing_source = directory_source load holds recs rname rno isdir ok
  for load :: "'z loader" and holds and recs :: "u32 \<Rightarrow> 'r list" and rname and rno and isdir and ok +
  fixes fetch :: "'z fetcher" and warning :: string
  assumes fetch_new: "holds K (Suc m) s \<Longrightarrow> a \<in> K \<Longrightarrow> entries (dirs s a) = [] \<Longrightarrow> get_direntries load a s = ret s' \<Longrightarrow>
      fetch a (s, out) = ret (s', out)"
    and fetch_again: "holds K m s \<Longrightarrow> a \<in> K \<Longrightarrow> entries (dirs s a) \<noteq> [] \<Longrightarrow> fetch a (s, out) = ret (s, out @ [warning])"
    and plain: "holds K m s \<Longrightarrow> a \<in> K \<Longrightarrow> e \<in> set (entries (dirs s a)) \<Longrightarrow> (de_type e AND F_DIR = 0) = (de_type e \<noteq> F_DIR)"
    and no_line: "0 < level \<Longrightarrow> tree_line level name \<noteq> warning"
begin

lemma fetch_source:
  assumes "holds K (Suc m) s" "a \<in> K"
  shows "\<exists>s' K' w. fetch a (s, out) = ret (s', out @ w) \<and> filter (\<lambda>l. l \<noteq> warning) w = [] \<and> holds K' m s' \<and> grows K s K' s' \<and>
    entries (dirs s' a) \<noteq> []"
proof (cases "entries (dirs s a) = []")
  case True
  from load [OF assms True] obtain s' K' where "get_direntries load a s = ret s'" "holds K' m s'" "grows K s K' s'" "entries (dirs s' a) \<noteq> []"
    by blast
  then show ?thesis using fetch_new [OF assms True] by (intro exI [of _ s'] exI [of _ K'] exI [of _ "[]"]) simp
next
  case False
  then show ?thesis using fetch_again [OF assms(1,2) False] spare [OF assms(1)]
    by (intro exI [of _ s] exI [of _ K] exI [of _ "[warning]"]) simp
qed

text \<open>What is printed is the listing, apart from warnings.\<close>

lemma print_source:
  "holds K (1 + length ls + m) s \<Longrightarrow> a \<in> K \<Longrightarrow> 0 < level \<Longrightarrow> dir_lines d rname rno isdir recs level (d_inode_no (dirs s a)) = Some ls \<Longrightarrow>
    \<exists>s' K' w. print_dir fetch a level (s, out) = ret (s', out @ w) \<and> filter (\<lambda>l. l \<noteq> warning) w = ls \<and> holds K' m s' \<and> grows K s K' s'"
proof (induction d arbitrary: K s a level ls out m)
  case (Suc d)
  let ?ino = "d_inode_no (dirs s a)"
  let ?line = "\<lambda>r. if rname r = ''.'' \<or> rname r = ''..'' then Some []
     else map_option ((#) (tree_line level (rname r)))
            (if isdir r then dir_lines d rname rno isdir recs (level + 1) (rno r) else Some [])"
  have "holds K (Suc (length ls + m)) s" using Suc.prems(1) by simp
  from fetch_source [OF this Suc.prems(2)] obtain s1 K1 w1 where
    f: "fetch a (s, out) = ret (s1, out @ w1)" "filter (\<lambda>l. l \<noteq> warning) w1 = []" "holds K1 (length ls + m) s1" "grows K s K1 s1"
      "entries (dirs s1 a) \<noteq> []" by blast
  note a1 = grows_known [OF f(4) Suc.prems(2)]
  have nodes: "list_all2 (entry_for ok isdir rno K1 s1) (recs ?ino) (entries (dirs s1 a))" using loaded [OF f(3) _ f(5)] a1 by simp
  have walk: "\<exists>s' K' w. print_entries fetch level es (s2, out2) = ret (s', out2 @ w) \<and> filter (\<lambda>l. l \<noteq> warning) w = concat lss \<and>
      holds K' m s' \<and> grows K2 s2 K' s'"
    if "list_all2 (entry_for ok isdir rno K2 s2) rs es" "set es \<subseteq> set (entries (dirs s1 a))" "those (map ?line rs) = Some lss" "holds K2 (length (concat lss) + m) s2" for rs es lss K2 s2 out2
    using that
  proof (induction rs arbitrary: es lss K2 s2 out2)
    case Nil
    then show ?case by (intro exI [of _ s2] exI [of _ K2] exI [of _ "[]"]) simp
  next
    case (Cons r rs)
    then obtain e es' where es: "es = e # es'" "entry_for ok isdir rno K2 s2 r e" "list_all2 (entry_for ok isdir rno K2 s2) rs es'"
      by (auto simp: list_all2_Cons1)
    then have ty: "de_name e = rname r" "(de_type e AND F_DIR = 0) = (\<not> isdir r)"
      using entry plain [OF f(3), of a e] a1 Cons.prems(2) by (auto simp: entry_for_def)
    obtain l lss' where l: "lss = l # lss'" "?line r = Some l" "those (map ?line rs) = Some lss'"
      using Cons.prems(3) by (auto split: option.splits)
    let ?n = "length (concat lss') + m"
    have h: "holds K2 (length l + ?n) s2" using Cons.prems(4) by (simp add: l(1) add.assoc)
    have "\<exists>s3 K3 w3. (if de_name e = ''.'' \<or> de_name e = ''..'' then ret (s2, out2)
         else if de_type e AND F_DIR = 0 then ret (s2, out2 @ [tree_line level (de_name e)])
         else print_dir fetch (directory e) (level + 1) (s2, out2 @ [tree_line level (de_name e)])) = ret (s3, out2 @ w3) \<and>
       filter (\<lambda>l. l \<noteq> warning) w3 = l \<and> holds K3 ?n s3 \<and> grows K2 s2 K3 s3"
    proof -
      consider "rname r = ''.'' \<or> rname r = ''..''" | "\<not> (rname r = ''.'' \<or> rname r = ''..'')" "\<not> isdir r"
        | "\<not> (rname r = ''.'' \<or> rname r = ''..'')" "isdir r" by blast
      then show ?thesis
      proof cases
        case 1
        then show ?thesis using l(2) h ty by (intro exI [of _ s2] exI [of _ K2] exI [of _ "[]"]) auto
      next
        case 2
        then show ?thesis using l(2) spare_some [OF h] ty no_line [OF Suc.prems(3)]
          by (intro exI [of _ s2] exI [of _ K2] exI [of _ "[tree_line level (de_name e)]"]) auto
      next
        case 3
        then obtain sub where sub: "dir_lines d rname rno isdir recs (level + 1) (rno r) = Some sub" "l = tree_line level (rname r) # sub"
          using l(2) by auto
        have dir: "directory e \<in> K2" "d_inode_no (dirs s2 (directory e)) = rno r" using es(2) 3(2) by (simp_all add: entry_for_def)
        have h3: "holds K2 (1 + length sub + ?n) s2" using h by (simp add: sub(2))
        obtain s' K' w where "print_dir fetch (directory e) (level + 1) (s2, out2 @ [tree_line level (de_name e)]) =
            ret (s', (out2 @ [tree_line level (de_name e)]) @ w)" "filter (\<lambda>l. l \<noteq> warning) w = sub" "holds K' ?n s'" "grows K2 s2 K' s'"
          using Suc.IH [OF h3 dir(1), of "level + 1" "out2 @ [tree_line level (de_name e)]"] sub(1) dir(2) by auto
        then show ?thesis using 3 ty sub(2) no_line [OF Suc.prems(3)]
          by (intro exI [of _ s'] exI [of _ K'] exI [of _ "tree_line level (de_name e) # w"]) auto
      qed
    qed
    then obtain s3 K3 w3 where 3: "(if de_name e = ''.'' \<or> de_name e = ''..'' then ret (s2, out2)
         else if de_type e AND F_DIR = 0 then ret (s2, out2 @ [tree_line level (de_name e)])
         else print_dir fetch (directory e) (level + 1) (s2, out2 @ [tree_line level (de_name e)])) = ret (s3, out2 @ w3)"
      "filter (\<lambda>l. l \<noteq> warning) w3 = l" "holds K3 ?n s3" "grows K2 s2 K3 s3" by blast
    have "list_all2 (entry_for ok isdir rno K3 s3) rs es'"
      using es(3) by (rule list_all2_mono) (rule entry_for_grows [OF _ 3(4)])
    from Cons.IH [OF this _ l(3) 3(3), of "out2 @ w3"] es(1) Cons.prems(2) obtain s' K' w where
      4: "print_entries fetch level es' (s3, out2 @ w3) = ret (s', (out2 @ w3) @ w)" "filter (\<lambda>l. l \<noteq> warning) w = concat lss'"
        "holds K' m s'" "grows K3 s3 K' s'" by auto
    have "print_entries fetch level es (s2, out2) = ret (s', out2 @ (w3 @ w))"
      using 3(1) 4(1) by (auto simp: es(1) split: if_splits)
    then show ?case using 3(2) 4(2,3) grows_trans [OF 3(4) 4(4)]
      by (intro exI [of _ s'] exI [of _ K'] exI [of _ "w3 @ w"]) (simp add: l(1))
  qed
  obtain lss where lss: "those (map ?line (recs ?ino)) = Some lss" "ls = concat lss" using Suc.prems(4) by auto
  from walk [OF nodes order_refl lss(1) f(3) [unfolded lss(2)], of "out @ w1"] obtain s' K' w where
    "print_entries fetch level (entries (dirs s1 a)) (s1, out @ w1) = ret (s', (out @ w1) @ w)" "filter (\<lambda>l. l \<noteq> warning) w = ls"
    "holds K' m s'" "grows K1 s1 K' s'" unfolding lss(2) by blast
  then show ?case using f(1,2) grows_trans [OF f(4)]
    by (intro exI [of _ s'] exI [of _ K'] exI [of _ "w1 @ w"]) (simp add: print_dir_def)
qed simp

end

end
