(* ===== verification/Ext2_Tree.thy ===== *)
theory Ext2_Tree
  imports Ext2_Lookup Fs_Interface
begin

text \<open>
  Whole directory trees: \<open>Ext2\<close> and \<open>Vfs\<close> on a file system with subdirectories. \<open>image_tree\<close> says what the directories
  of the image hold; \<open>tree\<close> is the invariant of the directories the kernel has built so far, which loading
  another one keeps, and so the driver provides the interface of \<open>Fs_Interface\<close>. \<open>image_walk\<close> looks a path up in the image;
  the kernel, loading directories as it meets them, finds the same.
\<close>

section \<open>The image\<close>

definition rec_is_dir :: "ext2fs_struct \<Rightarrow> bytes \<Rightarrow> ext2_rec \<Rightarrow> bool" where
  "rec_is_dir fs disk r \<longleftrightarrow> ucast (i_mode (inode_at fs disk (r_ino r))) AND 0xf000 = F_DIR"

definition first_block :: "ext2fs_struct \<Rightarrow> bytes \<Rightarrow> u32 \<Rightarrow> nat" where
  "first_block fs disk ino = unat (i_block (inode_at fs disk ino) 0) * unat (block_size fs)"

text \<open>
  \<open>dnos\<close> are the numbers of the directories and \<open>recs\<close> the records in the first block of each: the block lies on the
  partition, every record has an inode in range, and the type of a record says whether its inode is a directory.
\<close>

definition image_tree :: "ext2fs_struct \<Rightarrow> bytes \<Rightarrow> nat \<Rightarrow> u32 set \<Rightarrow> (u32 \<Rightarrow> ext2_rec list) \<Rightarrow> bool" where
  "image_tree fs disk n dnos recs \<longleftrightarrow> (\<forall>ino\<in>dnos. inode_ok fs n ino \<and>
     first_block fs disk ino + unat (block_size fs) \<le> 512 * n \<and>
     dir_layout (\<lambda>k. disk (first_block fs disk ino + k)) 0 (recs ino) (unat (block_size fs)) \<and>
     (\<forall>r\<in>set (recs ino). inode_ok fs n (r_ino r) \<and> (r_type r = 2 \<longleftrightarrow> rec_is_dir fs disk r) \<and>
        (r_type r = 2 \<longrightarrow> r_ino r \<in> dnos)))"

text \<open>A path in the image: the record it ends at, or the error.\<close>

abbreviation image_walk :: "ext2fs_struct \<Rightarrow> bytes \<Rightarrow> (u32 \<Rightarrow> ext2_rec list) \<Rightarrow> string list \<Rightarrow> bool \<Rightarrow> u32 \<Rightarrow> s32 + ext2_rec" where
  "image_walk fs disk \<equiv> dir_walk rec_name r_ino (rec_is_dir fs disk)"

text \<open>An entry that shows a record of the image.\<close>

definition entry_of :: "ext2fs_struct \<Rightarrow> bytes \<Rightarrow> ext2_rec \<Rightarrow> direntry_struct \<Rightarrow> bool" where
  "entry_of fs disk r e \<longleftrightarrow> (let inode = inode_at fs disk (r_ino r) in
     de_name e = rec_name r \<and> de_inode_no e = r_ino r \<and> de_mode e = i_mode inode \<and>
     de_type e = ucast (i_mode inode) AND 0xf000 \<and> de_size e = i_size inode \<and> de_blocks e = i_blocks inode)"

lemma describes_entry: "describes fs disk a d r e \<Longrightarrow> entry_of fs disk r e"
  by (simp add: describes_def entry_of_def rec_name_def Let_def)

lemma entry_of_dir: "entry_of fs disk r e \<Longrightarrow> de_type e = F_DIR \<longleftrightarrow> rec_is_dir fs disk r"
  by (simp add: entry_of_def rec_is_dir_def Let_def)

section \<open>What one turn changes\<close>

lemma alloc_frame: "alloc s = ret (p, s') \<Longrightarrow> s' = s\<lparr>e_heap := drop 1 (e_heap s)\<rparr> \<and> p \<in> set (e_heap s)"
  by (auto simp: alloc_def split: list.splits)

lemma get_inode_frame:
  "direntry_get_inode ino mnt p s = ret (q, s') \<Longrightarrow> \<exists>k. s' = s\<lparr>e_heap := drop k (e_heap s)\<rparr>"
proof -
  have "\<exists>k. t = t\<lparr>e_heap := drop k (e_heap t)\<rparr>" for t :: ext2_state by (rule exI [of _ 0]) simp
  moreover assume "direntry_get_inode ino mnt p s = ret (q, s')"
  ultimately show ?thesis
    by (auto simp: direntry_get_inode_def bindX_eq_ret split: option.splits prod.splits if_splits dest!: alloc_frame)
qed

text \<open>What stays when the heap is used up and payloads are written.\<close>

definition used :: "ext2_state \<Rightarrow> ext2_state \<Rightarrow> bool" where
  "used s s' \<longleftrightarrow> root_dir s' = root_dir s \<and> root_direntry s' = root_direntry s \<and> dirs s' = dirs s \<and> (\<exists>k. e_heap s' = drop k (e_heap s))"

lemma enter_frame:
  assumes "enter de p owner s = ret (de', s')"
  shows "used s s' \<and> directory de' = directory de"
proof -
  have u: "used s (s\<lparr>e_heap := drop k (e_heap s)\<rparr>)" "used s (s\<lparr>e_heap := drop k (e_heap s), e_payload := pl\<rparr>)" for k pl
    by (auto simp: used_def)
  show ?thesis using assms u
    by (auto simp: enter_def get_direntry_def bindX_eq_ret split: option.splits prod.splits if_splits dest!: get_inode_frame)
qed

text \<open>The directory of an entry is the directory itself, its parent, or a new one at an address from the heap.\<close>

definition fresh_dir :: "addr \<Rightarrow> u32 \<Rightarrow> ext2_state \<Rightarrow> dir_struct" where
  "fresh_dir dir ino s = \<lparr>d_inode_no = ino, d_fs_info = d_fs_info (dirs s dir), d_mnt_point = d_mnt_point (dirs s dir),
     d_parent = dir, entries = []\<rparr>"

lemma new_entry_frame:
  assumes e: "new_entry dir b d i s = ret (e, s')" and dist: "distinct (map fst (e_heap s))"
  shows "root_dir s' = root_dir s \<and> root_direntry s' = root_direntry s \<and> (\<exists>k. e_heap s' = drop k (e_heap s)) \<and>
    (dirs s' = dirs s \<and> (file_type d = 2 \<longrightarrow> directory e \<in> {dir, d_parent (dirs s dir)} \<and> ed_inode d = d_inode_no (dirs s (directory e))) \<or>
     file_type d = 2 \<and> directory e \<in> fst ` set (e_heap s) \<and> directory e \<notin> fst ` set (e_heap s') \<and>
       dirs s' = (dirs s)(directory e := fresh_dir dir (ed_inode d) s))"
proof -
  obtain a raw s1 where 1: "alloc s = ret ((a, raw), s1)" using e unfolding new_entry_def by (elim bindX_retE) (auto split: prod.splits)
  have s1: "s1 = s\<lparr>e_heap := drop 1 (e_heap s)\<rparr>" using alloc_frame [OF 1] by simp
  let ?e = "fresh_entry dir b d i raw" and ?par = "d_parent (dirs s dir)"
  have old: ?thesis if "enter x p owner s1 = ret (e, s')"
    "file_type d = 2 \<longrightarrow> directory x \<in> {dir, ?par} \<and> ed_inode d = d_inode_no (dirs s (directory x))" for x p owner
    using enter_frame [OF that(1)] that(2) by (auto simp: used_def s1)
  consider "file_type d = 2" "ed_inode d = d_inode_no (dirs s dir)"
    | "file_type d = 2" "ed_inode d \<noteq> d_inode_no (dirs s dir)" "ed_inode d = d_inode_no (dirs s ?par)"
    | "file_type d = 2" "ed_inode d \<noteq> d_inode_no (dirs s dir)" "ed_inode d \<noteq> d_inode_no (dirs s ?par)"
    | "file_type d \<noteq> 2" by blast
  then show ?thesis
  proof cases
    case 1
    then have "enter (?e\<lparr>directory := dir\<rparr>) (e_payload s dir) (map_option (\<lambda>_. dir) (e_payload s dir)) s1 = ret (e, s')"
      using e \<open>alloc s = _\<close> by (simp add: new_entry_def s1 Let_def)
    from old [OF this] 1 show ?thesis by simp
  next
    case 2
    then have "enter (?e\<lparr>directory := ?par\<rparr>) (e_payload s ?par) (map_option (\<lambda>_. ?par) (e_payload s ?par)) s1 = ret (e, s')"
      using e \<open>alloc s = _\<close> by (simp add: new_entry_def s1 Let_def)
    from old [OF this] 2 show ?thesis by simp
  next
    case 3
    then obtain sub raw2 s2 where 2: "alloc s1 = ret ((sub, raw2), s2)"
      "enter (?e\<lparr>directory := sub\<rparr>) None (Some sub) (new_dir dir (ed_inode d) sub s2) = ret (e, s')"
      using e 1 by (auto simp: new_entry_def s1 Let_def bindX_eq_ret split: if_splits)
    have s2: "s2 = s1\<lparr>e_heap := drop 1 (e_heap s1)\<rparr>" "(sub, raw2) \<in> set (e_heap s1)" using alloc_frame [OF 2(1)] by simp_all
    have hd: "e_heap s1 = (sub, raw2) # e_heap s2" using 2(1) by (auto simp: alloc_def split: list.splits)
    obtain k where k: "e_heap s' = drop k (e_heap s2)" "root_dir s' = root_dir s" "root_direntry s' = root_direntry s"
      "dirs s' = (dirs s)(sub := fresh_dir dir (ed_inode d) s)" "directory e = sub"
      using enter_frame [OF 2(2)] by (auto simp: used_def new_dir_def fresh_dir_def s2(1) s1)
    have "distinct (map fst (e_heap s1))" using dist by (simp add: s1 flip: drop_map)
    then have "sub \<notin> fst ` set (e_heap s2)" unfolding hd by simp
    then have nin: "sub \<notin> fst ` set (e_heap s')" unfolding k(1) by (meson image_mono set_drop_subset subsetD)
    have sin: "sub \<in> fst ` set (e_heap s)" using s2(2) by (force simp: s1 dest: in_set_dropD)
    have "\<exists>k. e_heap s' = drop k (e_heap s)" unfolding k(1) s2(1) s1 by (rule exI [of _ "k + 2"]) simp
    then show ?thesis using 3(1) k(2-5) nin sin by simp
  next
    case 4
    then have "enter ?e None None s1 = ret (e, s')"
      using e 1 by (simp add: new_entry_def s1 Let_def split: if_splits)
    from old [OF this] 4 show ?thesis by simp
  qed
qed

section \<open>The invariant\<close>

definition heap_fresh :: "addr set \<Rightarrow> (addr \<times> bytes) list \<Rightarrow> bool" where
  "heap_fresh K h \<longleftrightarrow> distinct (map fst h) \<and> (\<forall>(a, raw)\<in>set h. buf32 raw payload_offset = 0 \<and> a \<noteq> 0 \<and> a \<notin> K)"

lemma heap_fresh_drop: "heap_fresh K h \<Longrightarrow> heap_fresh K (drop k h)"
  by (auto simp: heap_fresh_def simp flip: drop_map dest: in_set_dropD)

text \<open>An entry of a known directory: a subdirectory is known too and has the number of its record.\<close>

definition node :: "ext2fs_struct \<Rightarrow> bytes \<Rightarrow> addr set \<Rightarrow> ext2_state \<Rightarrow> addr \<Rightarrow> ext2_rec \<Rightarrow> direntry_struct \<Rightarrow> bool" where
  "node fs disk K s a r e \<longleftrightarrow> describes fs disk a (dirs s a) r e \<and>
     (r_type r = 2 \<longrightarrow> directory e \<in> K \<and> d_inode_no (dirs s (directory e)) = r_ino r)"

text \<open>
  The directories \<open>K\<close> that are known: each belongs to the file system \<open>mnt\<close>, has the number of a directory of the
  image, and is either not loaded or has one entry for each of its records.
\<close>

definition known_dir :: "addr \<Rightarrow> ext2fs_struct \<Rightarrow> bytes \<Rightarrow> u32 set \<Rightarrow> (u32 \<Rightarrow> ext2_rec list) \<Rightarrow> addr set \<Rightarrow> ext2_state \<Rightarrow> addr \<Rightarrow> bool" where
  "known_dir mnt fs disk dnos recs K s a \<longleftrightarrow> a \<noteq> 0 \<and> d_fs_info (dirs s a) = mnt \<and> d_inode_no (dirs s a) \<in> dnos \<and>
     d_parent (dirs s a) \<in> K \<and>
     (entries (dirs s a) \<noteq> [] \<longrightarrow> list_all2 (node fs disk K s a) (recs (d_inode_no (dirs s a))) (entries (dirs s a)))"

definition tree :: "addr \<Rightarrow> ext2fs_struct \<Rightarrow> nat \<Rightarrow> bytes \<Rightarrow> u32 set \<Rightarrow> (u32 \<Rightarrow> ext2_rec list) \<Rightarrow> addr set \<Rightarrow> ext2_state \<Rightarrow> bool" where
  "tree mnt fs n disk dnos recs K s \<longleftrightarrow> mnt \<noteq> 0 \<and> e_mounts s mnt = fs \<and> inode_size (superblock fs) = 128 \<and>
     part_image s (fs_part fs) n disk \<and> heap_fresh K (e_heap s) \<and> (\<forall>a\<in>K. known_dir mnt fs disk dnos recs K s a)"

lemma node_grows: "node fs disk K s a r e \<Longrightarrow> grows K s K' s' \<Longrightarrow> a \<in> K \<Longrightarrow> node fs disk K' s' a r e"
  by (auto simp: node_def grows_def describes_def Let_def)

lemma known_dir_grows:
  assumes "known_dir mnt fs disk dnos recs K s a" "grows K s K' s'" "a \<in> K"
    and "entries (dirs s' a) \<noteq> [] \<Longrightarrow> entries (dirs s a) \<noteq> []"
  shows "known_dir mnt fs disk dnos recs K' s' a"
proof -
  have same: "d_inode_no (dirs s' a) = d_inode_no (dirs s a)" "d_fs_info (dirs s' a) = d_fs_info (dirs s a)"
    "d_parent (dirs s' a) = d_parent (dirs s a)" "K \<subseteq> K'" using assms(2,3) by (auto simp: grows_def)
  have "list_all2 (node fs disk K' s' a) (recs (d_inode_no (dirs s a))) (entries (dirs s' a))" if "entries (dirs s' a) \<noteq> []"
  proof -
    have "entries (dirs s' a) = entries (dirs s a)" using assms(2,3,4) that by (auto simp: grows_def)
    moreover have "list_all2 (node fs disk K s a) (recs (d_inode_no (dirs s a))) (entries (dirs s a))"
      using assms(1,4) that by (simp add: known_dir_def)
    ultimately show ?thesis using node_grows [OF _ assms(2,3)] by (auto elim: list_all2_mono)
  qed
  then show ?thesis using assms(1) same by (auto simp: known_dir_def)
qed

lemma tree_loading: "tree mnt fs n disk dnos recs K s \<Longrightarrow> a \<in> K \<Longrightarrow> loading a mnt fs n disk (dirs s a) s"
  by (auto simp: tree_def known_dir_def loading_def heap_fresh_def)

text \<open>A state in which only addresses and payloads were taken from the heap.\<close>

lemma known_dir_dirs: "dirs s' = dirs s \<Longrightarrow> known_dir mnt fs disk dnos recs K s' a = known_dir mnt fs disk dnos recs K s a"
proof -
  assume d: "dirs s' = dirs s"
  then have "node fs disk K s' a = node fs disk K s a" by (intro ext) (simp add: node_def)
  with d show ?thesis by (simp add: known_dir_def)
qed

lemma tree_used:
  assumes "tree mnt fs n disk dnos recs K s"
  shows "tree mnt fs n disk dnos recs K (s\<lparr>e_heap := drop k (e_heap s), e_payload := pl\<rparr>)"
proof -
  let ?s = "s\<lparr>e_heap := drop k (e_heap s), e_payload := pl\<rparr>"
  have "known_dir mnt fs disk dnos recs K ?s a = known_dir mnt fs disk dnos recs K s a" for a
    by (rule known_dir_dirs) simp
  moreover have "part_image ?s (fs_part fs) n disk = part_image s (fs_part fs) n disk" by (simp add: part_image_def hdd_read_def)
  ultimately show ?thesis using assms heap_fresh_drop [of K "e_heap s" k] by (simp add: tree_def)
qed

lemma new_entry_tree:
  assumes t: "tree mnt fs n disk dnos recs K s" and dir: "dir \<in> K" and lay: "dir_layout b i (r # rest) stop"
    and ok: "inode_ok fs n (r_ino r)" "r_type r = 2 \<longrightarrow> r_ino r \<in> dnos" and h: "3 \<le> length (e_heap s)"
  shows "\<exists>e s' K'. new_entry dir b (read_direntry b i) i s = ret (e, s') \<and> tree mnt fs n disk dnos recs K' s' \<and>
    grows K s K' s' \<and> (\<forall>a\<in>K. entries (dirs s' a) = entries (dirs s a)) \<and> node fs disk K' s' dir r e \<and>
    length (e_heap s) \<le> length (e_heap s') + 3"
proof -
  let ?d = "read_direntry b i"
  have d: "ed_inode ?d = r_ino r" "file_type ?d = r_type r" using lay by simp_all
  have fr: "heap_fresh K (e_heap s)" "\<forall>a\<in>K. known_dir mnt fs disk dnos recs K s a" using t by (simp_all add: tree_def)
  from new_entry_ok [OF tree_loading [OF t dir] lay ok(1) h] obtain e s' where
    e: "new_entry dir b ?d i s = ret (e, s')" "describes fs disk dir (dirs s dir) r e"
      "loading dir mnt fs n disk (dirs s dir) s'" "length (e_heap s) \<le> length (e_heap s') + 3" by blast
  have dist: "distinct (map fst (e_heap s))" using fr(1) by (simp add: heap_fresh_def)
  note f = new_entry_frame [OF e(1) dist, unfolded d]
  have fr': "heap_fresh K (e_heap s')" using f heap_fresh_drop [OF fr(1)] by auto
  have m: "mnt \<noteq> 0" "e_mounts s' mnt = fs" "inode_size (superblock fs) = 128" "part_image s' (fs_part fs) n disk"
    using e(3) by (simp_all add: loading_def)
  show ?thesis
  proof (cases "dirs s' = dirs s \<and> (r_type r = 2 \<longrightarrow> directory e \<in> {dir, d_parent (dirs s dir)} \<and> r_ino r = d_inode_no (dirs s (directory e)))")
    case True
    have g: "grows K s K s'" using f True by (simp add: grows_def)
    have k: "\<forall>a\<in>K. known_dir mnt fs disk dnos recs K s' a"
      using fr(2) known_dir_dirs [of s' s] True by simp
    have "directory e \<in> K \<and> d_inode_no (dirs s (directory e)) = r_ino r" if "r_type r = 2"
    proof -
      have "d_parent (dirs s dir) \<in> K" using fr(2) dir by (simp add: known_dir_def)
      then show ?thesis using dir True that by auto
    qed
    then have "node fs disk K s' dir r e" using e(2) True by (simp add: node_def)
    moreover have "tree mnt fs n disk dnos recs K s'" using m fr' k by (simp add: tree_def)
    ultimately show ?thesis using e(1,4) g True by auto
  next
    case False
    let ?K = "insert (directory e) K"
    from False f have n: "r_type r = 2" "directory e \<in> fst ` set (e_heap s)" "directory e \<notin> fst ` set (e_heap s')"
      "dirs s' = (dirs s)(directory e := fresh_dir dir (r_ino r) s)" "root_dir s' = root_dir s" "root_direntry s' = root_direntry s" by auto
    then have new: "directory e \<notin> K" "directory e \<noteq> 0" using fr(1) by (auto simp: heap_fresh_def)
    then have same: "\<forall>a\<in>K. dirs s' a = dirs s a" unfolding n(4) by auto
    then have g: "grows K s ?K s'" using n(5,6) by (auto simp: grows_def)
    have fi: "d_fs_info (dirs s dir) = mnt" using fr(2) dir by (simp add: known_dir_def)
    have "known_dir mnt fs disk dnos recs ?K s' a" if "a \<in> ?K" for a
    proof (cases "a = directory e")
      case True
      then show ?thesis using n(1,4) new(2) ok(2) fi dir by (simp add: known_dir_def fresh_dir_def)
    next
      case False
      then show ?thesis using that fr(2) same known_dir_grows [OF _ g, of mnt fs disk dnos recs a] by auto
    qed
    moreover have "heap_fresh ?K (e_heap s')" using fr' n(3) by (force simp: heap_fresh_def)
    ultimately have "tree mnt fs n disk dnos recs ?K s'" using m by (simp add: tree_def)
    moreover have "node fs disk ?K s' dir r e" using e(2) same dir n(4) by (simp add: node_def fresh_dir_def)
    ultimately show ?thesis using e(1,4) g same by (intro exI [of _ e] exI [of _ s'] exI [of _ ?K]) auto
  qed
qed

section \<open>Loading a directory of the tree\<close>

lemma entry_loop_tree:
  assumes t: "tree mnt fs n disk dnos recs K s" and dir: "dir \<in> K" and lay: "dir_layout b 0 rs (unat bsize)"
    and ok: "\<forall>r\<in>set rs. inode_ok fs n (r_ino r) \<and> (r_type r = 2 \<longrightarrow> r_ino r \<in> dnos)" and h: "3 * length rs \<le> length (e_heap s)"
  shows "\<exists>es s' K'. entry_loop bsize dir b 0 [] s = ret (es, s') \<and> tree mnt fs n disk dnos recs K' s' \<and> grows K s K' s' \<and>
    list_all2 (node fs disk K' s' dir) rs es \<and> length (e_heap s) \<le> length (e_heap s') + 3 * length rs"
proof -
  define J where "J ds es s' \<longleftrightarrow> (\<exists>K'. tree mnt fs n disk dnos recs K' s' \<and> grows K s K' s' \<and> list_all2 (node fs disk K' s' dir) ds es)" for ds es s'
  define P where "P r \<longleftrightarrow> inode_ok fs n (r_ino r) \<and> (r_type r = 2 \<longrightarrow> r_ino r \<in> dnos)" for r :: ext2_rec
  have step: "\<exists>e s'. new_entry dir b (read_direntry b pos) pos s1 = ret (e, s') \<and> J (ds @ [r]) (es @ [e]) s' \<and> length (e_heap s1) \<le> length (e_heap s') + 3"
    if j: "J ds es s1" and r: "P r" "dir_layout b pos (r # rest) (unat bsize)" "3 \<le> length (e_heap s1)" for r ds es pos rest s1
  proof -
    from j obtain K1 where K1: "tree mnt fs n disk dnos recs K1 s1" "grows K s K1 s1" "list_all2 (node fs disk K1 s1 dir) ds es"
      by (auto simp: J_def)
    have d1: "dir \<in> K1" using K1(2) dir by (auto simp: grows_def)
    from new_entry_tree [OF K1(1) d1 r(2) _ _ r(3)] r(1) obtain e s' K' where
      e: "new_entry dir b (read_direntry b pos) pos s1 = ret (e, s')" "tree mnt fs n disk dnos recs K' s'" "grows K1 s1 K' s'"
        "node fs disk K' s' dir r e" "length (e_heap s1) \<le> length (e_heap s') + 3" unfolding P_def by blast
    have "list_all2 (node fs disk K' s' dir) ds es"
      using K1(3) by (rule list_all2_mono) (rule node_grows [OF _ e(3) d1])
    then have "J (ds @ [r]) (es @ [e]) s'"
      unfolding J_def using e(2,4) grows_trans [OF K1(2) e(3)] by (intro exI [of _ K']) (simp add: list_all2_appendI)
    with e(1,5) show ?thesis by blast
  qed
  have J0: "J [] [] s" unfolding J_def using t by (intro exI [of _ K]) simp
  have P0: "\<forall>r\<in>set rs. P r" using ok by (simp add: P_def)
  have "\<exists>es' s'. entry_loop bsize dir b (of_nat 0) [] s = ret (es', s') \<and> J ([] @ rs) es' s' \<and>
      length (e_heap s) \<le> length (e_heap s') + 3 * length rs"
    by (rule entry_loop_inv [where J = J and P = P], rule step, assumption+) (use h J0 P0 lay in simp_all)
  then show ?thesis unfolding J_def by auto
qed

lemma load_tree:
  assumes t: "tree mnt fs n disk dnos recs K s" and dir: "dir \<in> K" "entries (dirs s dir) = []" "d_inode_no (dirs s dir) = ino"
    and im: "image_tree fs disk n dnos recs" and bs: "block_size fs \<noteq> 0" "unat (block_size fs) mod 512 = 0"
    and h: "1 + 3 * length (recs ino) \<le> length (e_heap s)"
  shows "\<exists>s' K'. ext2_get_direntries dir s = ret (s', SUCCESS) \<and> tree mnt fs n disk dnos recs K' s' \<and> grows K s K' s' \<and>
    entries (dirs s' dir) \<noteq> [] \<and> length (e_heap s) \<le> length (e_heap s') + (1 + 3 * length (recs ino))"
proof -
  have kd: "\<forall>a\<in>K. known_dir mnt fs disk dnos recs K s a" using t by (simp add: tree_def)
  then have d: "dir \<noteq> 0" "ino \<in> dnos" "d_parent (dirs s dir) \<in> K" using dir by (auto simp: known_dir_def)
  then have pm: "d_fs_info (dirs s (d_parent (dirs s dir))) = mnt" using kd by (simp add: known_dir_def)
  have i: "inode_ok fs n ino" "first_block fs disk ino + unat (block_size fs) \<le> 512 * n"
    "dir_layout (\<lambda>k. disk (first_block fs disk ino + k)) 0 (recs ino) (unat (block_size fs))"
    "\<forall>r\<in>set (recs ino). inode_ok fs n (r_ino r) \<and> (r_type r = 2 \<longrightarrow> r_ino r \<in> dnos)"
    using im d(2) by (simp_all add: image_tree_def)
  have ne: "e_heap s \<noteq> []" using h by auto
  have i': "inode_ok fs n (d_inode_no (dirs s dir))"
    "first_block fs disk ino = unat (i_block (inode_at fs disk (d_inode_no (dirs s dir))) 0) * unat (block_size fs)"
    using i(1) dir(3) by (simp_all add: first_block_def)
  obtain k inode b where rd: "k \<le> 1" "dir_layout b 0 (recs ino) (unat (block_size fs))"
    "\<And>es s'. entry_loop (block_size fs) dir b 0 [] (s\<lparr>e_heap := drop k (e_heap s), e_payload := (e_payload s)(dir := Some inode)\<rparr>) = ret (es, s') \<Longrightarrow>
      ext2_get_direntries dir s = ret (s'\<lparr>dirs := (dirs s')(dir := (dirs s' dir)\<lparr>entries := es\<rparr>)\<rparr>, SUCCESS)"
    by (rule get_direntries_reads [OF tree_loading [OF t dir(1)] d(1) dir(2) pm i'(1) bs i'(2) i(2,3) ne]) blast
  let ?s = "s\<lparr>e_heap := drop k (e_heap s), e_payload := (e_payload s)(dir := Some inode)\<rparr>"
  have gs: "grows K s K ?s" by (simp add: grows_def)
  have ts: "tree mnt fs n disk dnos recs K ?s" by (rule tree_used [OF t])
  have "3 * length (recs ino) \<le> length (e_heap ?s)" using h rd(1) by simp
  from entry_loop_tree [OF ts dir(1) rd(2) i(4) this] obtain es s2 K2 where
    l: "entry_loop (block_size fs) dir b 0 [] ?s = ret (es, s2)" "tree mnt fs n disk dnos recs K2 s2" "grows K ?s K2 s2"
      "list_all2 (node fs disk K2 s2 dir) (recs ino) es" "length (e_heap ?s) \<le> length (e_heap s2) + 3 * length (recs ino)" by blast
  define s3 where "s3 = s2\<lparr>dirs := (dirs s2)(dir := (dirs s2 dir)\<lparr>entries := es\<rparr>)\<rparr>"
  have g2: "grows K s K2 s2" by (rule grows_trans [OF gs l(3)])
  have d2: "dir \<in> K2" "d_inode_no (dirs s2 dir) = ino" using g2 dir(1,3) by (auto simp: grows_def)
  have "recs ino \<noteq> []" using i(3) bs(1) by (auto simp: unat_eq_zero)
  then have ne: "es \<noteq> []" using l(4) by auto
  have f: "d_inode_no (dirs s3 a) = d_inode_no (dirs s2 a)" "d_fs_info (dirs s3 a) = d_fs_info (dirs s2 a)"
    "d_parent (dirs s3 a) = d_parent (dirs s2 a)" for a by (simp_all add: s3_def)
  have nd: "node fs disk K2 s2 a r e \<Longrightarrow> node fs disk K2 s3 a r e" for a r e
    using f by (simp add: node_def describes_def Let_def)
  have "known_dir mnt fs disk dnos recs K2 s3 a" if a: "a \<in> K2" for a
  proof -
    have ka: "known_dir mnt fs disk dnos recs K2 s2 a" using l(2) a by (simp add: tree_def)
    have "list_all2 (node fs disk K2 s3 a) (recs (d_inode_no (dirs s3 a))) (entries (dirs s3 a))" if e: "entries (dirs s3 a) \<noteq> []"
    proof (cases "a = dir")
      case True
      then show ?thesis using l(4) d2(2) f nd by (auto simp: s3_def elim: list_all2_mono)
    next
      case False
      then have "entries (dirs s3 a) = entries (dirs s2 a)" by (simp add: s3_def)
      then show ?thesis using ka e f nd by (auto simp: known_dir_def elim: list_all2_mono)
    qed
    then show ?thesis using ka f by (simp add: known_dir_def)
  qed
  then have "tree mnt fs n disk dnos recs K2 s3"
    using l(2) by (simp add: tree_def part_image_def hdd_read_def s3_def)
  moreover have "grows K s K2 s3" using g2 dir(2) f by (auto simp: grows_def s3_def)
  moreover have "entries (dirs s3 dir) \<noteq> []" using ne by (simp add: s3_def)
  moreover have "ext2_get_direntries dir s = ret (s3, SUCCESS)" using rd(3) [OF l(1)] by (simp add: s3_def)
  moreover have "length (e_heap s) \<le> length (e_heap s3) + (1 + 3 * length (recs ino))"
    using l(5) rd(1) by (simp add: s3_def)
  ultimately show ?thesis by blast
qed

section \<open>The interface of path lookup\<close>

text \<open>
  The driver provides \<open>directory_source\<close> on the trees of an image with at most \<open>N\<close> records in a directory: each load takes no
  more than \<open>1 + 3 * N\<close> allocations.
\<close>

definition ext2_holds :: "addr \<Rightarrow> ext2fs_struct \<Rightarrow> nat \<Rightarrow> bytes \<Rightarrow> u32 set \<Rightarrow> (u32 \<Rightarrow> ext2_rec list) \<Rightarrow> nat \<Rightarrow> addr set \<Rightarrow> nat \<Rightarrow> ext2_state \<Rightarrow> bool" where
  "ext2_holds mnt fs n disk dnos recs N K m s \<longleftrightarrow> image_tree fs disk n dnos recs \<and> (\<forall>ino\<in>dnos. length (recs ino) \<le> N) \<and>
     block_size fs \<noteq> 0 \<and> unat (block_size fs) mod 512 = 0 \<and> tree mnt fs n disk dnos recs K s \<and> m * (1 + 3 * N) \<le> length (e_heap s)"

lemma ext2_holds_known: "ext2_holds mnt fs n disk dnos recs N K m s \<Longrightarrow> a \<in> K \<Longrightarrow> known_dir mnt fs disk dnos recs K s a \<and> mnt \<noteq> 0"
  by (simp add: ext2_holds_def tree_def)

lemma ext2_holds_load:
  assumes h: "ext2_holds mnt fs n disk dnos recs N K (Suc m) s" and a: "a \<in> K" "entries (dirs s a) = []"
  shows "\<exists>s' K'. get_direntries load_ext2 a s = ret s' \<and> ext2_holds mnt fs n disk dnos recs N K' m s' \<and> grows K s K' s' \<and> entries (dirs s' a) \<noteq> []"
proof -
  let ?ino = "d_inode_no (dirs s a)"
  note kd = ext2_holds_known [OF h a(1)]
  then have l: "length (recs ?ino) \<le> N" using h by (simp add: ext2_holds_def known_dir_def)
  moreover have "1 + 3 * N + m * (1 + 3 * N) \<le> length (e_heap s)" using h by (simp add: ext2_holds_def algebra_simps)
  ultimately have hp: "1 + 3 * length (recs ?ino) \<le> length (e_heap s)" by linarith
  have t: "tree mnt fs n disk dnos recs K s" "image_tree fs disk n dnos recs" "block_size fs \<noteq> 0" "unat (block_size fs) mod 512 = 0"
    using h by (simp_all add: ext2_holds_def)
  from load_tree [OF t(1) a refl t(2-4) hp] obtain s' K' where
    s': "ext2_get_direntries a s = ret (s', SUCCESS)" "tree mnt fs n disk dnos recs K' s'" "grows K s K' s'"
      "entries (dirs s' a) \<noteq> []" "length (e_heap s) \<le> length (e_heap s') + (1 + 3 * length (recs ?ino))" by blast
  have "m * (1 + 3 * N) \<le> length (e_heap s')"
    using \<open>1 + 3 * N + m * (1 + 3 * N) \<le> length (e_heap s)\<close> s'(5) l by linarith
  then have "ext2_holds mnt fs n disk dnos recs N K' m s'" using h s'(2) by (simp add: ext2_holds_def)
  moreover have "get_direntries load_ext2 a s = ret s'"
    using s'(1) kd by (simp add: get_direntries_def load_ext2_def known_dir_def)
  ultimately show ?thesis using s'(3,4) by blast
qed

lemma ext2_holds_loaded:
  assumes "ext2_holds mnt fs n disk dnos recs N K m s" "a \<in> K" "entries (dirs s a) \<noteq> []"
  shows "list_all2 (entry_for (entry_of fs disk) (rec_is_dir fs disk) r_ino K s) (recs (d_inode_no (dirs s a))) (entries (dirs s a))"
proof -
  have kd: "known_dir mnt fs disk dnos recs K s a" using ext2_holds_known [OF assms(1,2)] by simp
  have "image_tree fs disk n dnos recs" using assms(1) by (simp add: ext2_holds_def)
  then have r: "r_type r = 2 \<longleftrightarrow> rec_is_dir fs disk r" if "r \<in> set (recs (d_inode_no (dirs s a)))" for r
    using kd that unfolding image_tree_def known_dir_def by blast
  have "list_all2 (node fs disk K s a) (recs (d_inode_no (dirs s a))) (entries (dirs s a))" using kd assms(3) by (simp add: known_dir_def)
  then show ?thesis
    by (rule list.rel_mono_strong) (use r describes_entry in \<open>auto simp: node_def entry_for_def\<close>)
qed

interpretation ext2_dirs: directory_source load_ext2 "ext2_holds mnt fs n disk dnos recs N" recs rec_name r_ino "rec_is_dir fs disk" "entry_of fs disk"
  for mnt fs n disk dnos recs N
proof unfold_locales
  fix K m s assume "ext2_holds mnt fs n disk dnos recs N K (Suc m) s"
  then show "ext2_holds mnt fs n disk dnos recs N K m s" by (auto simp: ext2_holds_def)
next
  fix r e assume "entry_of fs disk r e"
  then show "de_name e = rec_name r \<and> (de_type e = F_DIR \<longleftrightarrow> rec_is_dir fs disk r)"
    using entry_of_dir by (auto simp: entry_of_def Let_def)
next
  fix K m s a assume "ext2_holds mnt fs n disk dnos recs N K (Suc m) s" "a \<in> K" "entries (dirs s a) = []"
  then show "\<exists>s' K'. get_direntries load_ext2 a s = ret s' \<and> ext2_holds mnt fs n disk dnos recs N K' m s' \<and> grows K s K' s' \<and>
      entries (dirs s' a) \<noteq> []" by (rule ext2_holds_load)
next
  fix K m s a assume "ext2_holds mnt fs n disk dnos recs N K m s" "a \<in> K" "entries (dirs s a) \<noteq> []"
  then show "list_all2 (entry_for (entry_of fs disk) (rec_is_dir fs disk) r_ino K s) (recs (d_inode_no (dirs s a))) (entries (dirs s a))"
    by (rule ext2_holds_loaded)
qed

section \<open>Mounting the tree\<close>

text \<open>The description that the driver keeps has whole sectors of group descriptors: it says the same of every inode.\<close>

definition same_inodes :: "ext2fs_struct \<Rightarrow> ext2fs_struct \<Rightarrow> nat \<Rightarrow> bytes \<Rightarrow> bool" where
  "same_inodes f fs n disk \<longleftrightarrow> superblock f = superblock fs \<and> block_size f = block_size fs \<and>
     (\<forall>ino. inode_ok fs n ino \<longrightarrow> inode_ok f n ino \<and> inode_at f disk ino = inode_at fs disk ino)"

lemma same_inodes_kept:
  assumes "\<And>k. k < gd_bytes fs \<Longrightarrow> gdt k = group_descriptors fs k"
  shows "same_inodes (kept_fs fs gdt) fs n disk"
proof -
  let ?f = "kept_fs fs gdt"
  have f: "superblock ?f = superblock fs" "block_size ?f = block_size fs" "group_descriptors ?f = gdt"
    "gd_bytes ?f = 512 * ((gd_bytes fs + 511) div 512)" by (simp_all add: kept_fs_def)
  have "gd_bytes fs \<le> gd_bytes ?f" unfolding f(4) by linarith
  note i = inode_image [OF f(1,2) this, unfolded f(3)]
  show ?thesis using f i assms by (auto simp: same_inodes_def inode_at_def fun_eq_iff)
qed

lemma same_inodes_rec: "same_inodes f fs n disk \<Longrightarrow> inode_ok fs n (r_ino r) \<Longrightarrow> rec_is_dir f disk r = rec_is_dir fs disk r"
  by (simp add: same_inodes_def rec_is_dir_def)

lemma same_inodes_tree:
  assumes "same_inodes f fs n disk" "image_tree fs disk n dnos recs"
  shows "image_tree f disk n dnos recs"
proof -
  have b: "first_block f disk ino = first_block fs disk ino" "block_size f = block_size fs" "inode_ok f n ino" if "inode_ok fs n ino" for ino
    using assms(1) that by (simp_all add: same_inodes_def first_block_def)
  show ?thesis unfolding image_tree_def
  proof (intro ballI conjI)
    fix ino assume i: "ino \<in> dnos"
    then have ok: "inode_ok fs n ino" using assms(2) by (simp add: image_tree_def)
    show "inode_ok f n ino" "first_block f disk ino + unat (block_size f) \<le> 512 * n"
      "dir_layout (\<lambda>k. disk (first_block f disk ino + k)) 0 (recs ino) (unat (block_size f))"
      using assms(2) i b [OF ok] by (simp_all add: image_tree_def)
    fix r assume r: "r \<in> set (recs ino)"
    then have k: "inode_ok fs n (r_ino r)" "r_type r = 2 \<longleftrightarrow> rec_is_dir fs disk r" "r_type r = 2 \<longrightarrow> r_ino r \<in> dnos"
      using assms(2) i by (auto simp: image_tree_def)
    then show "inode_ok f n (r_ino r)" "r_type r = 2 \<longleftrightarrow> rec_is_dir f disk r" "r_type r = 2 \<longrightarrow> r_ino r \<in> dnos"
      using b(3) same_inodes_rec [OF assms(1)] by auto
  qed
qed

lemma image_walk_ok:
  "image_tree fs disk n dnos recs \<Longrightarrow> ino \<in> dnos \<Longrightarrow> image_walk fs disk recs cs slash ino = Inr r \<Longrightarrow> inode_ok fs n (r_ino r)"
proof (induction cs arbitrary: ino)
  case (Cons c cs)
  then obtain q where q: "find (\<lambda>r. rec_name r = c) (recs ino) = Some q" by (auto split: option.splits)
  then have m: "q \<in> set (recs ino)" by (auto simp: find_Some_iff)
  then have ok: "inode_ok fs n (r_ino q)" "rec_is_dir fs disk q \<longrightarrow> r_ino q \<in> dnos" using Cons.prems(1,2) by (auto simp: image_tree_def)
  show ?case using Cons.prems(3) q ok Cons.IH [OF Cons.prems(1)] by (auto split: if_splits)
qed simp

lemma same_inodes_dirs:
  assumes "same_inodes f fs n disk" "image_tree fs disk n dnos recs" "ino \<in> dnos" "r \<in> set (recs ino)"
  shows "rec_is_dir f disk r = rec_is_dir fs disk r \<and> (rec_is_dir f disk r \<longrightarrow> r_ino r \<in> dnos)"
  using assms(2-4) same_inodes_rec [OF assms(1)] by (auto simp: image_tree_def)

lemma image_walk_same:
  assumes "same_inodes f fs n disk" "image_tree fs disk n dnos recs" "ino \<in> dnos"
  shows "image_walk f disk recs cs slash ino = image_walk fs disk recs cs slash ino"
  using same_inodes_dirs [OF assms(1,2)] assms(3) by (intro dir_walk_cong [where A = dnos]) auto

lemma probe_image:
  assumes "part_image s part n disk" "mountable (image_fs part disk) n"
  shows "ext2_probe part s = ret (s, SUCCESS)"
proof -
  obtain b where "hdd_read s part SB_SECT_SIZE SB_SECT_OFFSET = (SB_SECT_SIZE, b)" "read_sb b = superblock (image_fs part disk)"
    using superblock_read [OF assms(1)] assms(2) by (auto simp: mountable_def)
  then show ?thesis using assms(2) not_negative by (simp add: ext2_probe_def mountable_def)
qed

lemma mount_tree:
  assumes img: "part_image s part n disk" and fs: "fs = image_fs part disk" and mt: "mountable fs n"
    and root: "root \<noteq> 0" "entries (dirs s root) = []" "d_parent (dirs s root) = root"
    and heap: "heap_fresh {root} (e_heap s)" "4 + 3 * length (recs 2) \<le> length (e_heap s)"
    and im: "image_tree fs disk n dnos recs" "2 \<in> dnos"
  shows "\<exists>s' mnt f K. ext2_mount part root s = ret (s', SUCCESS) \<and> same_inodes f fs n disk \<and> tree mnt f n disk dnos recs K s' \<and>
    root \<in> K \<and> d_inode_no (dirs s' root) = 2 \<and> entries (dirs s' root) \<noteq> [] \<and> root_dir s' = root_dir s \<and>
    root_direntry s' = root_direntry s \<and> length (e_heap s) \<le> length (e_heap s') + (4 + 3 * length (recs 2))"
proof -
  obtain a1 w1 a2 w2 a3 w3 h where h: "e_heap s = (a1, w1) # (a2, w2) # (a3, w3) # h" "1 + 3 * length (recs 2) \<le> length h"
    using heap(2) by (rule three_cells) simp
  obtain gdt where gdt: "\<And>k. k < gd_bytes fs \<Longrightarrow> gdt k = group_descriptors fs k"
    "\<And>s'. ext2_get_direntries root (mounted root a2 (kept_fs fs gdt) h s) = ret (s', SUCCESS) \<Longrightarrow>
     ext2_mount part root s = ret (s', SUCCESS)" by (rule mount_reads [OF img fs mt h(1)]) blast
  define f where "f = kept_fs fs gdt"
  define t where "t = mounted root a2 f h s"
  have sf: "same_inodes f fs n disk" unfolding f_def by (rule same_inodes_kept [OF gdt(1)])
  have f: "superblock f = superblock fs" "block_size f = block_size fs" "fs_part f = part"
    by (simp_all add: f_def kept_fs_def) (simp add: fs image_fs_def Let_def)
  have d: "dirs t root = (dirs s root)\<lparr>d_fs_info := a2, d_mnt_point := root, d_inode_no := 2\<rparr>" "e_heap t = h"
    "root_dir t = root_dir s" "root_direntry t = root_direntry s" "e_mounts t a2 = f" by (simp_all add: t_def mounted_def)
  have rt: "hdd_read t = hdd_read s" unfolding t_def mounted_def by (simp only: hdd_read_state)
  have hf: "a2 \<noteq> 0" "heap_fresh {root} h" using heap(1) unfolding h(1) by (simp_all add: heap_fresh_def)
  have kd: "known_dir a2 f disk dnos recs {root} t root" using root im(2) by (simp add: known_dir_def d)
  have "inode_size (superblock fs) = 128" using mt by (simp add: mountable_def)
  then have tr: "tree a2 f n disk dnos recs {root} t"
    using img hf kd d(5) unfolding tree_def part_image_def rt f d(2) by simp
  have blk: "block_size f \<noteq> 0" "unat (block_size f) mod 512 = 0"
    using mountable_block_size [of part disk n, folded fs, OF mt] by (simp_all add: f(2))
  have e: "entries (dirs t root) = []" "d_inode_no (dirs t root) = 2" "1 + 3 * length (recs 2) \<le> length (e_heap t)"
    using root(2) h(2) by (simp_all add: d)
  from load_tree [OF tr _ e(1,2) same_inodes_tree [OF sf im(1)] blk e(3)] obtain s' K where s':
    "ext2_get_direntries root t = ret (s', SUCCESS)" "tree a2 f n disk dnos recs K s'" "grows {root} t K s'"
    "entries (dirs s' root) \<noteq> []" "length (e_heap t) \<le> length (e_heap s') + (1 + 3 * length (recs 2))" by auto
  have "ext2_mount part root s = ret (s', SUCCESS)" using gdt(2) s'(1) by (simp add: t_def f_def)
  moreover have "root \<in> K" "d_inode_no (dirs s' root) = 2" "root_dir s' = root_dir s" "root_direntry s' = root_direntry s"
    using s'(3) by (simp_all add: grows_def d)
  moreover have "length (e_heap s) \<le> length (e_heap s') + (4 + 3 * length (recs 2))" using s'(5) h(1) d(2) by simp
  ultimately show ?thesis using s'(2,4) sf by blast
qed

section \<open>From the device table to a file\<close>

lemma init_ext2_first: "init_ext2 (replicate MAX_FILESYSTEMS None) = Some ext2fs # replicate 15 None"
  by (simp add: init_ext2_def register_fs_def MAX_FILESYSTEMS_def numeral_eq_Suc)

lemma do_mount_image:
  assumes "get_hdstruct bds maj mnr = Some p" "hd_deref p = ret part" "fs_type part = 0x83"
    and "part_image s part n disk" "mountable (image_fs part disk) n"
    and "ext2_mount part (directory (root_direntry s)) s = ret (s', SUCCESS)"
  shows "do_mount bds (Some ext2fs # fss) load before CHR 0x00 maj mnr ''/'' s = ret (s', SUCCESS)"
proof -
  have "probe_fs (Some ext2fs # fss) part s = ret (s, Some ext2fs)"
    using probe_image [OF assms(4,5)] assms(3) by (simp add: ext2fs_def)
  then show ?thesis using assms(1,2,6) not_negative
    by (simp add: do_mount_def namei_def ext2fs_def)
qed

text \<open>A mounted image: every path leads where the image says.\<close>

definition paths_match :: "ext2fs_struct \<Rightarrow> bytes \<Rightarrow> (u32 \<Rightarrow> ext2_rec list) \<Rightarrow> string list \<Rightarrow> bool \<Rightarrow> ext2_state \<Rightarrow> char \<Rightarrow> char \<Rightarrow> bool" where
  "paths_match fs disk recs cs slash s before after \<longleftrightarrow> (\<exists>s'.
     case image_walk fs disk recs cs slash 2 of
       Inl err \<Rightarrow> namei load_ext2 before after (CHR ''/'' # path_of cs slash) s = ret (s', err, None)
     | Inr r \<Rightarrow> \<exists>e. namei load_ext2 before after (CHR ''/'' # path_of cs slash) s = ret (s', SUCCESS, Some e) \<and> entry_of fs disk r e)"

lemma tree_paths:
  assumes sf: "same_inodes f fs n disk" and im: "image_tree fs disk n dnos recs" "2 \<in> dnos" "\<forall>ino\<in>dnos. length (recs ino) \<le> N"
    and bs: "block_size fs \<noteq> 0" "unat (block_size fs) mod 512 = 0"
    and t: "tree mnt f n disk dnos recs K s" "root_dir s \<in> K" "d_inode_no (dirs s (root_dir s)) = 2" "entries (dirs s (root_dir s)) \<noteq> []"
    and h: "length cs * (1 + 3 * N) \<le> length (e_heap s)"
    and p: "list_all component cs" "cs \<noteq> []" "CHR 0x00 \<notin> set (path_of cs slash)" "length (path_of cs slash) \<noteq> 1"
  shows "paths_match fs disk recs cs slash s before after"
proof -
  have "ext2_holds mnt f n disk dnos recs N K (length cs + 0) s"
    using same_inodes_tree [OF sf im(1)] im(3) sf bs t(1) h by (simp add: ext2_holds_def same_inodes_def)
  from ext2_dirs.walk_source [OF this t(2,4), of slash] obtain s' where
    w: "case image_walk f disk recs cs slash 2 of
         Inl err \<Rightarrow> walk load_ext2 cs slash (root_dir s) s = ret (s', err, None)
       | Inr r \<Rightarrow> \<exists>e. walk load_ext2 cs slash (root_dir s) s = ret (s', SUCCESS, Some e) \<and> entry_of f disk r e"
    unfolding t(3) by blast
  have n: "namei load_ext2 before after (CHR ''/'' # path_of cs slash) s = walk load_ext2 cs slash (root_dir s) s"
    using namei_walks [OF p] by blast
  have "entry_of f disk r e \<longleftrightarrow> entry_of fs disk r e" if "image_walk fs disk recs cs slash 2 = Inr r" for r e
    using image_walk_ok [OF im(1,2) that] sf by (simp add: entry_of_def same_inodes_def)
  then show ?thesis using w unfolding paths_match_def n image_walk_same [OF sf im(1,2)]
    by (auto split: sum.splits)
qed

lemma mount_known:
  assumes "get_hdstruct bds maj mnr = Some p" "hd_deref p = ret part" "fs_type part = 0x83"
    and img: "part_image s part n disk" "fs = image_fs part disk" "mountable fs n"
    and im: "image_tree fs disk n dnos recs" "2 \<in> dnos"
    and root: "root_dir s \<noteq> 0" "directory (root_direntry s) = root_dir s" "entries (dirs s (root_dir s)) = []"
      "d_parent (dirs s (root_dir s)) = root_dir s"
    and heap: "heap_fresh {root_dir s} (e_heap s)" "4 + 3 * length (recs 2) \<le> length (e_heap s)"
  shows "\<exists>s' mnt f K. (\<forall>load b fss. do_mount bds (Some ext2fs # fss) load b CHR 0x00 maj mnr ''/'' s = ret (s', SUCCESS)) \<and>
    same_inodes f fs n disk \<and> tree mnt f n disk dnos recs K s' \<and> root_dir s \<in> K \<and> d_inode_no (dirs s' (root_dir s)) = 2 \<and>
    entries (dirs s' (root_dir s)) \<noteq> [] \<and> root_dir s' = root_dir s \<and>
    length (e_heap s) \<le> length (e_heap s') + (4 + 3 * length (recs 2))"
proof -
  from mount_tree [OF img root(1,3,4) heap im] obtain s' mnt f K where m:
    "ext2_mount part (root_dir s) s = ret (s', SUCCESS)" "same_inodes f fs n disk" "tree mnt f n disk dnos recs K s'"
    "root_dir s \<in> K" "d_inode_no (dirs s' (root_dir s)) = 2" "entries (dirs s' (root_dir s)) \<noteq> []" "root_dir s' = root_dir s"
    "length (e_heap s) \<le> length (e_heap s') + (4 + 3 * length (recs 2))" by blast
  moreover have "\<forall>load b fss. do_mount bds (Some ext2fs # fss) load b CHR 0x00 maj mnr ''/'' s = ret (s', SUCCESS)"
    using assms(1-3) img m(1) root(2) by (intro allI do_mount_image) auto
  ultimately show ?thesis by blast
qed

lemma mount_paths:
  assumes "get_hdstruct bds maj mnr = Some p" "hd_deref p = ret part" "fs_type part = 0x83"
    and img: "part_image s part n disk" "fs = image_fs part disk" "mountable fs n"
    and im: "image_tree fs disk n dnos recs" "2 \<in> dnos" "\<forall>ino\<in>dnos. length (recs ino) \<le> N"
    and root: "root_dir s \<noteq> 0" "directory (root_direntry s) = root_dir s" "entries (dirs s (root_dir s)) = []"
      "d_parent (dirs s (root_dir s)) = root_dir s"
    and heap: "heap_fresh {root_dir s} (e_heap s)" "3 + (length cs + 1) * (1 + 3 * N) \<le> length (e_heap s)"
    and path: "list_all component cs" "cs \<noteq> []" "CHR 0x00 \<notin> set (path_of cs slash)" "length (path_of cs slash) \<noteq> 1"
  shows "\<exists>s'. do_mount bds (Some ext2fs # fss) load b CHR 0x00 maj mnr ''/'' s = ret (s', SUCCESS) \<and>
    paths_match fs disk recs cs slash s' before after"
proof -
  have l: "length (recs 2) \<le> N" using im by blast
  then have "4 + 3 * length (recs 2) \<le> length (e_heap s)" using heap(2) by (simp add: algebra_simps)
  from mount_known [OF assms(1-3) img im(1,2) root heap(1) this] obtain s' mnt f K where m:
    "\<And>load b fss. do_mount bds (Some ext2fs # fss) load b CHR 0x00 maj mnr ''/'' s = ret (s', SUCCESS)"
    "same_inodes f fs n disk" "tree mnt f n disk dnos recs K s'"
    "root_dir s \<in> K" "d_inode_no (dirs s' (root_dir s)) = 2" "entries (dirs s' (root_dir s)) \<noteq> []" "root_dir s' = root_dir s"
    "length (e_heap s) \<le> length (e_heap s') + (4 + 3 * length (recs 2))" by blast
  have "length cs * (1 + 3 * N) \<le> length (e_heap s')" using m(8) heap(2) l by (simp add: algebra_simps)
  then have "paths_match fs disk recs cs slash s' before after"
    using tree_paths [OF m(2) im mountable_block_size(2,1) [of part disk n, folded img(2), OF img(3)] m(3)] m(4-7) path by simp
  then show ?thesis using m(1) by blast
qed

text \<open>
  C5: From the bytes on the disk to a file. The partition with a device number holds the bytes of an ext2 file system with
  inodes of 128 bytes, whose directories are well-formed records in their first block, and the heap is large enough
  and cleared. After \<open>setup_fs\<close> and \<open>init_ext2\<close>, \<open>do_mount\<close> of this device on \<open>/\<close> succeeds, and then \<open>namei\<close> of any
  absolute path of one or more components, other than one character, loads the directories on the way and returns the
  entry that the image has under this path, with the number, mode, type, size and block count of its inode, or the
  error that walking the image gives.
\<close>

theorem mount_lookup_spec:
  assumes "get_hdstruct bds maj mnr = Some p" "hd_deref p = ret part" "fs_type part = 0x83"
    and "part_image s part n disk" "fs = image_fs part disk" "mountable fs n"
    and "image_tree fs disk n dnos recs" "2 \<in> dnos" "\<forall>ino\<in>dnos. length (recs ino) \<le> N"
    and "root_dir s \<noteq> 0" "heap_fresh {root_dir s} (e_heap s)" "3 + (length cs + 1) * (1 + 3 * N) \<le> length (e_heap s)"
    and "list_all component cs" "cs \<noteq> []" "CHR 0x00 \<notin> set (path_of cs slash)" "length (path_of cs slash) \<noteq> 1"
  shows "\<exists>s'. do_mount bds (init_ext2 (replicate MAX_FILESYSTEMS None)) load_ext2 b CHR 0x00 maj mnr ''/'' (setup_fs s) = ret (s', SUCCESS) \<and>
    paths_match fs disk recs cs slash s' before after"
proof -
  have "part_image (setup_fs s) part n disk" using assms(4) by (simp add: part_image_def hdd_read_def setup_fs_def)
  then show ?thesis unfolding init_ext2_first using assms
    by (intro mount_paths) (simp_all add: setup_fs_def)
qed

text \<open>A disk of 32 KB with a directory \<open>/d\<close> that holds a file \<open>ab\<close> of 5 bytes.\<close>

definition tree_image :: "nat \<Rightarrow> u8" where
  "tree_image = disk_image(5248 := 0xed, 5249 := 0x41, 6400 := 0xed, 6401 := 0x41, 6440 := 12,
     10264 := 11, 10270 := 1, 10271 := 2, 10272 := 100, 10273 := 0,
     12288 := 11, 12292 := 12, 12294 := 1, 12295 := 2, 12296 := 46,
     12300 := 2, 12304 := 12, 12306 := 2, 12307 := 2, 12308 := 46, 12309 := 46,
     12312 := 12, 12316 := 232, 12317 := 3, 12318 := 2, 12319 := 1, 12320 := 97, 12321 := 98)"

definition tree_recs :: "u32 \<Rightarrow> ext2_rec list" where
  "tree_recs ino = [\<lparr>r_ino = ino, r_type = 2, r_name = [46], r_len = 12\<rparr>, \<lparr>r_ino = 2, r_type = 2, r_name = [46, 46], r_len = 12\<rparr>,
     if ino = 2 then \<lparr>r_ino = 11, r_type = 2, r_name = [100], r_len = 1000\<rparr>
     else \<lparr>r_ino = 12, r_type = 1, r_name = [97, 98], r_len = 1000\<rparr>]"

definition tree_disk :: gendisk_struct where
  "tree_disk = (one_entry_disk 0)\<lparr>bd_read := \<lambda>c lba. (c, \<lambda>k. tree_image (512 * unat lba + k)),
     part_list := replicate 4 disk_part, part_count := 1\<rparr>"

definition tree_state :: ext2_state where
  "tree_state = sample_ext2\<lparr>e_bds := \<lambda>_. tree_disk, e_heap := map (\<lambda>k. (0x1000 + of_nat k, \<lambda>_. 0)) [0..<50]\<rparr>"

definition tree_fs :: "hd_struct \<Rightarrow> ext2fs_struct" where
  "tree_fs part = image_fs part tree_image"

lemma tree_fs_fields:
  "superblock (tree_fs part) = \<lparr>total_inodes = 16, total_blocks = 32, block_size_log = 0, blocks_per_group = 8192,
     inodes_per_group = 16, signature = 0xef53, inode_size = 128\<rparr>"
  "block_size (tree_fs part) = 1024" "gd_bytes (tree_fs part) = 32" "bg_inode_table (group_descriptors (tree_fs part)) 0 = 5"
proof -
  have sb: "read_sb (\<lambda>k. tree_image (1024 + k)) = superblock disk_fs"
    unfolding disk_fs_fields(1) disk_superblock [symmetric] by (rule read_sb_cong) (simp add: tree_image_def)
  have div: "(32 :: u32) div 8192 = 0" by (simp add: word_unat_eq_iff unat_div_word)
  show "superblock (tree_fs part) = \<lparr>total_inodes = 16, total_blocks = 32, block_size_log = 0, blocks_per_group = 8192,
     inodes_per_group = 16, signature = 0xef53, inode_size = 128\<rparr>"
    "block_size (tree_fs part) = 1024" "gd_bytes (tree_fs part) = 32"
    unfolding tree_fs_def image_fs_def Let_def sb by (simp_all add: div disk_fs_fields)
  show "bg_inode_table (group_descriptors (tree_fs part)) 0 = 5"
    unfolding tree_fs_def image_fs_def Let_def sb disk_fs_fields(1)
    by (simp add: bg_inode_table_def descriptor_place_def buf32_def tree_image_def disk_image_def sample_image_def)
qed

lemmas tree_inodes = small_inodes [OF tree_fs_fields]

lemmas tree_bytes = tree_image_def disk_image_def sample_image_def

lemma tree_blocks: "first_block (tree_fs part) tree_image 2 = 10240" "first_block (tree_fs part) tree_image 11 = 12288"
  by (simp_all add: first_block_def inode_at_def i_block_def buf32_def tree_inodes tree_fs_fields(2) tree_bytes)

lemma tree_modes:
  "i_mode (inode_at (tree_fs part) tree_image 2) = 0x41ed" "i_mode (inode_at (tree_fs part) tree_image 11) = 0x41ed"
  "i_mode (inode_at (tree_fs part) tree_image 12) = 0x81a4" "i_size (inode_at (tree_fs part) tree_image 12) = 5"
  by (simp_all add: inode_at_def i_mode_def i_size_def buf16_def buf32_def tree_inodes tree_bytes)

lemma tree_layouts:
  "dir_layout (\<lambda>k. tree_image (10240 + k)) 0 (tree_recs 2) 1024"
  "dir_layout (\<lambda>k. tree_image (12288 + k)) 0 (tree_recs 11) 1024"
  by (simp_all add: tree_recs_def tree_bytes read_direntry_def buf32_def buf16_def less_Suc_eq)

lemma tree_image_tree: "image_tree (tree_fs part) tree_image 64 {2, 11} tree_recs"
proof -
  have d: "rec_is_dir (tree_fs part) tree_image r \<longleftrightarrow> r_ino r \<noteq> 12" if "r_ino r \<in> {2, 11, 12}" for r :: ext2_rec
    using that by (auto simp: rec_is_dir_def tree_modes F_DIR_def)
  have "inode_ok (tree_fs part) 64 ino" if "ino \<in> {2, 11, 12}" for ino using that by (auto intro!: tree_inodes(2))
  then show ?thesis using tree_layouts
    by (simp add: image_tree_def tree_blocks tree_fs_fields(2)) (simp add: tree_recs_def d)
qed

lemma tree_state_ok:
  "part_image tree_state disk_part 64 tree_image" "mountable (tree_fs part) 64" "root_dir tree_state = 0x100"
  "heap_fresh {root_dir tree_state} (e_heap tree_state)" "length (e_heap tree_state) = 50"
  "get_hdstruct [Some tree_disk] (bd_major tree_disk) 1 = Some (tree_disk, 0)" "hd_deref (tree_disk, 0) = ret disk_part"
proof -
  show "part_image tree_state disk_part 64 tree_image"
    by (simp add: part_image_def hdd_read_def tree_state_def tree_disk_def disk_part_def)
  show "mountable (tree_fs part) 64"
    by (simp add: mountable_def tree_fs_fields descriptor_place_def)
  show r: "root_dir tree_state = 0x100" "length (e_heap tree_state) = 50" by (simp_all add: tree_state_def sample_ext2_def)
  show "heap_fresh {root_dir tree_state} (e_heap tree_state)"
    unfolding r heap_fresh_def using cells_fresh [of 50] by (simp add: tree_state_def)
  show "get_hdstruct [Some tree_disk] (bd_major tree_disk) 1 = Some (tree_disk, 0)" "hd_deref (tree_disk, 0) = ret disk_part"
    by (simp_all add: get_hdstruct_def get_gendisk_def hd_deref_def tree_disk_def)
qed

lemma tree_walk:
  "image_walk (tree_fs part) tree_image tree_recs [''d'', ''ab''] False 2 = Inr \<lparr>r_ino = 12, r_type = 1, r_name = [97, 98], r_len = 1000\<rparr>"
proof -
  have "char_of (unat (97 :: u8)) = CHR ''a''" "char_of (unat (98 :: u8)) = CHR ''b''" "char_of (unat (100 :: u8)) = CHR ''d''"
    "char_of (unat (46 :: u8)) = CHR ''.''" by (simp_all add: char_of_eq_iff)
  then show ?thesis by (simp add: tree_recs_def rec_name_def rec_is_dir_def tree_modes F_DIR_def)
qed

theorem mount_lookup_spec_witness:
  "\<exists>s s' e. do_mount [Some tree_disk] (init_ext2 (replicate MAX_FILESYSTEMS None)) load_ext2 CHR 0x00 CHR 0x00 (bd_major tree_disk) 1 ''/''
      (setup_fs tree_state) = ret (s, SUCCESS) \<and>
    namei load_ext2 CHR 0x00 CHR 0x00 ''/d/ab'' s = ret (s', SUCCESS, Some e) \<and> de_inode_no e = 12 \<and> de_size e = 5"
proof -
  have N: "\<forall>ino\<in>{2, 11}. length (tree_recs ino) \<le> 3" by (simp add: tree_recs_def)
  have c: "list_all component [''d'', ''ab'']" "3 + (length [''d'', ''ab''] + 1) * (1 + 3 * 3) \<le> length (e_heap tree_state)"
    by (simp_all add: component_def tree_state_ok(5))
  have f: "fs_type disk_part = 0x83" "root_dir tree_state \<noteq> 0" by (simp_all add: disk_part_def tree_state_ok(3))
  from mount_lookup_spec [OF tree_state_ok(6,7) f(1) tree_state_ok(1) tree_fs_def tree_state_ok(2) tree_image_tree _ N f(2)
      tree_state_ok(4) c(2,1), of False "CHR 0x00" "CHR 0x00" "CHR 0x00"]
  obtain s where s: "do_mount [Some tree_disk] (init_ext2 (replicate MAX_FILESYSTEMS None)) load_ext2 CHR 0x00 CHR 0x00 (bd_major tree_disk) 1 ''/''
      (setup_fs tree_state) = ret (s, SUCCESS)" "paths_match (tree_fs disk_part) tree_image tree_recs [''d'', ''ab''] False s CHR 0x00 CHR 0x00"
    by auto
  from s(2) obtain s' e where "namei load_ext2 CHR 0x00 CHR 0x00 ''/d/ab'' s = ret (s', SUCCESS, Some e)"
    "entry_of (tree_fs disk_part) tree_image \<lparr>r_ino = 12, r_type = 1, r_name = [97, 98], r_len = 1000\<rparr> e"
    unfolding paths_match_def tree_walk by auto
  with s(1) show ?thesis by (auto simp: entry_of_def Let_def tree_modes)
qed

end
