(* ===== verification/File_Tree.thy ===== *)
theory File_Tree
  imports Ext2_Tree
begin

text \<open>
  Printing the file tree of an ext2 partition in a debug build: \<open>print_file_tree\<close> (\<open>Fs_Interface\<close>) with the messages of the
  driver. \<open>image_lines\<close> is the listing of an image; the driver provides \<open>printing_source\<close>, so printing a mounted
  image gives this listing.
\<close>

section \<open>The driver\<close>

text \<open>
  \<open>get_direntries\<close> with what the file system prints: for a directory that is loaded, \<open>ext2_get_direntries\<close> prints a
  warning and does nothing else.
\<close>

definition loaded_warning :: string where
  "loaded_warning = ''ext2: warning: fetching directory that already contains files'' @ newline"

definition fetch_dir :: "addr \<Rightarrow> ext2_state \<times> string list \<Rightarrow> (ext2_state \<times> string list) exec" where
  "fetch_dir dir = (\<lambda>(s, out). bindX (get_direntries load_ext2 dir s) (\<lambda>s'.
     ret (s', out @ (if entries (dirs s dir) \<noteq> [] then [loaded_warning] else []))))"

abbreviation image_lines :: "nat \<Rightarrow> ext2fs_struct \<Rightarrow> bytes \<Rightarrow> (u32 \<Rightarrow> ext2_rec list) \<Rightarrow> nat \<Rightarrow> u32 \<Rightarrow> string list option" where
  "image_lines d fs disk \<equiv> dir_lines d rec_name r_ino (rec_is_dir fs disk)"

text \<open>
  The code takes every type with the bit \<open>F_DIR\<close> for a directory: block devices (0x6000) and sockets (0xc000) have it as well, and
  no directory behind them. Without such files it is right.
\<close>

definition no_devices :: "ext2fs_struct \<Rightarrow> bytes \<Rightarrow> u32 set \<Rightarrow> (u32 \<Rightarrow> ext2_rec list) \<Rightarrow> bool" where
  "no_devices fs disk dnos recs \<longleftrightarrow> (\<forall>ino\<in>dnos. \<forall>r\<in>set (recs ino).
     ucast (i_mode (inode_at fs disk (r_ino r))) AND (0xf000 AND F_DIR) \<noteq> 0 \<longrightarrow> rec_is_dir fs disk r)"

text \<open>With such a file the walk ends in a fault: it loads the directory at address 0.\<close>

lemma print_block_device:
  assumes "de_type e = 0x6000" "directory e = 0" "de_name e \<noteq> ''.''" "de_name e \<noteq> ''..''"
  shows "\<exists>f. print_entries fetch_dir level (e # es) (s, out) = fail f"
  using assms by (simp add: print_dir_def fetch_dir_def get_direntries_def load_ext2_def ext2_get_direntries_def ASSERT_def F_DIR_def)

section \<open>The interface\<close>

lemma entry_type_bit:
  assumes "entry_of fs disk r e" "no_devices fs disk dnos recs" "r \<in> set (recs ino)" "ino \<in> dnos"
  shows "(de_type e AND F_DIR = 0) = (de_type e \<noteq> F_DIR)"
proof -
  have t: "de_type e = ucast (i_mode (inode_at fs disk (r_ino r))) AND 0xf000" using assms(1) by (simp add: entry_of_def Let_def)
  have "de_type e AND F_DIR \<noteq> 0 \<longrightarrow> rec_is_dir fs disk r" using assms(2-4) unfolding t no_devices_def and.assoc by blast
  then show ?thesis using entry_of_dir [OF assms(1)] by (auto simp: F_DIR_def)
qed

lemma ext2_holds_types:
  assumes "ext2_holds mnt fs n disk dnos recs N K m s" "no_devices fs disk dnos recs" "a \<in> K" "e \<in> set (entries (dirs s a))"
  shows "(de_type e AND F_DIR = 0) = (de_type e \<noteq> F_DIR)"
proof -
  have "d_inode_no (dirs s a) \<in> dnos" using ext2_holds_known [OF assms(1,3)] by (simp add: known_dir_def)
  moreover have "entries (dirs s a) \<noteq> []" using assms(4) by auto
  from ext2_holds_loaded [OF assms(1,3) this] assms(4) obtain r where "r \<in> set (recs (d_inode_no (dirs s a)))" "entry_of fs disk r e"
    by (auto simp: entry_for_def list_all2_conv_all_nth in_set_conv_nth) metis
  ultimately show ?thesis using entry_type_bit [OF _ assms(2)] by blast
qed

lemma fetch_loaded:
  assumes "ext2_holds mnt fs n disk dnos recs N K m s" "a \<in> K" "entries (dirs s a) \<noteq> []"
  shows "fetch_dir a (s, out) = ret (s, out @ [loaded_warning])"
  using ext2_holds_known [OF assms(1,2)] assms(3)
  by (simp add: fetch_dir_def get_direntries_def load_ext2_def ext2_get_direntries_def known_dir_def Let_def)

interpretation ext2_print: printing_source load_ext2 "\<lambda>K m s. ext2_holds mnt fs n disk dnos recs N K m s \<and> no_devices fs disk dnos recs"
    recs rec_name r_ino "rec_is_dir fs disk" "entry_of fs disk" fetch_dir loaded_warning
  for mnt fs n disk dnos recs N
proof unfold_locales
  fix level name assume "0 < (level :: nat)"
  then show "tree_line level name \<noteq> loaded_warning" by (cases level) (auto simp: tree_line_def loaded_warning_def)
next
  fix K m s a assume "ext2_holds mnt fs n disk dnos recs N K (Suc m) s \<and> no_devices fs disk dnos recs" "a \<in> K" "entries (dirs s a) = []"
  then show "\<exists>s' K'. get_direntries load_ext2 a s = ret s' \<and> (ext2_holds mnt fs n disk dnos recs N K' m s' \<and> no_devices fs disk dnos recs) \<and>
      grows K s K' s' \<and> entries (dirs s' a) \<noteq> []" using ext2_holds_load by blast
qed (use ext2_dirs.spare ext2_dirs.entry ext2_holds_loaded ext2_holds_types fetch_loaded in \<open>auto simp: fetch_dir_def\<close>)

section \<open>Property\<close>

lemma image_lines_same:
  assumes "same_inodes f fs n disk" "image_tree fs disk n dnos recs" "ino \<in> dnos"
  shows "image_lines d f disk recs level ino = image_lines d fs disk recs level ino"
  using same_inodes_dirs [OF assms(1,2)] assms(3) by (intro dir_lines_cong [where A = dnos]) auto

lemma no_devices_same:
  "same_inodes f fs n disk \<Longrightarrow> image_tree fs disk n dnos recs \<Longrightarrow> no_devices fs disk dnos recs \<Longrightarrow> no_devices f disk dnos recs"
  using same_inodes_rec [of f fs n disk] by (auto simp: no_devices_def image_tree_def same_inodes_def)

text \<open>
  C22: What a debug build prints as the file tree. After the mount of an ext2 image as in \<open>mount_lookup_spec\<close>, without block devices
  and sockets and with a tree of finite depth, \<open>print_file_tree\<close> returns and has printed \<open>/\<close> and then one line for every file of the image in
  the order of the records, each below its directory and indented by its depth. Besides, the driver warns about the
  directories that were loaded before, the root among them.
\<close>

theorem print_file_tree_spec:
  assumes "get_hdstruct bds maj mnr = Some p" "hd_deref p = ret part" "fs_type part = 0x83"
    and "part_image s part n disk" "fs = image_fs part disk" "mountable fs n"
    and "image_tree fs disk n dnos recs" "2 \<in> dnos" "\<forall>ino\<in>dnos. length (recs ino) \<le> N"
    and "root_dir s \<noteq> 0" "heap_fresh {root_dir s} (e_heap s)" "3 + (2 + length ls) * (1 + 3 * N) \<le> length (e_heap s)"
    and "no_devices fs disk dnos recs" "image_lines d fs disk recs 1 2 = Some ls"
  shows "\<exists>v s' w. do_mount bds (init_ext2 (replicate MAX_FILESYSTEMS None)) load_ext2 b CHR 0x00 maj mnr ''/'' (setup_fs s) = ret (v, SUCCESS) \<and>
    print_file_tree fetch_dir (v, out) = ret (s', out @ (''/'' @ newline) # w) \<and> filter (\<lambda>l. l \<noteq> loaded_warning) w = ls"
proof -
  have l: "length (recs 2) \<le> N" using assms(8,9) by blast
  have img: "part_image (setup_fs s) part n disk" using assms(4) by (simp add: part_image_def hdd_read_def setup_fs_def)
  have root: "root_dir (setup_fs s) \<noteq> 0" "directory (root_direntry (setup_fs s)) = root_dir (setup_fs s)"
    "entries (dirs (setup_fs s) (root_dir (setup_fs s))) = []" "d_parent (dirs (setup_fs s) (root_dir (setup_fs s))) = root_dir (setup_fs s)"
    "heap_fresh {root_dir (setup_fs s)} (e_heap (setup_fs s))" "4 + 3 * length (recs 2) \<le> length (e_heap (setup_fs s))"
    using assms(10-12) l by (simp_all add: setup_fs_def algebra_simps)
  from mount_known [OF assms(1-3) img assms(5-8) root] obtain v mnt f K where
    v: "\<And>load b fss. do_mount bds (Some ext2fs # fss) load b CHR 0x00 maj mnr ''/'' (setup_fs s) = ret (v, SUCCESS)"
      "same_inodes f fs n disk" "tree mnt f n disk dnos recs K v" "root_dir v \<in> K" "d_inode_no (dirs v (root_dir v)) = 2"
      "length (e_heap (setup_fs s)) \<le> length (e_heap v) + (4 + 3 * length (recs 2))" by auto
  have "(1 + length ls + 0) * (1 + 3 * N) \<le> length (e_heap v)" using v(6) assms(12) l by (simp add: setup_fs_def algebra_simps)
  then have hl: "ext2_holds mnt f n disk dnos recs N K (1 + length ls + 0) v"
    using same_inodes_tree [OF v(2) assms(7)] assms(9) v(2,3) mountable_block_size(2,1) [of part disk n, folded assms(5), OF assms(6)]
    by (simp add: ext2_holds_def same_inodes_def)
  have li: "image_lines d f disk recs 1 (d_inode_no (dirs v (root_dir v))) = Some ls"
    using assms(8,14) image_lines_same [OF v(2) assms(7)] by (simp add: v(5))
  from ext2_print.print_source [OF conjI [OF hl no_devices_same [OF v(2) assms(7,13)]] v(4) _ li, of "out @ [''/'' @ newline]"]
  obtain s' w where "print_dir fetch_dir (root_dir v) 1 (v, out @ [''/'' @ newline]) = ret (s', (out @ [''/'' @ newline]) @ w)"
    "filter (\<lambda>l. l \<noteq> loaded_warning) w = ls" by auto
  then have "print_file_tree fetch_dir (v, out) = ret (s', out @ (''/'' @ newline) # w)"
    "filter (\<lambda>l. l \<noteq> loaded_warning) w = ls" by (simp_all add: print_file_tree_def)
  then show ?thesis using v(1) unfolding init_ext2_first by blast
qed

theorem print_file_tree_spec_witness:
  "\<exists>v s' w. do_mount [Some tree_disk] (init_ext2 (replicate MAX_FILESYSTEMS None)) load_ext2 CHR 0x00 CHR 0x00 (bd_major tree_disk) 1 ''/''
      (setup_fs tree_state) = ret (v, SUCCESS) \<and>
    print_file_tree fetch_dir (v, []) = ret (s', (''/'' @ newline) # w) \<and>
    filter (\<lambda>l. l \<noteq> loaded_warning) w = ['' d'' @ newline, ''  ab'' @ newline]"
proof -
  let ?ls = "['' d'' @ newline, ''  ab'' @ newline]"
  have N: "\<forall>ino\<in>{2, 11}. length (tree_recs ino) \<le> 3" by (simp add: tree_recs_def)
  have f: "fs_type disk_part = 0x83" "root_dir tree_state \<noteq> 0" by (simp_all add: disk_part_def tree_state_ok(3))
  have h: "3 + (2 + length ?ls) * (1 + 3 * 3) \<le> length (e_heap tree_state)" by (simp add: tree_state_ok(5))
  have c: "char_of (97 :: nat) = CHR ''a''" "char_of (98 :: nat) = CHR ''b''" "char_of (100 :: nat) = CHR ''d''"
    "char_of (46 :: nat) = CHR ''.''" by (simp_all add: char_of_eq_iff)
  have d: "no_devices (tree_fs disk_part) tree_image {2, 11} tree_recs"
    by (simp add: no_devices_def tree_recs_def rec_is_dir_def tree_modes F_DIR_def)
  note rec = tree_recs_def rec_name_def rec_is_dir_def tree_modes F_DIR_def c
  have "tree_line (Suc (Suc 0)) ''ab'' = ''  ab'' @ newline" by (simp add: tree_line_def)
  then have sub: "image_lines (Suc 0) (tree_fs disk_part) tree_image tree_recs (Suc (Suc 0)) 11 = Some [''  ab'' @ newline]" by (simp add: rec)
  have "tree_line 1 ''d'' = '' d'' @ newline" by (simp add: tree_line_def)
  then have ls: "image_lines (Suc (Suc 0)) (tree_fs disk_part) tree_image tree_recs 1 2 = Some ?ls"
    using sub by (subst dir_lines.simps(2)) (simp add: rec del: dir_lines.simps(2))
  from print_file_tree_spec [OF tree_state_ok(6,7) f(1) tree_state_ok(1) tree_fs_def tree_state_ok(2) tree_image_tree _ N f(2)
      tree_state_ok(4) h d ls, where b = "CHR 0x00" and out = "[]"]
  show ?thesis by auto
qed

end
