(* ===== verification/Syscall.thy ===== *)
theory Syscall
  imports Vfs Errno
begin

unbundle bit_operations_syntax

text \<open>
  System calls: the kernel's handlers that are not in the file system (\<open>kernel/sched/process.c\<close>,
  \<open>kernel/timer.c\<close>, \<open>kernel/uname.c\<close>), the table \<open>kernel/syscall.c\<close>, the entry \<open>arch/i686/syscall.s\<close> that looks
  a number up in it, and the user side, \<open>userspace/stdlib/syscalls.c\<close> with the functions of the user library that only
  make system calls (\<open>errno.c\<close>, \<open>unistd.c\<close>, \<open>dirent.c\<close>, \<open>malloc.c\<close>, \<open>wait.c\<close>). A user process is its memory, the error code of
  its library and whatever else the kernel keeps for it (the record's extension). The functions of the user library
  have the suffix \<open>_u\<close>, because the kernel has functions of the same names; they take the trap into the kernel as an argument,
  so that the two sides can be put together, as they are below.
\<close>

section \<open>The kernel side\<close>

definition sys_fork :: s32 where "sys_fork = - ENOSYS"

text \<open>\<open>sys_exit\<close> returns nothing: the caller finds in \<open>eax\<close> what was there before.\<close>

definition sys_exit :: "u32 \<Rightarrow> s32 \<Rightarrow> u32" where "sys_exit eax status = eax"

definition sys_kill :: "s32 \<Rightarrow> s32 \<Rightarrow> s32" where "sys_kill pid sig = - ENOSYS"
definition sys_getpid :: s32 where "sys_getpid = 0"
definition sys_execve :: "addr \<Rightarrow> addr \<Rightarrow> addr \<Rightarrow> s32" where "sys_execve filename argv envp = - ENOSYS"
definition sys_chdir :: "addr \<Rightarrow> s32" where "sys_chdir path = - ENOSYS"
definition sys_getcwd :: "addr \<Rightarrow> u32 \<Rightarrow> s32" where "sys_getcwd buf n = - ENOSYS"
definition sys_brk :: "addr \<Rightarrow> s32" where "sys_brk a = - ENOSYS"
definition sys_times :: "addr \<Rightarrow> s32" where "sys_times buf = - ENOSYS"
definition sys_gettimeofday :: "addr \<Rightarrow> addr \<Rightarrow> s32" where "sys_gettimeofday tv tz = - ENOSYS"
definition sys_uname :: "addr \<Rightarrow> s32" where "sys_uname buf = - ENOSYS"

text \<open>
  The table holds function pointers, called with the four words of the call on the stack; \<open>nop\<close> is the null
  pointer. A handler with fewer parameters does not look at the rest.
\<close>

type_synonym sys_call = "u32 \<Rightarrow> u32 \<Rightarrow> u32 \<Rightarrow> u32 \<Rightarrow> u32"

definition nop :: "sys_call option" where "nop = None"

definition syscall_table :: "u32 \<Rightarrow> sys_call option list" where
  "syscall_table eax = [
     nop,
     Some (\<lambda>a b c d. sys_exit eax a),
     Some (\<lambda>a b c d. sys_fork),
     Some (\<lambda>a b c d. sys_read a b c),
     Some (\<lambda>a b c d. sys_write a b c),
     Some (\<lambda>a b c d. sys_open a b c),
     Some (\<lambda>a b c d. sys_close a),
     nop, nop,
     Some (\<lambda>a b c d. sys_link a b),
     Some (\<lambda>a b c d. sys_unlink a),
     Some (\<lambda>a b c d. sys_execve a b c),
     Some (\<lambda>a b c d. sys_chdir a),
     nop, nop, nop, nop, nop,
     Some (\<lambda>a b c d. sys_stat a b),
     Some (\<lambda>a b c d. sys_lseek a b c),
     Some (\<lambda>a b c d. sys_getpid),
     nop, nop, nop, nop, nop, nop, nop,
     Some (\<lambda>a b c d. sys_fstat a b),
     nop, nop, nop, nop, nop, nop, nop, nop,
     Some (\<lambda>a b c d. sys_kill a b),
     nop, nop, nop, nop, nop,
     Some (\<lambda>a b c d. sys_times a),
     nop,
     Some (\<lambda>a b c d. sys_brk a),
     nop, nop, nop, nop, nop, nop, nop, nop, nop, nop, nop, nop,
     nop,
     Some (\<lambda>a b c d. sys_uname a),
     nop, nop, nop, nop, nop, nop, nop, nop, nop, nop, nop, nop,
     nop, nop, nop, nop, nop, nop,
     Some (\<lambda>a b c d. sys_gettimeofday a b),
     nop, nop, nop, nop, nop, nop, nop, nop, nop, nop, nop, nop,
     nop, nop, nop, nop, nop, nop, nop, nop, nop, nop, nop, nop,
     nop, nop, nop, nop, nop, nop,
     Some (\<lambda>a b c d. sys_uname a),
     nop, nop, nop, nop, nop, nop, nop, nop, nop, nop, nop, nop,
     Some (\<lambda>a b c d. sys_uname a),
     nop, nop, nop, nop, nop, nop, nop, nop, nop, nop, nop, nop,
     nop, nop, nop, nop, nop, nop, nop, nop, nop, nop, nop, nop,
     nop, nop, nop, nop, nop, nop, nop, nop, nop, nop, nop, nop,
     nop, nop, nop, nop, nop, nop, nop, nop, nop, nop, nop, nop,
     nop, nop, nop, nop, nop, nop, nop, nop, nop, nop, nop, nop,
     Some (\<lambda>a b c d. sys_getcwd a b)]"

text \<open>
  The entry: the address of the table's entry is \<open>syscall_table + 4 * eax\<close>, with the upper half of the product dropped, and
  nothing compares the number with the table's length. The low half of \<open>eax\<close> is 16 (the segment selector that was just loaded)
  and the high half that of \<open>-38\<close> when the handler starts. Of the process the handlers in the table change nothing.
\<close>

definition syscall_handler :: "u32 \<Rightarrow> u32 \<Rightarrow> u32 \<Rightarrow> u32 \<Rightarrow> u32 \<Rightarrow> 's \<Rightarrow> (u32 \<times> 's) exec" where
  "syscall_handler eax ebx ecx edx esi s =
     (let i = unat (eax * 4) div 4; tbl = syscall_table 0xffff0010
      in if i < length tbl
         then case tbl ! i of None \<Rightarrow> ret (- 38, s) | Some f \<Rightarrow> ret (f ebx ecx edx esi, s)
         else fail Out_Of_Bounds)"

section \<open>The user side\<close>

record ulibc =
  umem :: mem
  actual_errno :: s32

type_synonym 'z trap = "u32 \<Rightarrow> u32 \<Rightarrow> u32 \<Rightarrow> u32 \<Rightarrow> u32 \<Rightarrow> 'z ulibc_scheme \<Rightarrow> (u32 \<times> 'z ulibc_scheme) exec"

type_synonym ('z, 'r) ucall = "'z ulibc_scheme \<Rightarrow> ('r \<times> 'z ulibc_scheme) exec"

definition syscall :: "'z trap \<Rightarrow> u32 \<Rightarrow> u32 \<Rightarrow> u32 \<Rightarrow> u32 \<Rightarrow> u32 \<Rightarrow> ('z, s32) ucall" where
  "syscall int80 nr arg1 arg2 arg3 arg4 s =
     bindX (int80 nr arg1 arg2 arg3 arg4 s) (\<lambda>(r, s).
       if r <s 0 then ret (- 1, s\<lparr>actual_errno := - r\<rparr>) else ret (r, s))"

definition exit_u :: "'z trap \<Rightarrow> s32 \<Rightarrow> ('z, unit) ucall" where
  "exit_u int80 err s = bindX (syscall int80 1 err 0 0 0 s) (\<lambda>(_, s). ret ((), s))"
definition fork_u :: "'z trap \<Rightarrow> ('z, s32) ucall" where
  "fork_u int80 = syscall int80 2 0 0 0 0"
definition read_u :: "'z trap \<Rightarrow> s32 \<Rightarrow> addr \<Rightarrow> u32 \<Rightarrow> ('z, s32) ucall" where
  "read_u int80 fd buf len = syscall int80 3 fd buf len 0"
definition write_u :: "'z trap \<Rightarrow> s32 \<Rightarrow> addr \<Rightarrow> u32 \<Rightarrow> ('z, s32) ucall" where
  "write_u int80 fd buf len = syscall int80 4 fd buf len 0"
definition open_u :: "'z trap \<Rightarrow> addr \<Rightarrow> s32 \<Rightarrow> ('z, s32) ucall" where
  "open_u int80 path flags = syscall int80 5 path flags 0 0"
definition close_u :: "'z trap \<Rightarrow> s32 \<Rightarrow> ('z, s32) ucall" where
  "close_u int80 fd = syscall int80 6 fd 0 0 0"
definition waitpid_u :: "'z trap \<Rightarrow> s32 \<Rightarrow> addr \<Rightarrow> s32 \<Rightarrow> ('z, s32) ucall" where
  "waitpid_u int80 pid wstatus options = syscall int80 7 pid wstatus options 0"
definition chdir_u :: "'z trap \<Rightarrow> addr \<Rightarrow> ('z, s32) ucall" where
  "chdir_u int80 path = syscall int80 12 path 0 0 0"
definition kdebug_u :: "'z trap \<Rightarrow> u32 \<Rightarrow> u32 \<Rightarrow> u32 \<Rightarrow> ('z, s32) ucall" where
  "kdebug_u int80 request arg1 arg2 = syscall int80 17 request arg1 arg2 0"
definition getpid_u :: "'z trap \<Rightarrow> ('z, s32) ucall" where
  "getpid_u int80 = syscall int80 20 0 0 0 0"
definition uname_u :: "'z trap \<Rightarrow> addr \<Rightarrow> ('z, s32) ucall" where
  "uname_u int80 buf = syscall int80 109 buf 0 0 0"
definition getcwd_u :: "'z trap \<Rightarrow> addr \<Rightarrow> u32 \<Rightarrow> ('z, addr) ucall" where
  "getcwd_u int80 buf n s =
     bindX (syscall int80 183 buf n 0 0 s) (\<lambda>(r, s). if r = 0 then ret (buf, s) else ret (0, s))"
definition execve_u :: "'z trap \<Rightarrow> addr \<Rightarrow> addr \<Rightarrow> addr \<Rightarrow> ('z, s32) ucall" where
  "execve_u int80 filename argv envp = syscall int80 11 filename argv envp 0"

text \<open>The rest of the library that rests on them, and the stubs.\<close>

definition errno_u :: "'z ulibc_scheme \<Rightarrow> s32" where "errno_u s = actual_errno s"

definition PATH_MAX :: u32 where "PATH_MAX = 1024"

definition malloc_u :: "u32 \<Rightarrow> addr" where "malloc_u n = 0"
definition free_u :: "addr \<Rightarrow> mem \<Rightarrow> mem" where "free_u p m = m"
definition calloc_u :: "u32 \<Rightarrow> u32 \<Rightarrow> addr" where "calloc_u nmemb n = malloc_u (nmemb * n)"
definition realloc_u :: "addr \<Rightarrow> u32 \<Rightarrow> addr" where "realloc_u p n = 0"

definition getwd_u :: "'z trap \<Rightarrow> addr \<Rightarrow> ('z, addr) ucall" where
  "getwd_u int80 buf = getcwd_u int80 buf PATH_MAX"
definition get_current_dir_name_u :: "'z trap \<Rightarrow> ('z, addr) ucall" where
  "get_current_dir_name_u int80 = (let path = malloc_u PATH_MAX in getcwd_u int80 path PATH_MAX)"
definition wait_u :: "'z trap \<Rightarrow> addr \<Rightarrow> ('z, s32) ucall" where
  "wait_u int80 wstatus = waitpid_u int80 (- 1) wstatus 0"

definition O_RDONLY :: s32 where "O_RDONLY = 0"
definition O_DIRECTORY :: s32 where "O_DIRECTORY = 0x20"
definition O_RDWR :: s32 where "O_RDWR = 4"

text \<open>A \<open>DIR\<close> is one word, the file number. Its address is not checked.\<close>

definition opendir_u :: "'z trap \<Rightarrow> addr \<Rightarrow> ('z, addr) ucall" where
  "opendir_u int80 name s =
     bindX (open_u int80 name (O_RDONLY OR O_DIRECTORY) s) (\<lambda>(fd, s).
       if fd <s 0 then ret (0, s)
       else let dirp = malloc_u 4 in ret (dirp, s\<lparr>umem := store32 (umem s) dirp fd\<rparr>))"
definition closedir_u :: "addr \<Rightarrow> ('z, s32) ucall" where
  "closedir_u dirp s = ret (- 1, s\<lparr>actual_errno := ENOSYS\<rparr>)"
definition readdir_u :: "addr \<Rightarrow> ('z, addr) ucall" where
  "readdir_u dirp s = ret (0, s\<lparr>actual_errno := ENOSYS\<rparr>)"

lemmas ulibc_defs =
  exit_u_def fork_u_def read_u_def write_u_def open_u_def close_u_def waitpid_u_def chdir_u_def kdebug_u_def getpid_u_def
  uname_u_def getcwd_u_def execve_u_def errno_u_def getwd_u_def get_current_dir_name_u_def wait_u_def opendir_u_def

section \<open>What the user library relies on\<close>

text \<open>
  The interface between the two sides, as the library sees it: the kernel leaves the library's error code alone. Then a call
  reports its error in one way only.
\<close>

locale system_calls =
  fixes int80 :: "u32 \<Rightarrow> u32 \<Rightarrow> u32 \<Rightarrow> u32 \<Rightarrow> u32 \<Rightarrow> 'z ulibc_scheme \<Rightarrow> (u32 \<times> 'z ulibc_scheme) exec"
  assumes trap_errno: "int80 nr a b c d s = ret (r, s') \<Longrightarrow> actual_errno s' = actual_errno s"
begin

lemma syscall_protocol:
  assumes "syscall int80 nr a b c d s = ret (r, s')"
  shows "(0 \<le>s r \<and> actual_errno s' = actual_errno s) \<or> (r = - 1 \<and> actual_errno s' \<noteq> 0)"
proof -
  from assms obtain q t where q: "int80 nr a b c d s = ret (q, t)" "(if q <s 0 then ret (- 1, t\<lparr>actual_errno := - q\<rparr>) else ret (q, t)) = ret (r, s')"
    by (auto simp: syscall_def bindX_def split: option.splits sum.splits)
  show ?thesis
  proof (cases "q <s 0")
    case True
    then have "q \<noteq> 0" by auto
    with True q(2) show ?thesis by auto
  next
    case False
    with q show ?thesis using trap_errno [OF q(1)] by (auto simp: word_sless_alt word_sle_eq)
  qed
qed

text \<open>So a function that tests for a negative result, as the callers in this repository do, sees every error.\<close>

lemma opendir_error:
  assumes "opendir_u int80 name s = ret (0, s')" "actual_errno s = 0" "actual_errno s' = 0"
  shows "\<exists>fd t. open_u int80 name (O_RDONLY OR O_DIRECTORY) s = ret (fd, t) \<and> 0 \<le>s fd"
proof -
  from assms(1) obtain fd t where o: "open_u int80 name (O_RDONLY OR O_DIRECTORY) s = ret (fd, t)"
    and r: "(if fd <s 0 then ret (0, t) else let dirp = malloc_u 4 in ret (dirp, t\<lparr>umem := store32 (umem t) dirp fd\<rparr>)) = ret (0, s')"
    by (auto simp: opendir_u_def bindX_def split: option.splits sum.splits)
  show ?thesis
  proof (cases "fd <s 0")
    case True
    with r have "t = s'" by simp
    moreover have "\<not> 0 \<le>s fd" using True by (simp add: word_sless_alt word_sle_eq)
    ultimately show ?thesis using syscall_protocol [OF o [unfolded open_u_def]] assms(3) by simp
  next
    case False
    with o show ?thesis by (auto simp: word_sless_alt word_sle_eq)
  qed
qed

end

section \<open>The table\<close>

lemmas sys_call_defs =
  sys_fork_def sys_exit_def sys_kill_def sys_getpid_def sys_execve_def sys_chdir_def sys_getcwd_def sys_brk_def sys_times_def
  sys_gettimeofday_def sys_uname_def sys_open_def sys_close_def sys_read_def sys_write_def sys_lseek_def sys_link_def
  sys_unlink_def sys_stat_def sys_fstat_def nop_def ENOSYS_def

lemma syscall_table_length: "length (syscall_table eax) = 184"
  by (simp add: syscall_table_def)

text \<open>The entries, one by one: only \<open>sys_exit\<close> and \<open>sys_getpid\<close> do not answer that they are missing.\<close>

lemma syscall_table_entries:
  "list_all (\<lambda>(i, e). case e of None \<Rightarrow> i \<noteq> 1 \<and> i \<noteq> 20
      | Some f \<Rightarrow> \<forall>a b c d. f a b c d = (if i = 1 then eax else if i = 20 then 0 else - 38)) (enumerate 0 (syscall_table eax))"
  by (simp add: syscall_table_def sys_call_defs)

lemma syscall_table_nth:
  assumes "i < 184"
  shows "case syscall_table eax ! i of None \<Rightarrow> i \<noteq> 1 \<and> i \<noteq> 20
      | Some f \<Rightarrow> \<forall>a b c d. f a b c d = (if i = 1 then eax else if i = 20 then 0 else - 38)"
proof -
  have "(i, syscall_table eax ! i) \<in> set (enumerate 0 (syscall_table eax))"
    using assms by (simp add: in_set_enumerate_eq syscall_table_length)
  from bspec [OF syscall_table_entries [unfolded list_all_iff] this] show ?thesis
    by (simp only: prod.case)
qed

lemma entry_index: "unat (nr * 4 :: u32) div 4 = unat nr mod 2 ^ 30"
proof -
  have "unat (nr * 4) = (unat nr * 4) mod 4294967296" by (simp add: unat_word_ariths)
  also have "\<dots> = (unat nr mod 1073741824) * 4" using mult_mod_left [of "unat nr" 1073741824 4] by simp
  finally show ?thesis by simp
qed

interpretation kernel: system_calls syscall_handler
  by unfold_locales (auto simp: syscall_handler_def Let_def split: if_splits option.splits)

lemma syscall_handler_eq:
  "syscall_handler nr a b c d s =
     (let i = unat nr mod 2 ^ 30
      in if i < 184 then ret (if i = 1 then 0xffff0010 else if i = 20 then 0 else - 38, s) else fail Out_Of_Bounds)"
  using syscall_table_nth [of "unat nr mod 2 ^ 30" "0xffff0010"]
  by (auto simp: syscall_handler_def entry_index syscall_table_length Let_def split: option.splits)

text \<open>Every call of the library on this kernel.\<close>

lemma syscall_eq:
  "syscall syscall_handler nr a b c d s =
     (let i = unat nr mod 2 ^ 30
      in if 184 \<le> i then fail Out_Of_Bounds
         else if i = 20 then ret (0, s)
         else ret (- 1, s\<lparr>actual_errno := if i = 1 then 65520 else 38\<rparr>))"
  by (auto simp: syscall_def syscall_handler_eq bindX_def Let_def word_sless_alt)

lemma stdlib_calls:
  "read_u syscall_handler fd buf len s = ret (- 1, s\<lparr>actual_errno := 38\<rparr>)"
  "write_u syscall_handler fd buf len s = ret (- 1, s\<lparr>actual_errno := 38\<rparr>)"
  "open_u syscall_handler path flags s = ret (- 1, s\<lparr>actual_errno := 38\<rparr>)"
  "close_u syscall_handler fd s = ret (- 1, s\<lparr>actual_errno := 38\<rparr>)"
  "fork_u syscall_handler s = ret (- 1, s\<lparr>actual_errno := 38\<rparr>)"
  "waitpid_u syscall_handler pid wstatus options s = ret (- 1, s\<lparr>actual_errno := 38\<rparr>)"
  "chdir_u syscall_handler path s = ret (- 1, s\<lparr>actual_errno := 38\<rparr>)"
  "execve_u syscall_handler path argv envp s = ret (- 1, s\<lparr>actual_errno := 38\<rparr>)"
  "uname_u syscall_handler buf s = ret (- 1, s\<lparr>actual_errno := 38\<rparr>)"
  "kdebug_u syscall_handler request a b s = ret (- 1, s\<lparr>actual_errno := 38\<rparr>)"
  "getwd_u syscall_handler buf s = ret (0, s\<lparr>actual_errno := 38\<rparr>)"
  "opendir_u syscall_handler path s = ret (0, s\<lparr>actual_errno := 38\<rparr>)"
  "getpid_u syscall_handler s = ret (0, s)"
  "exit_u syscall_handler n s = ret ((), s\<lparr>actual_errno := 65520\<rparr>)"
  by (simp_all add: ulibc_defs syscall_eq bindX_def word_sless_alt)

section \<open>Properties\<close>



text \<open>
  C25: System calls from a user program to the kernel and back. The call number is taken modulo \<open>2^30\<close> and not compared with
  the table: a number below 184 gives the process id 0 for \<open>getpid\<close> and else the result -1 with the error code
  38 (\<open>ENOSYS\<close>); \<open>exit\<close> comes back, and leaves an error code that is no code at all; any other number reads a handler's address
  from behind the table. What the library builds on the calls reports their errors: \<open>getwd\<close> and \<open>opendir\<close> a null pointer.
\<close>

theorem user_calls_spec:
  "syscall syscall_handler nr a b c d s =
     (let i = unat nr mod 2 ^ 30
      in if 184 \<le> i then fail Out_Of_Bounds
         else if i = 20 then ret (0, s)
         else ret (- 1, s\<lparr>actual_errno := if i = 1 then 65520 else 38\<rparr>)) \<and>
   read_u syscall_handler fd buf len s = ret (- 1, s\<lparr>actual_errno := ENOSYS\<rparr>) \<and>
   getpid_u syscall_handler s = ret (0, s) \<and>
   exit_u syscall_handler n s = ret ((), s\<lparr>actual_errno := 65520\<rparr>) \<and>
   getwd_u syscall_handler buf s = ret (0, s\<lparr>actual_errno := ENOSYS\<rparr>) \<and>
   opendir_u syscall_handler path s = ret (0, s\<lparr>actual_errno := ENOSYS\<rparr>)"
  using syscall_eq [of nr a b c d s] by (simp add: stdlib_calls ENOSYS_def)

end
