(* ===== verification/Ustring.thy ===== *)
theory Ustring
  imports CString "HOL-Library.Signed_Division"
begin

text \<open>
  The string functions of the user library, \<open>userspace/stdlib/string.c\<close>. It is another library than the
  kernel's: the loops of \<open>strlen\<close>, \<open>strcmp\<close>, \<open>strcpy\<close> and \<open>reverse\<close> are the same and are shared with \<open>CString\<close>, while
  \<open>strcat\<close> returns the number of characters it appended and \<open>itoa\<close> takes a base, finds the digits with a growing
  divisor instead of a shrinking number, and writes a sign. The functions have the suffix \<open>_u\<close>. A string literal is read
  from memory, at the address \<open>lit\<close> gives it. Theorem \<open>itoa_u_spec\<close> says for which numbers \<open>itoa\<close> is right, and
  the overflow theorem where the divisor leaves the range of \<open>int\<close> first.
\<close>

section \<open>The code\<close>

definition errnos :: "string list" where
  "errnos = [
     ''Success'', ''Operation not permitted'', ''No such file or directory'', ''No such process'',
     ''Interrupted system call'', ''Input/output error'', ''No such device or address'', ''Argument list too long'',
     ''Exec format error'', ''Bad file descriptor'', ''No child processes'', ''Resource temporarily unavailable'',
     ''Cannot allocate memory'', ''Permission denied'', ''Bad address'', ''Block device required'',
     ''Device or resource busy'', ''File exists'', ''Invalid cross-device link'', ''No such device'',
     ''Not a directory'', ''Is a directory'', ''Invalid argument'', ''Too many open files in system'',
     ''Too many open files'', ''Inappropriate ioctl for device'', ''Text file busy'', ''File too large'',
     ''No space left on device'', ''Illegal seek'', ''Read-only file system'', ''Too many links'', ''Broken pipe'',
     ''Numerical argument out of domain'', ''Numerical result out of range'', ''Resource deadlock avoided'',
     ''File name too long'', ''No locks available'', ''Function not implemented'', ''Directory not empty'',
     ''Too many levels of symbolic links'', ''Resource temporarily unavailable'', ''No message of desired type'',
     ''Identifier removed'', ''Channel number out of range'', ''not synchronized'', ''halted'', ''reset'',
     ''Link number out of range'', ''Protocol driver not attached'', ''No CSI structure available'', ''halted'',
     ''Invalid exchange'', ''Invalid request descriptor'', ''Exchange full'', ''No anode'', ''Invalid request code'',
     ''Invalid slot'', ''Resource deadlock avoided'', ''Bad font file format'', ''Device not a stream'',
     ''No data available'', ''Timer expired'', ''Out of streams resources'', ''Machine is not on the network'',
     ''Package not installed'', ''Object is remote'', ''Link has been severed'', ''Advertise error'',
     ''Srmount error'', ''Communication error on send'', ''Protocol error'', ''Multihop attempted'',
     ''RFS specific error'', ''Bad message'', ''Value too large for defined data type'',
     ''Name not unique on network'', ''File descriptor in bad state'', ''Remote address changed'',
     ''Can not access a needed shared library'', ''Accessing a corrupted shared library'',
     ''.lib section in a.out corrupted'', ''Attempting to link in too many shared libraries'',
     ''Cannot exec a shared library directly'', ''Invalid or incomplete multibyte or wide character'',
     ''Interrupted system call should be restarted'', ''Streams pipe error'', ''Too many users'',
     ''Socket operation on non-socket'', ''Destination address required'', ''Message too long'',
     ''Protocol wrong type for socket'', ''Protocol not available'', ''Protocol not supported'',
     ''Socket type not supported'', ''Operation not supported'', ''Protocol family not supported'',
     ''Address family not supported by protocol'', ''Address already in use'', ''Cannot assign requested address'',
     ''Network is down'', ''Network is unreachable'', ''Network dropped connection on reset'',
     ''Software caused connection abort'', ''Connection reset by peer'', ''No buffer space available'',
     ''Transport endpoint is already connected'', ''Transport endpoint is not connected'',
     ''Cannot send after transport endpoint shutdown'', ''Too many references: cannot splice'',
     ''Connection timed out'', ''Connection refused'', ''Host is down'', ''No route to host'',
     ''Operation already in progress'', ''Operation now in progress'', ''Stale file handle'',
     ''Structure needs cleaning'', ''Not a XENIX named type file'', ''No XENIX semaphores available'',
     ''Is a named type file'', ''Remote I/O error'', ''Disk quota exceeded'', ''No medium found'',
     ''Wrong medium type'', ''Operation canceled'', ''Required key not available'', ''Key has expired'',
     ''Key has been revoked'', ''Key was rejected by service'', ''Owner died'', ''State not recoverable'',
     ''Operation not possible due to RF-kill'', ''Memory page has hardware error'', ''Operation not supported'']"

definition strlen_u :: "mem \<Rightarrow> addr \<Rightarrow> u32 exec" where
  "strlen_u m str = strlen_loop m str 0"

text \<open>There is no test of the number: an index outside the table reads whatever is there.\<close>

definition strerror_u :: "s32 \<Rightarrow> string exec" where
  "strerror_u errnum =
     (if 0 \<le>s errnum \<and> unat errnum < length errnos then ret (errnos ! unat errnum) else fail Out_Of_Bounds)"

definition strcmp_u :: "mem \<Rightarrow> addr \<Rightarrow> addr \<Rightarrow> s32 exec" where
  "strcmp_u m s1 s2 = strcmp_loop m s1 s2 0"

definition reverse_u :: "mem \<Rightarrow> addr \<Rightarrow> mem exec" where
  "reverse_u m s = bindX (strlen_u m s) (\<lambda>len. ret (reverse_loop m s 0 (len - 1)))"

text \<open>
  \<open>while (*(dest++) != 0); dest--;\<close> leaves \<open>dest\<close> on the first zero, like the loop of the kernel's \<open>strcat\<close>; the test
  before it changes nothing.
\<close>

partial_function (option) strcat_loop :: "mem \<Rightarrow> addr \<Rightarrow> addr \<Rightarrow> u32 \<Rightarrow> (mem \<times> u32) exec" where
  "strcat_loop m dest src n =
     (if m src \<noteq> 0 then strcat_loop (m(dest := m src)) (dest + 1) (src + 1) (n + 1) else ret (m(dest := 0), n))"

definition strcat_u :: "mem \<Rightarrow> addr \<Rightarrow> addr \<Rightarrow> (mem \<times> u32) exec" where
  "strcat_u m dest src =
     bindX (if m dest \<noteq> 0 then strend_loop m dest else ret dest) (\<lambda>dest. strcat_loop m dest src 0)"

definition strcpy_u :: "mem \<Rightarrow> addr \<Rightarrow> addr \<Rightarrow> mem exec" where
  "strcpy_u m dest src = strcpy_loop m dest src"

definition get_letter :: "s32 \<Rightarrow> u8" where
  "get_letter n = (if n <s 10 then ucast (0x30 + n) else ucast (0x61 - 10 + n))"

text \<open>
  Division of \<open>int\<close>s truncates; the instruction traps on a zero divisor and on the one quotient that does not fit.
  Products of \<open>int\<close>s wrap around, as the instruction computes them.
\<close>

definition int_div :: "s32 \<Rightarrow> s32 \<Rightarrow> s32 exec" where
  "int_div a b = (if b = 0 \<or> (sint a = - 2147483648 \<and> b = - 1) then fail Div_Zero else ret (word_of_int (sint a sdiv sint b)))"

definition int_mod :: "s32 \<Rightarrow> s32 \<Rightarrow> s32 exec" where
  "int_mod a b = (if b = 0 \<or> (sint a = - 2147483648 \<and> b = - 1) then fail Div_Zero else ret (word_of_int (sint a smod sint b)))"

text \<open>\<open>while (n / last_div != 0)\<close>\<close>

partial_function (option) itoa_loop :: "mem \<Rightarrow> addr \<Rightarrow> s32 \<Rightarrow> s32 \<Rightarrow> s32 \<Rightarrow> s32 \<Rightarrow> (mem \<times> addr) exec" where
  "itoa_loop m buf n last_div divi base =
     bindX (int_div n last_div) (\<lambda>q.
       if q \<noteq> 0
       then bindX (int_mod n divi) (\<lambda>r. bindX (int_div r last_div) (\<lambda>d.
              itoa_loop (m(buf := get_letter d)) (buf + 1) n divi (divi * base) base))
       else ret (m, buf))"

definition itoa_u :: "(string \<Rightarrow> addr) \<Rightarrow> mem \<Rightarrow> s32 \<Rightarrow> addr \<Rightarrow> s32 \<Rightarrow> (mem \<times> addr) exec" where
  "itoa_u lit m n str base =
     (if n = 0 then bindX (strcpy_u m str (lit ''0'')) (\<lambda>m. ret (m, str))
      else let (n, m, buf) = (if n <s 0 then (- n, m(str := 0x2d), str + 1) else (n, m, str))
           in bindX (itoa_loop m buf n 1 base base) (\<lambda>(m, buf).
              bindX (reverse_u (m(buf := 0)) str) (\<lambda>m. ret (m, str))))"

definition strsize :: "(string \<Rightarrow> addr) \<Rightarrow> mem \<Rightarrow> u32 \<Rightarrow> addr \<Rightarrow> (mem \<times> addr) exec" where
  "strsize lit m n buf =
     (let (d, u) = (if n div (1024 * 1024 * 1024) > 0 then (n div (1024 * 1024 * 1024), ''G'')
                    else if n div (1024 * 1024) > 0 then (n div (1024 * 1024), ''M'')
                    else if n div 1024 > 0 then (n div 1024, ''K'')
                    else (n, ''B''))
      in bindX (itoa_u lit m d buf 10) (\<lambda>(m, _).
         bindX (strcat_u m buf (lit u)) (\<lambda>(m, _). ret (m, buf))))"

section \<open>Strings\<close>

lemma strlen_u_cstr: "cstr m p s \<Longrightarrow> strlen_u m p = ret (of_nat (length s))"
  by (simp add: strlen_u_def strlen_loop_cstr)

lemma reverse_u_eq: "reverse_u m p = bindX (reverse m p) (\<lambda>(m, _). ret m)"
  by (cases "strlen_loop m p 0") (auto simp: reverse_u_def reverse_def strlen_u_def strlen_def bindX_def split: sum.splits)

text \<open>Appending copies the string and its terminator, and counts.\<close>

lemma strcat_loop_eq:
  "cstr m p t \<Longrightarrow> length t < 4294967295 \<Longrightarrow> Suc (length t) \<le> unat (d - p) \<Longrightarrow>
   strcat_loop m d p n = ret (put_bytes m d (t @ [0]), n + of_nat (length t))"
proof (induction t arbitrary: m p d n)
  case Nil
  then show ?case by (subst strcat_loop.simps) simp
next
  case (Cons c t)
  have nz: "d - p \<noteq> 0" using Cons.prems(3) by auto
  have "unat (d - (p + 1)) = unat (d - p) - 1"
    using unat_minus_one [OF nz] by (simp add: diff_diff_add)
  then have "\<not> in_range d (p + 1) (Suc (length t))"
    using Cons.prems(3) by (auto simp: in_range_def)
  then have "cstr (m(d := c)) (p + 1) t = cstr m (p + 1) t"
    using Cons.prems(2) by (intro cstr_cong) auto
  then have c: "cstr (m(d := c)) (p + 1) t" using Cons.prems(1) by simp
  have l: "length t < 4294967295" "Suc (length t) \<le> unat (d + 1 - (p + 1))" using Cons.prems(2,3) by simp_all
  from Cons.IH [OF c l, of "n + 1"] show ?case using Cons.prems(1)
    by (subst strcat_loop.simps) (simp add: add.assoc del: fun_upd_apply)
qed

lemma strcat_u_eq:
  assumes "cstr m d s" "cstr m p t" "length t < 4294967295" "Suc (length t) \<le> unat (d + of_nat (length s) - p)"
  shows "strcat_u m d p = ret (put_bytes m (d + of_nat (length s)) (t @ [0]), of_nat (length t))"
proof -
  have "(if m d \<noteq> 0 then strend_loop m d else ret d) = ret (d + of_nat (length s))"
    using strend_loop_cstr [OF assms(1)] assms(1) by (cases s) auto
  then show ?thesis using strcat_loop_eq [OF assms(2-4), of 0] by (simp add: strcat_u_def)
qed

section \<open>Numbers\<close>

text \<open>The numeral of \<open>n\<close> to the base \<open>b\<close>, lowest digit first.\<close>

fun digits_of :: "nat \<Rightarrow> nat \<Rightarrow> u8 list" where
  "digits_of b n = (if n = 0 \<or> b < 2 then [] else get_letter (of_nat (n mod b)) # digits_of b (n div b))"

declare digits_of.simps [simp del]

text \<open>What \<open>itoa\<close> writes: the sign goes through the reversal with the digits, and comes out last.\<close>

definition itoa_text :: "nat \<Rightarrow> int \<Rightarrow> u8 list" where
  "itoa_text b n =
     (if n = 0 then [0x30] else if n < 0 then rev (digits_of b (nat (- n))) @ [0x2d] else rev (digits_of b (nat n)))"

lemma get_letter_nz: "d < 36 \<Longrightarrow> get_letter (of_nat d) \<noteq> 0"
proof -
  assume "d < 36"
  then have "d \<in> set [0..<36]" by simp
  then show ?thesis by (simp add: upt_rec) (elim disjE; simp add: get_letter_def word_sless_alt)
qed

lemma digits_of_nz: "b \<le> 36 \<Longrightarrow> 0 \<notin> set (digits_of b n)"
proof (induction b n rule: digits_of.induct)
  case (1 b n)
  then have "get_letter (of_nat (n mod b)) \<noteq> 0" if "\<not> b < 2"
    using that by (intro get_letter_nz) (simp add: less_le_trans [of _ b])
  then have "get_letter (of_nat (n mod b)) = 0 \<Longrightarrow> b < 2" by blast
  with 1 show ?case by (subst digits_of.simps) (auto dest!: sym [of 0 "get_letter _"])
qed

lemma length_digits_of: "n < b ^ k \<Longrightarrow> length (digits_of b n) \<le> k"
proof (induction k arbitrary: n)
  case 0
  then show ?case by (simp add: digits_of.simps)
next
  case (Suc k)
  then have "n div b < b ^ k" by (simp add: less_mult_imp_div_less mult.commute)
  with Suc.IH show ?case by (subst digits_of.simps) simp
qed

lemma sdiv_nat: "a < 2147483648 \<Longrightarrow> 0 < b \<Longrightarrow> b < 2147483648 \<Longrightarrow>
   int_div (of_nat a) (of_nat b) = ret (of_nat (a div b)) \<and> int_mod (of_nat a) (of_nat b) = ret (of_nat (a mod b))"
proof -
  assume a: "a < 2147483648" "0 < b" "b < 2147483648"
  have z: "sint (of_nat a :: s32) = int a" "sint (of_nat b :: s32) = int b" using a by (simp_all add: sint_of_nat_s32)
  have nz: "(of_nat b :: s32) \<noteq> 0" using z(2) a(2) by (metis of_nat_0_less_iff less_irrefl sint_0)
  have q: "int a sdiv int b = int (a div b)" "int a smod int b = int (a mod b)"
    using a by (simp_all add: signed_divide_int_def signed_modulo_int_def zdiv_int zmod_int sgn_if abs_if)
  show ?thesis using nz z q by (simp add: int_div_def int_mod_def)
qed

text \<open>The loop with the powers of the base, as long as the next power is an \<open>int\<close>.\<close>

lemma itoa_loop_eq:
  assumes "n < b ^ l" "b ^ l < 2147483648" "2 \<le> b" "i \<le> l"
  shows "itoa_loop m buf (of_nat n) (of_nat (b ^ i)) (of_nat (b ^ Suc i)) (of_nat b) =
     ret (put_bytes m buf (digits_of b (n div b ^ i)), buf + of_nat (length (digits_of b (n div b ^ i))))"
  using assms(4)
proof (induction "l - i" arbitrary: i m buf rule: less_induct)
  case less
  have n: "n < 2147483648" using assms(1,2) by simp
  have pow: "0 < b ^ j" "j \<le> l \<Longrightarrow> b ^ j < 2147483648" for j
    using assms(2,3) power_increasing [of j l b] by (simp, linarith)
  have q: "int_div (of_nat n) (of_nat (b ^ i)) = ret (of_nat (n div b ^ i))"
    using sdiv_nat [OF n pow(1) pow(2) [OF less.prems]] by blast
  have small: "n div b ^ i < 4294967296" using n div_le_dividend [of n "b ^ i"] by linarith
  show ?case
  proof (cases "n div b ^ i = 0")
    case True
    then show ?thesis using q by (subst itoa_loop.simps) (simp add: digits_of.simps)
  next
    case False
    have nz: "(of_nat (n div b ^ i) :: s32) \<noteq> 0"
      using False small by (metis unat_0 unat_of_nat_u32)
    have "b ^ i \<le> n" using False by (simp add: div_eq_0_iff)
    then have "b ^ i < b ^ l" using assms(1) by linarith
    then have i: "i < l" "Suc i \<le> l" using assms(3) by (simp_all add: power_strict_increasing_iff Suc_le_eq)
    have r: "int_mod (of_nat n) (of_nat (b ^ Suc i)) = ret (of_nat (n mod b ^ Suc i))"
      using sdiv_nat [OF n pow(1) pow(2) [OF i(2)]] by blast
    have r32: "n mod b ^ Suc i < 2147483648" using n by (meson le_less_trans mod_less_eq_dividend)
    have "int_div (of_nat (n mod b ^ Suc i)) (of_nat (b ^ i)) = ret (of_nat (n mod b ^ Suc i div b ^ i))"
      using sdiv_nat [OF r32 pow(1) pow(2) [OF less.prems]] by blast
    moreover have "n mod b ^ Suc i div b ^ i = n div b ^ i mod b"
      using pow(1) [of i] mod_mult2_eq [of n "b ^ i" b] by (simp add: mult.commute)
    ultimately have d: "int_div (of_nat (n mod b ^ Suc i)) (of_nat (b ^ i)) = ret (of_nat (n div b ^ i mod b))" by simp
    have next_div: "of_nat (b ^ Suc i) * of_nat b = (of_nat (b ^ Suc (Suc i)) :: s32)"
      by (simp add: mult.commute mult.left_commute)
    have dg: "digits_of b (n div b ^ i) = get_letter (of_nat (n div b ^ i mod b)) # digits_of b (n div b ^ Suc i)"
      using False assms(3) by (subst digits_of.simps) (simp flip: div_mult2_eq add: mult.commute)
    have "l - Suc i < l - i" using i by linarith
    note IH = less.hyps [OF this i(2), of "m(buf := get_letter (of_nat (n div b ^ i mod b)))" "buf + 1"]
    show ?thesis
      unfolding itoa_loop.simps [of m buf "of_nat n" "of_nat (b ^ i)"] q bindX_simps(3) r d dg next_div IH
      using nz by (simp add: add.assoc del: fun_upd_apply)
  qed
qed

lemma itoa_loop_start:
  assumes "n < b ^ l" "b ^ l < 2147483648" "2 \<le> b"
  shows "itoa_loop m buf (of_nat n) 1 (of_nat b) (of_nat b) =
     ret (put_bytes m buf (digits_of b n), buf + of_nat (length (digits_of b n)))"
  using itoa_loop_eq [OF assms, of 0 m buf] by simp

lemma reverse_u_cstr:
  assumes "cstr m p s" "length s < 2147483648"
  shows "\<exists>m'. reverse_u m p = ret m' \<and> cstr m' p (rev s) \<and> (\<forall>x. \<not> in_range x p (length s) \<longrightarrow> m' x = m x)"
  using reverse_cstr [OF assms] by (auto simp: reverse_u_eq)

lemma strcpy_zero:
  assumes "cstr m q [0x30]" "p \<noteq> q + 1"
  shows "strcpy_u m p q = ret (put_bytes m p [0x30, 0])"
  using assms unfolding strcpy_u_def by (simp add: strcpy_loop.simps)

lemma itoa_text_neg: "n < 0 \<Longrightarrow> itoa_text b n = rev (0x2d # digits_of b (nat (- n)))"
  and itoa_text_pos: "0 < n \<Longrightarrow> itoa_text b n = rev (digits_of b (nat n))"
  by (simp_all add: itoa_text_def)

text \<open>What is common to the two signs: the bytes before the reversal, and the reversal.\<close>

lemma itoa_finish:
  assumes "k < b ^ l" "b ^ l < 2147483648" "2 \<le> b" "b \<le> 36" "0 \<notin> set pre" "length pre \<le> 1"
  shows "\<exists>m'. bindX (itoa_loop (put_bytes m str pre) (str + of_nat (length pre)) (of_nat k) 1 (of_nat b) (of_nat b)) (\<lambda>(m, buf).
        bindX (reverse_u (m(buf := 0)) str) (\<lambda>m. ret (m, str))) = ret (m', str) \<and>
     cstr m' str (rev (pre @ digits_of b k)) \<and>
     (\<forall>x. \<not> in_range x str (Suc (length (pre @ digits_of b k))) \<longrightarrow> m' x = m x)"
proof -
  let ?s = "pre @ digits_of b k"
  have "l < 31"
  proof (rule ccontr)
    assume "\<not> l < 31"
    then have "(2 :: nat) ^ 31 \<le> 2 ^ l" by (intro power_increasing) simp_all
    also have "\<dots> \<le> b ^ l" using assms(3) by (rule power_mono) simp
    finally show False using assms(2) by simp
  qed
  then have len: "length ?s \<le> 32" using length_digits_of [OF assms(1)] assms(6) by simp
  have nz: "0 \<notin> set ?s" using assms(4,5) digits_of_nz by auto
  define m1 where "m1 = put_bytes m str (?s @ [0])"
  have lp: "itoa_loop (put_bytes m str pre) (str + of_nat (length pre)) (of_nat k) 1 (of_nat b) (of_nat b) =
      ret (put_bytes m str ?s, str + of_nat (length ?s))"
    using itoa_loop_start [OF assms(1-3)] by (simp add: put_bytes_append add.assoc)
  have m1: "(put_bytes m str ?s)(str + of_nat (length ?s) := 0) = m1"
    by (simp only: m1_def put_bytes_append [of m str ?s]) simp
  have "cstr m1 str ?s" unfolding m1_def using nz len by (intro cstr_put_bytes) simp_all
  from reverse_u_cstr [OF this] len obtain m' where m': "reverse_u m1 str = ret m'" "cstr m' str (rev ?s)"
    "\<forall>x. \<not> in_range x str (length ?s) \<longrightarrow> m' x = m1 x" by auto
  have "m' x = m x" if x: "\<not> in_range x str (Suc (length ?s))" for x
  proof -
    have "\<not> in_range x str (length ?s)" using x by (auto simp: in_range_def)
    then have "m' x = m1 x" using m'(3) by blast
    also have "\<dots> = m x" unfolding m1_def using x len by (intro put_bytes_other) simp_all
    finally show ?thesis .
  qed
  then show ?thesis unfolding lp bindX_simps(3) prod.case m1 using m'(1,2) by simp
qed

lemma itoa_u_cstr:
  assumes "nat \<bar>sint n\<bar> < b ^ l" "b ^ l < 2147483648" "2 \<le> b" "b \<le> 36"
    and "n = 0 \<Longrightarrow> cstr m (lit ''0'') [0x30]" "n = 0 \<Longrightarrow> str \<noteq> lit ''0'' + 1"
  shows "\<exists>m'. itoa_u lit m n str (of_nat b) = ret (m', str) \<and> cstr m' str (itoa_text b (sint n)) \<and>
    (\<forall>x. \<not> in_range x str (Suc (length (itoa_text b (sint n)))) \<longrightarrow> m' x = m x)"
proof -
  consider "n = 0" | "n <s 0" | "n \<noteq> 0" "\<not> n <s 0" by blast
  then show ?thesis
  proof cases
    case 1
    have "cstr (put_bytes m str ([0x30] @ [0])) str [0x30]" by (rule cstr_put_bytes) simp_all
    moreover have "put_bytes m str [0x30, 0] x = m x" if "\<not> in_range x str 2" for x
      using that by (intro put_bytes_other) (simp_all add: numeral_2_eq_2)
    ultimately show ?thesis using 1 strcpy_zero [OF assms(5,6)]
      by (simp add: itoa_u_def itoa_text_def numeral_2_eq_2 del: put_bytes.simps cstr.simps)
  next
    case 2
    then have neg: "sint n < 0" by (simp add: word_sless_alt)
    moreover have "sint n \<noteq> - 2147483648" using assms(1,2) by auto
    then have "sint (- n) = - sint n" using sint_s32_range [of n] sint_sub_nowrap [of 0 n] by simp
    then have "of_int (- sint n) = - n" by simp
    then have n: "of_nat (nat (- sint n)) = - n" using neg by simp
    have "nat (- sint n) < b ^ l" using assms(1) neg by simp
    from itoa_finish [OF this assms(2-4), of "[0x2d]" m str] show ?thesis
      using 2 neg unfolding n itoa_text_neg [OF neg] by (auto simp: itoa_u_def)
  next
    case 3
    have "sint n \<noteq> 0"
    proof
      assume "sint n = 0"
      moreover have "n = of_int (sint n)" by simp
      ultimately show False using 3(1) by simp
    qed
    then have pos: "0 < sint n" using 3(2) by (simp add: word_sless_alt)
    then have n: "of_nat (nat (sint n)) = n" by simp
    have "nat (sint n) < b ^ l" using assms(1) pos by simp
    from itoa_finish [OF this assms(2-4), of "[]" m str] show ?thesis
      using 3 unfolding n itoa_text_pos [OF pos] by (auto simp: itoa_u_def)
  qed
qed

text \<open>Where the next power of 16 is 0: the loop reaches it for every number of eight hexadecimal digits.\<close>

lemma itoa_loop_hex_traps:
  assumes "268435456 \<le> n" "n < 2147483648" "i \<le> 7"
  shows "itoa_loop m buf (of_nat n) (of_nat (16 ^ i)) (of_nat (16 ^ Suc i)) 16 = fail Div_Zero"
  using assms(3)
proof (induction "7 - i" arbitrary: i m buf)
  case 0
  then have i: "i = 7" by simp
  have "int_div (of_nat n) (of_nat (16 ^ 7)) = ret (of_nat (n div 16 ^ 7))"
    using sdiv_nat [OF assms(2), of "16 ^ 7"] by simp
  moreover have "unat (of_nat (n div 16 ^ 7) :: s32) = n div 16 ^ 7"
    using assms(2) by (intro unat_of_nat_u32) (simp add: less_mult_imp_div_less)
  moreover have "n div 16 ^ 7 \<noteq> 0" using assms(1) by (simp add: div_eq_0_iff)
  ultimately have "int_div (of_nat n) (of_nat (16 ^ 7)) = ret (of_nat (n div 16 ^ 7))" "(of_nat (n div 16 ^ 7) :: s32) \<noteq> 0"
    by (auto simp del: of_nat_div)
  moreover have "int_mod (of_nat n) (of_nat (16 ^ Suc 7)) = fail Div_Zero" by (simp add: int_mod_def)
  ultimately show ?case unfolding i by (subst itoa_loop.simps) (simp del: of_nat_power power_Suc)
next
  case (Suc j)
  then have i: "i < 7" by simp
  have p7: "(16 :: nat) ^ Suc i \<le> 16 ^ 7" using i by (intro power_increasing) simp_all
  then have p: "(16 :: nat) ^ i < 2147483648" "(16 :: nat) ^ Suc i < 2147483648" "(16 :: nat) ^ i \<le> n" using assms(1) by simp_all
  have d: "int_div (of_nat n) (of_nat (16 ^ i)) = ret (of_nat (n div 16 ^ i))"
    using sdiv_nat [OF assms(2) _ p(1)] by simp
  have r: "int_mod (of_nat n) (of_nat (16 ^ Suc i)) = ret (of_nat (n mod 16 ^ Suc i))"
    using sdiv_nat [OF assms(2) _ p(2)] by simp
  have "n mod 16 ^ Suc i < 2147483648" using assms(2) by (meson le_less_trans mod_less_eq_dividend)
  then obtain q where q: "int_div (of_nat (n mod 16 ^ Suc i)) (of_nat (16 ^ i)) = ret q"
    using sdiv_nat [OF _ _ p(1)] by simp
  have "n div 16 ^ i < 4294967296" using assms(2) div_le_dividend [of n "16 ^ i"] by linarith
  moreover have "n div 16 ^ i \<noteq> 0" using p(3) by (simp add: div_eq_0_iff)
  ultimately have nz: "(of_nat (n div 16 ^ i) :: s32) \<noteq> 0" by (metis unat_0 unat_of_nat_u32)
  have nx: "of_nat (16 ^ Suc i) * 16 = (of_nat (16 ^ Suc (Suc i)) :: s32)" by simp
  have "j = 7 - Suc i" "Suc i \<le> 7" using Suc.hyps(2) i by simp_all
  note IH = Suc.hyps(1) [OF this, of "m(buf := get_letter q)" "buf + 1"]
  show ?case unfolding itoa_loop.simps [of m buf "of_nat n" "of_nat (16 ^ i)"] d r bindX_simps(3) q nx IH
    using nz by simp
qed

section \<open>Sizes\<close>

definition size_text :: "u32 \<Rightarrow> u8 list" where
  "size_text n =
     (if unat n < 1024 then itoa_text 10 (uint n) @ [0x42]
      else if unat n < 1024 * 1024 then itoa_text 10 (uint n div 1024) @ [0x4b]
      else if unat n < 1024 * 1024 * 1024 then itoa_text 10 (uint n div (1024 * 1024)) @ [0x4d]
      else itoa_text 10 (uint n div (1024 * 1024 * 1024)) @ [0x47])"

text \<open>The literals, in memory, outside \<open>n\<close> bytes of a buffer.\<close>

definition literals_ok :: "(string \<Rightarrow> addr) \<Rightarrow> mem \<Rightarrow> addr \<Rightarrow> nat \<Rightarrow> bool" where
  "literals_ok lit m p n \<longleftrightarrow> (\<forall>c\<in>{CHR ''0'', CHR ''B'', CHR ''K'', CHR ''M'', CHR ''G''}. cstr m (lit [c]) [of_char c] \<and>
     (\<forall>x. in_range x (lit [c]) 2 \<longrightarrow> \<not> in_range x p n))"

lemma literals_cong:
  "literals_ok lit m p n \<Longrightarrow> (\<And>x. \<not> in_range x p n \<Longrightarrow> m' x = m x) \<Longrightarrow> literals_ok lit m' p n"
proof -
  assume a: "literals_ok lit m p n" "\<And>x. \<not> in_range x p n \<Longrightarrow> m' x = m x"
  have "cstr m' (lit [c]) [of_char c]" if "c \<in> {CHR ''0'', CHR ''B'', CHR ''K'', CHR ''M'', CHR ''G''}" for c
    using a that by (subst cstr_cong [where m' = m]) (auto simp: literals_ok_def numeral_2_eq_2)
  with a(1) show ?thesis by (auto simp: literals_ok_def)
qed

lemma size_step:
  assumes "literals_ok lit m buf 16" "unat d < 10000" "c \<in> {CHR ''B'', CHR ''K'', CHR ''M'', CHR ''G''}"
  shows "\<exists>m'. bindX (itoa_u lit m d buf 10) (\<lambda>(m, _). bindX (strcat_u m buf (lit [c])) (\<lambda>(m, _). ret (m, buf))) = ret (m', buf) \<and>
    cstr m' buf (itoa_text 10 (uint d) @ [of_char c]) \<and> length (itoa_text 10 (uint d) @ [of_char c]) \<le> 5 \<and>
    (\<forall>x. \<not> in_range x buf 16 \<longrightarrow> m' x = m x)"
proof -
  let ?t = "itoa_text 10 (uint d)"
  have sd: "sint d = uint d"
    using sint_of_nat_s32 [of "unat d"] assms(2) by simp
  have ud: "uint d = int (unat d)" by simp
  have small: "nat \<bar>sint d\<bar> < 10 ^ 4" unfolding sd ud using assms(2) by (simp del: of_nat_unat)
  have lt: "length ?t \<le> 4"
    using length_digits_of [of "unat d" 10 4] assms(2) unfolding ud by (simp add: itoa_text_def del: of_nat_unat)
  have z: "cstr m (lit ''0'') [0x30]" "buf \<noteq> lit ''0'' + 1"
    using assms(1) by (simp add: literals_ok_def)
      (use assms(1) in \<open>auto simp: literals_ok_def in_range_def dest!: spec [of _ "lit ''0'' + 1"]\<close>)
  obtain m1 where m1: "itoa_u lit m d buf 10 = ret (m1, buf)" "cstr m1 buf ?t"
    "\<forall>x. \<not> in_range x buf (Suc (length ?t)) \<longrightarrow> m1 x = m x"
    using itoa_u_cstr [of d 10 4 m lit buf] small z unfolding sd by auto
  have out: "\<not> in_range x buf 16 \<Longrightarrow> \<not> in_range x buf (Suc (length ?t))" for x
    using lt by (auto simp: in_range_def)
  then have l1: "literals_ok lit m1 buf 16" using m1(3) by (intro literals_cong [OF assms(1)]) auto
  have u: "cstr m1 (lit [c]) [of_char c]" and far: "\<And>x. in_range x buf 16 \<Longrightarrow> \<not> in_range x (lit [c]) 2"
    using l1 assms(3) unfolding literals_ok_def by blast+
  have "in_range (buf + of_nat (length ?t)) buf 16" using lt by (simp add: in_range_def)
  from far [OF this] have "Suc (length [of_char c :: u8]) \<le> unat (buf + of_nat (length ?t) - lit [c])"
    by (simp add: in_range_def)
  from strcat_u_eq [OF m1(2) u _ this]
  have sc: "strcat_u m1 buf (lit [c]) = ret (put_bytes m1 (buf + of_nat (length ?t)) [of_char c, 0], 1)" by simp
  let ?m = "put_bytes m1 (buf + of_nat (length ?t)) [of_char c, 0]"
  have keep: "?m x = m1 x" if "\<not> in_range x (buf + of_nat (length ?t)) 2" for x
    using that by (intro put_bytes_other) (simp_all add: numeral_2_eq_2)
  have "cstr ?m buf (?t @ [of_char c])"
  proof -
    have ne: "\<not> in_range (buf + of_nat k) (buf + of_nat (length ?t)) 2" if "k < length ?t" for k
    proof
      assume "in_range (buf + of_nat k) (buf + of_nat (length ?t)) 2"
      then obtain j where j: "j < 2" "buf + of_nat k = buf + of_nat (length ?t) + of_nat j" by (subst (asm) in_range_iff) auto
      then have "buf + of_nat k = buf + of_nat (length ?t + j)" by (simp add: add.assoc)
      then have "k = length ?t + j" using that lt j(1) by (subst (asm) index_eq_iff) simp_all
      then show False using that by simp
    qed
    have "of_char c \<noteq> (0 :: u8)" using assms(3) by auto
    then show ?thesis using m1(2) keep [OF ne] by (auto simp: cstr_index nth_append less_Suc_eq add.assoc)
  qed
  moreover have "?m x = m x" if x: "\<not> in_range x buf 16" for x
  proof -
    have "\<not> in_range x (buf + of_nat (length ?t)) 2"
      using in_range_offset [of x buf "length ?t" 2 16] x lt by auto
    then show ?thesis using keep m1(3) out [OF x] by simp
  qed
  ultimately show ?thesis using m1(1) sc lt by (intro exI [of _ ?m]) (simp del: put_bytes.simps)
qed

lemma strsize_cstr:
  assumes "literals_ok lit m buf 16"
  shows "\<exists>m'. strsize lit m n buf = ret (m', buf) \<and> cstr m' buf (size_text n) \<and> length (size_text n) \<le> 5 \<and>
    (\<forall>x. \<not> in_range x buf 16 \<longrightarrow> m' x = m x)"
proof -
  have q: "unat (n div of_nat k) = unat n div k" "uint (n div of_nat k) = uint n div int k" if "k < 4294967296" for k
    using that by (simp_all add: unat_div_word uint_div unat_of_nat_u32 unsigned_of_nat take_bit_nat_eq_self take_bit_int_eq_self)
  note qs = q [of 1024, simplified] q [of "1024 * 1024", simplified] q [of "1024 * 1024 * 1024", simplified]
  have pos: "0 < x \<longleftrightarrow> 0 < unat x" for x :: u32 by (simp add: word_less_nat_alt)
  have lim: "unat n < 4294967296" by (rule unat_u32_lt)
  consider "unat n < 1024" | "1024 \<le> unat n" "unat n < 1024 * 1024" | "1024 * 1024 \<le> unat n" "unat n < 1024 * 1024 * 1024"
    | "1024 * 1024 * 1024 \<le> unat n" by linarith
  then show ?thesis
  proof cases
    case 1
    then have "unat n < 10000" by simp
    from size_step [OF assms this, of "CHR ''B''"] 1 show ?thesis
      by (simp add: strsize_def size_text_def pos qs)
  next
    case 2
    then have "unat (n div 1024) < 10000" unfolding qs by simp
    from size_step [OF assms this, of "CHR ''K''"] 2 show ?thesis
      by (simp add: strsize_def size_text_def pos qs div_greater_zero_iff)
  next
    case 3
    then have "unat (n div 1048576) < 10000" unfolding qs by simp
    from size_step [OF assms this, of "CHR ''M''"] 3 show ?thesis
      by (simp add: strsize_def size_text_def pos qs div_greater_zero_iff)
  next
    case 4
    then have "unat (n div 1073741824) < 10000" unfolding qs using lim by linarith
    from size_step [OF assms this, of "CHR ''G''"] 4 show ?thesis
      by (simp add: strsize_def size_text_def pos qs div_greater_zero_iff)
  qed
qed

section \<open>Properties\<close>

text \<open>
  C29: The numbers \<open>itoa\<close> of the user library can print. For a base from 2 to 36 and a number with fewer digits than the
  largest power of the base that is an \<open>int\<close>, it writes the numeral and a terminator at the given address and changes
  nothing else. A negative number comes out with its sign at the end, because the sign is reversed with the digits. To the
  base 16 a number of eight digits divides by zero.
\<close>

theorem itoa_u_spec:
  assumes "2 \<le> b" "b \<le> 36" "b ^ l < 2147483648"
    and "cstr m (lit ''0'') [0x30]" "str \<noteq> lit ''0'' + 1"
  shows "(nat \<bar>sint n\<bar> < b ^ l \<longrightarrow> (\<exists>m'. itoa_u lit m n str (of_nat b) = ret (m', str) \<and> cstr m' str (itoa_text b (sint n)) \<and>
      (\<forall>x. \<not> in_range x str (Suc (length (itoa_text b (sint n)))) \<longrightarrow> m' x = m x))) \<and>
    (268435456 \<le> sint n \<longrightarrow> itoa_u lit m n str 16 = fail Div_Zero)"
proof -
  have "itoa_u lit m n str 16 = fail Div_Zero" if n: "268435456 \<le> sint n"
  proof -
    have "of_nat (nat (sint n)) = n" using n by simp
    moreover have "268435456 \<le> nat (sint n)" "nat (sint n) < 2147483648" using n sint_s32_range [of n] by auto
    ultimately have "itoa_loop m str n 1 16 16 = fail Div_Zero"
      using itoa_loop_hex_traps [of "nat (sint n)" 0 m str] by simp
    moreover have "n \<noteq> 0" "\<not> n <s 0" using n by (auto simp: word_sless_alt)
    ultimately show ?thesis by (simp add: itoa_u_def)
  qed
  then show ?thesis using itoa_u_cstr [of n b l m lit str] assms by blast
qed

definition user_mem :: mem where
  "user_mem = (\<lambda>_. 0)(0x100 := 0x30, 0x110 := 0x42, 0x120 := 0x4b, 0x130 := 0x4d, 0x140 := 0x47)"

definition user_lit :: "string \<Rightarrow> addr" where
  "user_lit s = (if s = ''0'' then 0x100 else if s = ''B'' then 0x110 else if s = ''K'' then 0x120 else if s = ''M'' then 0x130 else 0x140)"

theorem itoa_u_spec_witness:
  "(\<exists>m'. itoa_u user_lit user_mem (- 12) 0x200 10 = ret (m', 0x200) \<and> cstr m' 0x200 [0x31, 0x32, 0x2d]) \<and>
   itoa_u user_lit user_mem 0x10000000 0x200 16 = fail Div_Zero"
proof -
  have t: "itoa_text 10 (- 12) = [0x31, 0x32, 0x2d]"
    by (simp add: itoa_text_def digits_of.simps get_letter_def word_sless_alt)
  have "cstr user_mem (user_lit ''0'') [0x30]" "0x200 \<noteq> user_lit ''0'' + 1"
    by (simp_all add: user_mem_def user_lit_def)
  then show ?thesis
    using itoa_u_spec [of 10 9 user_mem user_lit "0x200" "- 12"] itoa_u_spec [of 10 9 user_mem user_lit "0x200" "0x10000000"]
    by (auto simp: t)
qed

end
