(* ===== verification/Ustdio.thy ===== *)
theory Ustdio
  imports Ustring Syscall
begin

text \<open>
  Formatted output of the user library: \<open>userspace/stdlib/printf.c\<close>, \<open>stdio.c\<close>, \<open>crt0.c\<close>, and \<open>libgen.c\<close>. A \<open>FILE\<close> is a
  file number, so a process is extended by those of its two streams. The variable arguments are a list of words; the local
  buffers of \<open>printf\<close> (256 bytes) and \<open>sprintf\<close> (64 bytes) are at addresses that are arguments. \<open>utext\<close> is the text of a
  format, and \<open>sprintf_spec\<close> proves that \<open>sprintf\<close> writes it, for the five conversions the library has; it has no
  flags or widths, and what it does with them is \<open>sprintf_ignores_width\<close>.
\<close>

section \<open>The code\<close>

record ustdio = ulibc +
  stdin_fileno :: s32
  stdout_fileno :: s32

text \<open>
  The \<open>switch\<close> of \<open>sprintf\<close>: 37 is the percent sign, 100 d, 115 s, 120 x, 88 X, 83 S. The length of the text is returned; a
  character that is none of them leaves the length of the conversion before it.
\<close>

definition next_arg :: "u32 list \<Rightarrow> (u32 \<times> u32 list) exec" where
  "next_arg ap = (case ap of [] \<Rightarrow> fail Out_Of_Bounds | a # ap \<Rightarrow> ret (a, ap))"

definition u_conversion :: "(string \<Rightarrow> addr) \<Rightarrow> addr \<Rightarrow> addr \<Rightarrow> u8 \<Rightarrow> mem \<Rightarrow> u32 list \<Rightarrow> u32 \<Rightarrow> (mem \<times> u32 list \<times> u32) exec" where
  "u_conversion lit strbuf buf c m ap len =
     (if c = 100 then
        bindX (next_arg ap) (\<lambda>(n, ap). bindX (itoa_u lit m n strbuf 10) (\<lambda>(m, p).
        bindX (strcat_u m buf p) (\<lambda>(m, len). ret (m, ap, len))))
      else if c = 115 then
        bindX (next_arg ap) (\<lambda>(p, ap). bindX (strcat_u m buf p) (\<lambda>(m, len). ret (m, ap, len)))
      else if c = 120 \<or> c = 88 then
        bindX (next_arg ap) (\<lambda>(n, ap). bindX (itoa_u lit m n strbuf 16) (\<lambda>(m, p).
        bindX (strcat_u m buf p) (\<lambda>(m, len). ret (m, ap, len))))
      else if c = 83 then
        bindX (next_arg ap) (\<lambda>(n, ap). bindX (strsize lit m n strbuf) (\<lambda>(m, p).
        bindX (strcat_u m buf p) (\<lambda>(m, len). ret (m, ap, len))))
      else if c = 37 then ret (m(buf := 37), ap, 1)
      else ret (m, ap, len))"

partial_function (option) sprintf_loop ::
  "(string \<Rightarrow> addr) \<Rightarrow> addr \<Rightarrow> addr \<Rightarrow> mem \<Rightarrow> u32 list \<Rightarrow> s32 \<Rightarrow> addr \<Rightarrow> u32 \<Rightarrow> u32 \<Rightarrow> (mem \<times> u32) exec" where
  "sprintf_loop lit strbuf fmt m ap i buf n len =
     (if m (fmt + i) = 0 then ret (m, n)
      else if m (fmt + i) = 37
      then bindX (u_conversion lit strbuf buf ((m(buf := 0)) (fmt + (i + 1))) (m(buf := 0)) ap len) (\<lambda>(m, ap, len).
             sprintf_loop lit strbuf fmt m ap (i + 1 + 1) (buf + len) (n + len) len)
      else sprintf_loop lit strbuf fmt (m(buf := m (fmt + i))) ap (i + 1) (buf + 1) (n + 1) len)"

definition sprintf :: "(string \<Rightarrow> addr) \<Rightarrow> addr \<Rightarrow> mem \<Rightarrow> addr \<Rightarrow> addr \<Rightarrow> u32 list \<Rightarrow> (mem \<times> u32) exec" where
  "sprintf lit strbuf m buf fmt ap = sprintf_loop lit strbuf fmt (m(buf := 0)) ap 0 buf 0 0"

text \<open>\<open>puts\<close>, \<open>putchar\<close> and \<open>getchar\<close>; the argument or local character of the last two is at \<open>cp\<close>. \<open>EOF\<close> is -1, as a \<open>char\<close> 255.\<close>

definition puts_u :: "'z ustdio_ext trap \<Rightarrow> addr \<Rightarrow> ('z ustdio_ext, unit) ucall" where
  "puts_u int80 p s =
     bindX (strlen_u (umem s) p) (\<lambda>n. bindX (write_u int80 (stdout_fileno s) p n s) (\<lambda>(_, s). ret ((), s)))"

definition putchar_u :: "'z ustdio_ext trap \<Rightarrow> addr \<Rightarrow> u8 \<Rightarrow> ('z ustdio_ext, unit) ucall" where
  "putchar_u int80 cp c s =
     bindX (write_u int80 (stdout_fileno s) cp 1 (s\<lparr>umem := (umem s)(cp := c)\<rparr>)) (\<lambda>(_, s). ret ((), s))"

definition getchar_u :: "'z ustdio_ext trap \<Rightarrow> addr \<Rightarrow> ('z ustdio_ext, u8) ucall" where
  "getchar_u int80 cp s =
     bindX (read_u int80 (stdin_fileno s) cp 1 s) (\<lambda>(r, s). if r <s 1 then ret (- 1, s) else ret (umem s cp, s))"

definition printf_u :: "'z ustdio_ext trap \<Rightarrow> (string \<Rightarrow> addr) \<Rightarrow> addr \<Rightarrow> addr \<Rightarrow> addr \<Rightarrow> u32 list \<Rightarrow> ('z ustdio_ext, s32) ucall" where
  "printf_u int80 lit buf strbuf fmt args s =
     bindX (sprintf lit strbuf (umem s) buf fmt args) (\<lambda>(m, len).
       write_u int80 (stdout_fileno s) buf len (s\<lparr>umem := m\<rparr>))"

text \<open>The start of a program: the three streams are one \<open>FILE\<close> with file number 0.\<close>

definition start_u :: "'z ustdio_ext trap \<Rightarrow> (s32 \<Rightarrow> addr \<Rightarrow> ('z ustdio_ext, s32) ucall) \<Rightarrow> s32 \<Rightarrow> addr \<Rightarrow> ('z ustdio_ext, unit) ucall" where
  "start_u int80 main argc argv s =
     bindX (main argc argv (s\<lparr>stdin_fileno := 0, stdout_fileno := 0\<rparr>)) (\<lambda>(r, s). exit_u int80 r s)"

text \<open>\<open>while (pathname[--ind])\<close>: the search goes on before the string until a zero byte.\<close>

partial_function (option) basename_loop :: "mem \<Rightarrow> addr \<Rightarrow> u32 \<Rightarrow> addr exec" where
  "basename_loop m pathname ind =
     (let ind = ind - 1
      in if m (pathname + ind) \<noteq> 0
         then if m (pathname + ind) = 47 then ret (pathname + ind + 1) else basename_loop m pathname ind
         else ret pathname)"

definition basename :: "mem \<Rightarrow> addr \<Rightarrow> addr exec" where
  "basename m pathname = bindX (strlen_u m pathname) (\<lambda>ind. basename_loop m pathname ind)"

section \<open>The text of a format\<close>

definition uconv_text :: "(addr \<Rightarrow> u8 list option) \<Rightarrow> u8 \<Rightarrow> u32 list \<Rightarrow> (u8 list \<times> u32 list) option" where
  "uconv_text S c ap =
     (if c = 37 then Some ([37], ap)
      else case ap of [] \<Rightarrow> None
      | a # ap \<Rightarrow>
        if c = 100 \<and> \<bar>sint a\<bar> < 1000000000 then Some (itoa_text 10 (sint a), ap)
        else if (c = 120 \<or> c = 88) \<and> \<bar>sint a\<bar> < 268435456 then Some (itoa_text 16 (sint a), ap)
        else if c = 115 then map_option (\<lambda>t. (t, ap)) (S a)
        else if c = 83 then Some (size_text a, ap)
        else None)"

fun utext :: "(addr \<Rightarrow> u8 list option) \<Rightarrow> u8 list \<Rightarrow> u32 list \<Rightarrow> u8 list option" where
  "utext S [] ap = Some []"
| "utext S (c # f) ap =
     (if c \<noteq> 37 then map_option ((#) c) (utext S f ap)
      else case f of [] \<Rightarrow> None
      | d # f \<Rightarrow> (case uconv_text S d ap of None \<Rightarrow> None
          | Some (t, ap) \<Rightarrow> map_option ((@) t) (utext S f ap)))"

text \<open>What is read lies outside what is written: the scratch buffer \<open>sb\<close> and \<open>n\<close> bytes from \<open>p\<close>.\<close>

definition untouched :: "addr \<Rightarrow> addr \<Rightarrow> nat \<Rightarrow> addr \<Rightarrow> nat \<Rightarrow> bool" where
  "untouched sb p n a k \<longleftrightarrow> (\<forall>x. in_range x a k \<longrightarrow> \<not> in_range x sb 64 \<and> \<not> in_range x p n)"

definition keeps_rest :: "addr \<Rightarrow> addr \<Rightarrow> nat \<Rightarrow> mem \<Rightarrow> mem \<Rightarrow> bool" where
  "keeps_rest sb p n m m' \<longleftrightarrow> (\<forall>x. \<not> in_range x sb 64 \<longrightarrow> \<not> in_range x p n \<longrightarrow> m' x = m x)"

definition sources_ok :: "(string \<Rightarrow> addr) \<Rightarrow> (addr \<Rightarrow> u8 list option) \<Rightarrow> mem \<Rightarrow> addr \<Rightarrow> addr \<Rightarrow> nat \<Rightarrow> bool" where
  "sources_ok lit S m sb p n \<longleftrightarrow>
     (\<forall>x. in_range x sb 64 \<longrightarrow> \<not> in_range x p n) \<and>
     literals_ok lit m sb 64 \<and> literals_ok lit m p n \<and>
     (\<forall>a t. S a = Some t \<longrightarrow> cstr m a t \<and> length t < 2147483648 \<and> untouched sb p n a (Suc (length t)))"

lemma literals_le: "literals_ok lit m p n \<Longrightarrow> k \<le> n \<Longrightarrow> literals_ok lit m p k"
  by (fastforce simp: literals_ok_def in_range_def)

lemma appended:
  assumes "cstr m q t" "m p = 0" "\<not> in_range p q (Suc (length t))" "length t < 2147483648"
  shows "\<exists>m'. strcat_u m p q = ret (m', of_nat (length t)) \<and> (\<forall>x. \<not> in_range x p (Suc (length t)) \<longrightarrow> m' x = m x) \<and>
    (\<forall>k<length t. m' (p + of_nat k) = t ! k)"
proof -
  have "strcat_u m p q = ret (put_bytes m p (t @ [0]), of_nat (length t))"
    using strcat_u_eq [of m p "[]" q t] assms by (simp add: in_range_def)
  moreover have "cstr (put_bytes m p (t @ [0])) p t"
    using cstr_nz [OF assms(1)] assms(4) by (intro cstr_put_bytes) simp_all
  then have "\<forall>k<length t. put_bytes m p (t @ [0]) (p + of_nat k) = t ! k" by (simp add: cstr_index)
  moreover have "put_bytes m p (t @ [0]) x = m x" if "\<not> in_range x p (Suc (length t))" for x
    using that assms(4) by (intro put_bytes_other) simp_all
  ultimately show ?thesis by blast
qed

lemma length_itoa_text: "nat \<bar>n\<bar> < b ^ k \<Longrightarrow> 0 < k \<Longrightarrow> length (itoa_text b n) \<le> Suc k"
  using length_digits_of [of "nat n" b k] length_digits_of [of "nat (- n)" b k] by (auto simp: itoa_text_def)

text \<open>A number is first written to the scratch buffer, then appended.\<close>

lemma scratch_appended:
  assumes "N = ret (m1, sb)" "cstr m1 sb t" "Suc (length t) \<le> 64" "\<forall>x. \<not> in_range x sb 64 \<longrightarrow> m1 x = m x"
    and "sources_ok lit S m sb p (Suc (length t))" "m p = 0"
  shows "\<exists>m'. bindX N (\<lambda>(m, q). bindX (strcat_u m p q) (\<lambda>(m, len). ret (m, ap, len))) = ret (m', ap, of_nat (length t)) \<and>
    keeps_rest sb p (Suc (length t)) m m' \<and> (\<forall>k<length t. m' (p + of_nat k) = t ! k)"
proof -
  have "in_range p p (Suc (length t))" by (simp add: in_range_def)
  then have np: "\<not> in_range p sb 64" using assms(5) by (auto simp: sources_ok_def)
  then have "\<not> in_range p sb (Suc (length t))" using assms(3) by (auto simp: in_range_def)
  moreover have "m1 p = 0" using np assms(4,6) by simp
  ultimately obtain m' where m': "strcat_u m1 p sb = ret (m', of_nat (length t))"
    "\<forall>x. \<not> in_range x p (Suc (length t)) \<longrightarrow> m' x = m1 x" "\<forall>k<length t. m' (p + of_nat k) = t ! k"
    using appended [OF assms(2), of p] assms(3) by auto
  then show ?thesis using assms(1,4) by (intro exI [of _ m']) (simp add: keeps_rest_def)
qed

lemma u_conversion_spec:
  assumes "uconv_text S c ap = Some (t, ap')" "sources_ok lit S m sb p (Suc (length t))" "m p = 0"
  shows "\<exists>m'. u_conversion lit sb p c m ap len = ret (m', ap', of_nat (length t)) \<and>
    keeps_rest sb p (Suc (length t)) m m' \<and> (\<forall>k<length t. m' (p + of_nat k) = t ! k)"
proof (cases "c = 37")
  case True
  then have "t = [37]" "ap' = ap" using assms(1) by (simp_all add: uconv_text_def)
  then show ?thesis using True
    by (intro exI [of _ "m(p := 37)"]) (auto simp: u_conversion_def keeps_rest_def in_range_def)
next
  case False
  then obtain a rest where a: "ap = a # rest" using assms(1) by (cases ap) (auto simp: uconv_text_def)
  have va: "next_arg ap = ret (a, rest)" using a by (simp add: next_arg_def)
  have lit: "literals_ok lit m sb 64" using assms(2) by (simp add: sources_ok_def)
  have zero: "cstr m (lit ''0'') [0x30]" "sb \<noteq> lit ''0'' + 1"
    using lit by (simp add: literals_ok_def)
      (use lit in \<open>auto simp: literals_ok_def in_range_def dest!: spec [of _ "lit ''0'' + 1"]\<close>)
  consider "c = 100" | "c = 120 \<or> c = 88" | "c = 115" | "c = 83"
    using assms(1) a False by (auto simp: uconv_text_def split: if_splits)
  then show ?thesis
  proof cases
    case 1
    then have e: "t = itoa_text 10 (sint a)" "ap' = rest" "nat \<bar>sint a\<bar> < 10 ^ 9"
      using assms(1) a by (auto simp: uconv_text_def split: if_splits)
    have l: "Suc (length t) \<le> 64" using length_itoa_text [OF e(3)] e(1) by simp
    obtain m1 where m1: "itoa_u lit m a sb 10 = ret (m1, sb)" "cstr m1 sb t"
      "\<forall>x. \<not> in_range x sb (Suc (length t)) \<longrightarrow> m1 x = m x"
      using itoa_u_cstr [of a 10 9 m lit sb] e zero by auto
    have "\<forall>x. \<not> in_range x sb 64 \<longrightarrow> m1 x = m x" using m1(3) l by (auto simp: in_range_def)
    from scratch_appended [OF m1(1,2) l this assms(2,3)] show ?thesis
      using 1 va e(2) by (simp add: u_conversion_def)
  next
    case 2
    then have e: "t = itoa_text 16 (sint a)" "ap' = rest" "nat \<bar>sint a\<bar> < 16 ^ 7"
      using assms(1) a by (auto simp: uconv_text_def split: if_splits)
    have l: "Suc (length t) \<le> 64" using length_itoa_text [OF e(3)] e(1) by simp
    obtain m1 where m1: "itoa_u lit m a sb 16 = ret (m1, sb)" "cstr m1 sb t"
      "\<forall>x. \<not> in_range x sb (Suc (length t)) \<longrightarrow> m1 x = m x"
      using itoa_u_cstr [of a 16 7 m lit sb] e zero by auto
    have "\<forall>x. \<not> in_range x sb 64 \<longrightarrow> m1 x = m x" using m1(3) l by (auto simp: in_range_def)
    moreover have "c \<noteq> 100" "c \<noteq> 115" using 2 by auto
    ultimately show ?thesis
      using scratch_appended [OF m1(1,2) l _ assms(2,3)] 2 va e(2) by (simp add: u_conversion_def)
  next
    case 3
    then have s: "S a = Some t" "ap' = rest" using assms(1) a by (auto simp: uconv_text_def)
    then have c: "cstr m a t" "length t < 2147483648" "untouched sb p (Suc (length t)) a (Suc (length t))"
      using assms(2) by (auto simp: sources_ok_def)
    have "in_range p p (Suc (length t))" by (simp add: in_range_def)
    then have "\<not> in_range p a (Suc (length t))" using c(3) by (auto simp: untouched_def)
    from appended [OF c(1) assms(3) this c(2)] show ?thesis
      using 3 va s(2) by (auto simp: u_conversion_def keeps_rest_def)
  next
    case 4
    then have e: "t = size_text a" "ap' = rest" using assms(1) a by (auto simp: uconv_text_def)
    from strsize_cstr [of lit m sb a] literals_le [OF lit, of 16] obtain m1 where m1: "strsize lit m a sb = ret (m1, sb)" "cstr m1 sb t"
      "length t \<le> 5" "\<forall>x. \<not> in_range x sb 16 \<longrightarrow> m1 x = m x" unfolding e(1) by auto
    have "Suc (length t) \<le> 64" "\<forall>x. \<not> in_range x sb 64 \<longrightarrow> m1 x = m x" using m1(3,4) by (auto simp: in_range_def)
    from scratch_appended [OF m1(1,2) this assms(2,3)] show ?thesis
      using 4 va e(2) by (simp add: u_conversion_def)
  qed
qed

lemma sources_frame:
  assumes "sources_ok lit S m sb p n" "keeps_rest sb p n m m'" "\<And>x. in_range x q k \<Longrightarrow> in_range x p n"
  shows "sources_ok lit S m' sb q k"
proof -
  have keep: "(\<And>x. in_range x a j \<Longrightarrow> \<not> in_range x sb 64 \<and> \<not> in_range x p n) \<Longrightarrow> cstr m a t \<Longrightarrow> Suc (length t) \<le> j \<Longrightarrow>
      length t < 4294967296 \<Longrightarrow> cstr m' a t" for a j t
    using assms(2) by (subst cstr_cong [where m' = m]) (auto simp: keeps_rest_def in_range_def)
  have lits: "literals_ok lit m' r j" if r: "literals_ok lit m r j'" "literals_ok lit m p n" "literals_ok lit m sb 64"
      "\<And>x. in_range x r j \<Longrightarrow> in_range x r j' \<or> in_range x p n" for r j j'
    unfolding literals_ok_def
  proof (intro ballI conjI allI impI)
    fix c assume c: "c \<in> {CHR ''0'', CHR ''B'', CHR ''K'', CHR ''M'', CHR ''G''}"
    have f: "cstr m (lit [c]) [of_char c]" "\<And>x. in_range x (lit [c]) 2 \<Longrightarrow> \<not> in_range x p n \<and> \<not> in_range x sb 64 \<and> \<not> in_range x r j'"
      using r c unfolding literals_ok_def by blast+
    then show "cstr m' (lit [c]) [of_char c]" by (intro keep [of "lit [c]" 2]) simp_all
    show "\<not> in_range x r j" if "in_range x (lit [c]) 2" for x using f(2) [OF that] r(4) by blast
  qed
  have src: "cstr m' a t \<and> length t < 2147483648 \<and> untouched sb q k a (Suc (length t))" if "S a = Some t" for a t
  proof -
    have f: "cstr m a t" "length t < 2147483648" "untouched sb p n a (Suc (length t))"
      using assms(1) that by (simp_all add: sources_ok_def)
    then have "cstr m' a t" by (intro keep [of a "Suc (length t)"]) (auto simp: untouched_def)
    moreover have "untouched sb q k a (Suc (length t))" using f(3) assms(3) unfolding untouched_def by blast
    ultimately show ?thesis using f(2) by blast
  qed
  have a: "\<And>x. in_range x sb 64 \<Longrightarrow> \<not> in_range x p n" "literals_ok lit m sb 64" "literals_ok lit m p n"
    using assms(1) by (simp_all add: sources_ok_def)
  have "literals_ok lit m' sb 64" by (rule lits [OF a(2,3,2)]) blast
  moreover have "literals_ok lit m' q k"
  proof -
    have "literals_ok lit m q k" using a(3) assms(3) unfolding literals_ok_def by blast
    from lits [OF this a(3,2)] show ?thesis by blast
  qed
  moreover have "\<And>x. in_range x sb 64 \<Longrightarrow> \<not> in_range x q k" using a(1) assms(3) by blast
  ultimately show ?thesis using src unfolding sources_ok_def by blast
qed

lemma keeps_wider:
  "keeps_rest sb q k m m' \<Longrightarrow> (\<And>x. in_range x q k \<Longrightarrow> in_range x p n) \<Longrightarrow> keeps_rest sb p n m m'"
  unfolding keeps_rest_def by blast

lemma keeps_rest_trans: "keeps_rest sb p n m m' \<Longrightarrow> keeps_rest sb p n m' m'' \<Longrightarrow> keeps_rest sb p n m m''"
  by (simp add: keeps_rest_def)

lemma keeps_one: "0 < n \<Longrightarrow> keeps_rest sb p n m (m(p := c))"
  by (auto simp: keeps_rest_def in_range_def)

text \<open>Two pieces of text, one after the other.\<close>

lemma pieces:
  assumes "keeps_rest sb p (Suc (length t1)) m m1" "\<forall>k<length t1. m1 (p + of_nat k) = t1 ! k"
    and "keeps_rest sb (p + of_nat (length t1)) (Suc (length t2)) m1 m2"
    and "\<forall>k<length t2. m2 (p + of_nat (length t1) + of_nat k) = t2 ! k"
    and "\<And>x. in_range x sb 64 \<Longrightarrow> \<not> in_range x p (Suc (length (t1 @ t2)))" "length (t1 @ t2) < 2147483648"
  shows "keeps_rest sb p (Suc (length (t1 @ t2))) m m2 \<and> (\<forall>k<length (t1 @ t2). m2 (p + of_nat k) = (t1 @ t2) ! k)"
proof
  have "in_range x p (Suc (length (t1 @ t2)))" if "in_range x (p + of_nat (length t1)) (Suc (length t2))" for x
    using in_range_offset [OF that] assms(6) by simp
  then have b: "keeps_rest sb p (Suc (length (t1 @ t2))) m1 m2" by (rule keeps_wider [OF assms(3)])
  have "keeps_rest sb p (Suc (length (t1 @ t2))) m m1"
    by (rule keeps_wider [OF assms(1)]) (simp add: in_range_def)
  then show "keeps_rest sb p (Suc (length (t1 @ t2))) m m2" using b by (rule keeps_rest_trans)
  show "\<forall>k<length (t1 @ t2). m2 (p + of_nat k) = (t1 @ t2) ! k"
  proof (intro allI impI)
    fix k assume k: "k < length (t1 @ t2)"
    show "m2 (p + of_nat k) = (t1 @ t2) ! k"
    proof (cases "k < length t1")
      case True
      have "\<not> in_range (p + of_nat k) (p + of_nat (length t1)) (Suc (length t2))"
      proof
        assume "in_range (p + of_nat k) (p + of_nat (length t1)) (Suc (length t2))"
        then obtain j where j: "j < Suc (length t2)" "p + of_nat k = p + of_nat (length t1) + of_nat j"
          using assms(6) by (subst (asm) in_range_iff) auto
        then have "p + of_nat k = p + of_nat (length t1 + j)" by (simp add: add.assoc)
        then have "k = length t1 + j" using True j(1) assms(6) by (subst (asm) index_eq_iff) simp_all
        then show False using True by simp
      qed
      moreover have "in_range (p + of_nat k) p (Suc (length (t1 @ t2)))"
        using k assms(6) by (simp add: in_range_def unat_of_nat_u32)
      then have "\<not> in_range (p + of_nat k) sb 64" using assms(5) by blast
      ultimately have "m2 (p + of_nat k) = m1 (p + of_nat k)" using assms(3) by (simp add: keeps_rest_def)
      with True assms(2) show ?thesis by (simp add: nth_append)
    next
      case False
      then have "k - length t1 < length t2" using k by simp
      then have "m2 (p + of_nat (length t1) + of_nat (k - length t1)) = t2 ! (k - length t1)"
        using assms(4) by blast
      moreover have "p + of_nat (length t1) + of_nat (k - length t1) = p + of_nat k"
        using False by (simp add: of_nat_diff)
      ultimately show ?thesis using False by (simp add: nth_append)
    qed
  qed
qed

lemma sprintf_loop_spec:
  assumes "utext S (drop k f) ap = Some t" "cstr m fmt f" "k \<le> length f" "length f < 2147483648" "length t < 2147483648"
    and "untouched sb p (Suc (length t)) fmt (Suc (length f))" "sources_ok lit S m sb p (Suc (length t))"
  shows "\<exists>m'. sprintf_loop lit sb fmt m ap (of_nat k) p n len = ret (m', n + of_nat (length t)) \<and>
    keeps_rest sb p (Suc (length t)) m m' \<and> (\<forall>j<length t. m' (p + of_nat j) = t ! j)"
  using assms
proof (induction "length f - k" arbitrary: k m ap p n len t rule: less_induct)
  case less
  have char: "m' (fmt + of_nat j) = (f @ [0]) ! j" if "cstr m' fmt f" "j \<le> length f" for m' j
    using that by (auto simp: cstr_index nth_append le_less)
  have fmt_kept: "cstr m' fmt f" if "keeps_rest sb p (Suc (length t)) m m'" for m'
    using that less.prems(2,4,6) by (subst cstr_cong [where m' = m]) (auto simp: keeps_rest_def untouched_def)
  show ?case
  proof (cases "k = length f")
    case True
    then show ?thesis using less.prems(1) char [OF less.prems(2,3)]
      by (subst sprintf_loop.simps) (auto simp: keeps_rest_def)
  next
    case False
    then have k: "k < length f" using less.prems(3) by simp
    have c: "m (fmt + of_nat k) = f ! k" using char [OF less.prems(2,3)] k by (simp add: nth_append)
    have dk: "drop k f = f ! k # drop (Suc k) f" using k by (simp add: Cons_nth_drop_Suc)
    have nz: "f ! k \<noteq> 0" using cstr_nz [OF less.prems(2)] k by (metis nth_mem)
    have dis: "\<And>x. in_range x sb 64 \<Longrightarrow> \<not> in_range x p (Suc (length t))" using less.prems(7) by (simp add: sources_ok_def)
    show ?thesis
    proof (cases "f ! k = 37")
      case False
      then obtain t2 where t: "utext S (drop (Suc k) f) ap = Some t2" "t = [f ! k] @ t2"
        using less.prems(1) by (auto simp: dk)
      let ?m = "m(p := f ! k)"
      have sub: "in_range x p (Suc (length t))" if "in_range x (p + 1) (Suc (length t2))" for x
        using in_range_offset [of x p 1 "Suc (length t2)" "Suc (length t)"] that t(2) less.prems(5) by simp
      have k1: "keeps_rest sb p (Suc (length t)) m ?m" by (rule keeps_one) simp
      have "length f - Suc k < length f - k" "Suc k \<le> length f" "length t2 < 2147483648" using k t(2) less.prems(5) by simp_all
      moreover have "untouched sb (p + 1) (Suc (length t2)) fmt (Suc (length f))"
        using less.prems(6) sub by (auto simp: untouched_def)
      ultimately obtain m' where m': "sprintf_loop lit sb fmt ?m ap (of_nat (Suc k)) (p + 1) (n + 1) len = ret (m', n + 1 + of_nat (length t2))"
        "keeps_rest sb (p + 1) (Suc (length t2)) ?m m'" "\<forall>j<length t2. m' (p + 1 + of_nat j) = t2 ! j"
        using less.hyps [OF _ t(1) fmt_kept [OF k1] _ less.prems(4) _ _ sources_frame [OF less.prems(7) k1 sub]] by blast
      have "sprintf_loop lit sb fmt m ap (of_nat k) p n len = ret (m', n + of_nat (length t))"
        using c nz False m'(1) t(2) by (subst sprintf_loop.simps) (simp add: add.commute add.left_commute)
      moreover have "keeps_rest sb p (Suc (length [f ! k])) m ?m" by (rule keeps_one) simp
      ultimately show ?thesis using pieces [of sb p "[f ! k]" m ?m t2 m'] m'(2,3) dis less.prems(5) unfolding t(2) by auto
    next
      case True
      then obtain d rest where fo: "drop (Suc k) f = d # rest" using less.prems(1) by (auto simp: dk split: list.splits)
      then have k2: "Suc k < length f" by (metis drop_eq_Nil list.distinct(1) not_less)
      then have d: "d = f ! Suc k" "rest = drop (Suc (Suc k)) f" using fo by (simp_all add: Cons_nth_drop_Suc [symmetric])
      obtain t1 ap1 t2 where t: "uconv_text S d ap = Some (t1, ap1)" "utext S (drop (Suc (Suc k)) f) ap1 = Some t2" "t = t1 @ t2"
        using less.prems(1) True fo d(2) by (auto simp: dk split: option.splits)
      let ?m = "m(p := 0)" and ?q = "p + of_nat (length t1)"
      have sub1: "in_range x p (Suc (length t))" if "in_range x p (Suc (length t1))" for x
        using that t(3) by (auto simp: in_range_def)
      have sub2: "in_range x p (Suc (length t))" if "in_range x ?q (Suc (length t2))" for x
        using in_range_offset [OF that, of "Suc (length t)"] t(3) less.prems(5) by simp
      have k0: "keeps_rest sb p j m ?m" if "0 < j" for j using that by (rule keeps_one)
      have ch: "?m (fmt + (of_nat k + 1)) = d"
        using char [OF fmt_kept [OF k0], of "Suc k"] k2 d(1) by (simp add: nth_append add.commute)
      obtain m1 where m1: "u_conversion lit sb p d ?m ap len = ret (m1, ap1, of_nat (length t1))"
        "keeps_rest sb p (Suc (length t1)) ?m m1" "\<forall>j<length t1. m1 (p + of_nat j) = t1 ! j"
        using u_conversion_spec [OF t(1) sources_frame [OF less.prems(7) k0 sub1]] by fastforce
      have ka: "keeps_rest sb p (Suc (length t1)) m m1" by (rule keeps_rest_trans [OF k0 m1(2)]) simp
      have kb: "keeps_rest sb p (Suc (length t)) m m1" by (rule keeps_wider [OF ka sub1])
      have "length f - Suc (Suc k) < length f - k" "Suc (Suc k) \<le> length f" "length t2 < 2147483648"
        using k2 t(3) less.prems(5) by simp_all
      moreover have "untouched sb ?q (Suc (length t2)) fmt (Suc (length f))"
        using less.prems(6) sub2 by (auto simp: untouched_def)
      ultimately obtain m' where m': "sprintf_loop lit sb fmt m1 ap1 (of_nat (Suc (Suc k))) ?q (n + of_nat (length t1)) (of_nat (length t1)) =
          ret (m', n + of_nat (length t1) + of_nat (length t2))"
        "keeps_rest sb ?q (Suc (length t2)) m1 m'" "\<forall>j<length t2. m' (?q + of_nat j) = t2 ! j"
        using less.hyps [OF _ t(2) fmt_kept [OF kb] _ less.prems(4) _ _ sources_frame [OF less.prems(7) kb sub2]] by blast
      have "of_nat (Suc (Suc k)) = (of_nat k + 1 + 1 :: u32)" by simp
      then have "sprintf_loop lit sb fmt m ap (of_nat k) p n len = ret (m', n + of_nat (length t))"
        using c True m1(1) m'(1) unfolding t(3)
        by (subst sprintf_loop.simps) (simp only: ch bindX_simps prod.case length_append of_nat_add add.assoc, simp)
      then show ?thesis using pieces [OF ka m1(3) m'(2,3)] dis less.prems(5) unfolding t(3) by blast
    qed
  qed
qed

text \<open>The whole format, and an unknown character after the percent sign: it is dropped, and no argument is taken.\<close>

lemma sprintf_text:
  assumes "utext S f ap = Some t" "cstr m fmt f" "length f < 2147483648" "length t < 2147483648"
    and "untouched sb buf (Suc (length t)) fmt (Suc (length f))" "sources_ok lit S m sb buf (Suc (length t))"
  shows "\<exists>m'. sprintf lit sb m buf fmt ap = ret (m', of_nat (length t)) \<and>
    keeps_rest sb buf (Suc (length t)) m m' \<and> (\<forall>j<length t. m' (buf + of_nat j) = t ! j)"
proof -
  have k: "keeps_rest sb buf (Suc (length t)) m (m(buf := 0))" by (rule keeps_one) simp
  have "cstr (m(buf := 0)) fmt f"
    using k assms(2,3,5) by (subst cstr_cong [where m' = m]) (auto simp: keeps_rest_def untouched_def)
  from sprintf_loop_spec [of S 0 f ap t, OF _ this _ assms(3-5) sources_frame [OF assms(6) k], of 0 0] assms(1)
  show ?thesis using keeps_rest_trans [OF k] by (auto simp: sprintf_def)
qed

lemma sprintf_unknown:
  assumes "c \<notin> {37, 83, 88, 100, 115, 120}" "utext S f ap = Some t" "cstr m fmt (37 # c # f)" "length f < 1000000"
    and "length t < 2147483648" "untouched sb buf (Suc (length t)) fmt (length f + 3)" "sources_ok lit S m sb buf (Suc (length t))"
  shows "\<exists>m'. sprintf lit sb m buf fmt ap = ret (m', of_nat (length t)) \<and> (\<forall>j<length t. m' (buf + of_nat j) = t ! j)"
proof -
  let ?f = "37 # c # f" and ?m = "m(buf := 0)"
  have k: "keeps_rest sb buf (Suc (length t)) m ?m" by (rule keeps_one) simp
  have ut: "untouched sb buf (Suc (length t)) fmt (Suc (length ?f))"
    using assms(6) by (simp add: numeral_3_eq_3)
  have cs: "cstr ?m fmt ?f"
  proof -
    have "\<And>x. in_range x fmt (Suc (length ?f)) \<Longrightarrow> ?m x = m x" using ut by (auto simp: untouched_def in_range_def)
    then show ?thesis using assms(3,4) by (subst cstr_cong [where m' = m]) auto
  qed
  obtain m' where "sprintf_loop lit sb fmt ?m ap (of_nat 2) buf 0 0 = ret (m', 0 + of_nat (length t))"
    "\<forall>j<length t. m' (buf + of_nat j) = t ! j"
    using sprintf_loop_spec [of S 2 ?f ap t, OF _ cs _ _ assms(5) ut sources_frame [OF assms(7) k], of 0 0] assms(2,4) by auto
  moreover have "sprintf_loop lit sb fmt ?m ap 0 buf 0 0 = sprintf_loop lit sb fmt ?m ap 2 buf 0 0"
  proof -
    have "?m fmt = 37" "?m (fmt + 1) = c" using cs by (simp_all del: fun_upd_apply)
    moreover have "?m(buf := 0) = ?m" by simp
    ultimately show ?thesis using assms(1)
      by (subst sprintf_loop.simps) (simp add: u_conversion_def del: fun_upd_apply)
  qed
  ultimately show ?thesis by (auto simp: sprintf_def)
qed

section \<open>basename\<close>

lemma basename_loop_back:
  assumes "\<forall>j<k. m (p + of_nat (n + j)) \<noteq> 0 \<and> m (p + of_nat (n + j)) \<noteq> 47"
  shows "basename_loop m p (of_nat (n + k)) = basename_loop m p (of_nat n)"
  using assms
proof (induction k)
  case (Suc k)
  have e: "of_nat (n + Suc k) = (of_nat (n + k) + 1 :: u32)" by simp
  have "basename_loop m p (of_nat (n + Suc k)) = basename_loop m p (of_nat (n + k))"
    unfolding e using Suc.prems by (subst basename_loop.simps) (simp add: Let_def del: of_nat_add)
  with Suc show ?case by simp
qed simp

section \<open>Properties\<close>

text \<open>
  C26: What \<open>sprintf\<close> writes. For a format with the conversions \<open>%d\<close>, \<open>%x\<close>, \<open>%X\<close>, \<open>%s\<close>, \<open>%S\<close> and \<open>%%\<close>, enough arguments, numbers
  within the limits of \<open>itoa\<close>, and everything it reads outside the text's bytes and the scratch buffer, \<open>sprintf\<close> returns
  the length of the text and leaves the text at the buffer, changing nothing else. \<open>printf\<close> then makes the system call that writes
  these bytes to standard output; the text must fit its 256 bytes, because nothing checks it.
\<close>

theorem printf_spec:
  assumes "utext S f args = Some t" "cstr (umem s) fmt f" "length f < 2147483648" "length t < 256"
    and "untouched sb buf 256 fmt (Suc (length f))" "sources_ok lit S (umem s) sb buf 256"
  shows "\<exists>m'. sprintf lit sb (umem s) buf fmt args = ret (m', of_nat (length t)) \<and>
    (\<forall>j<length t. m' (buf + of_nat j) = t ! j) \<and>
    (\<forall>x. \<not> in_range x sb 64 \<longrightarrow> \<not> in_range x buf (Suc (length t)) \<longrightarrow> m' x = umem s x) \<and>
    printf_u int80 lit buf sb fmt args s =
      syscall int80 4 (stdout_fileno s) buf (of_nat (length t)) 0 (s\<lparr>umem := m'\<rparr>)"
proof -
  have sub: "in_range x buf 256" if "in_range x buf (Suc (length t))" for x
    using that assms(4) by (simp add: in_range_def)
  have k: "keeps_rest sb buf 256 (umem s) (umem s)" by (simp add: keeps_rest_def)
  have "untouched sb buf (Suc (length t)) fmt (Suc (length f))" using assms(5) sub by (auto simp: untouched_def)
  from sprintf_text [OF assms(1-3) _ this sources_frame [OF assms(6) k sub]] assms(4)
  obtain m' where m': "sprintf lit sb (umem s) buf fmt args = ret (m', of_nat (length t))"
    "keeps_rest sb buf (Suc (length t)) (umem s) m'" "\<forall>j<length t. m' (buf + of_nat j) = t ! j" by auto
  then show ?thesis by (intro exI [of _ m']) (simp add: printf_u_def write_u_def keeps_rest_def)
qed

text \<open>A process with the format \<open>%d%%\<close> at 0x300, and the literals.\<close>

definition user_proc :: ustdio where
  "user_proc = \<lparr>umem = user_mem(0x300 := 37, 0x301 := 100, 0x302 := 37, 0x303 := 37), actual_errno = 0,
     stdin_fileno = 0, stdout_fileno = 0\<rparr>"

lemma user_sources: "sources_ok user_lit (\<lambda>_. None) (umem user_proc) 0x1000 0x2000 256"
proof -
  have a: "in_range x p n \<longleftrightarrow> unat p \<le> unat x \<and> unat x < unat p + n" if "unat p + n \<le> 4294967296" for x p n
    by (rule in_range_interval [OF that])
  show ?thesis
    by (auto simp: sources_ok_def literals_ok_def user_lit_def user_proc_def user_mem_def a)
qed

theorem printf_spec_witness:
  "\<exists>m'. printf_u syscall_handler user_lit 0x2000 0x1000 0x300 [42] user_proc =
     syscall syscall_handler 4 0 0x2000 3 0 (user_proc\<lparr>umem := m'\<rparr>) \<and> m' 0x2000 = 52 \<and> m' 0x2001 = 50 \<and> m' 0x2002 = 37"
proof -
  have t: "utext (\<lambda>_. None) [37, 100, 37, 37] [42] = Some [52, 50, 37]"
    by (simp add: uconv_text_def itoa_text_def digits_of.simps get_letter_def word_sless_alt)
  have c: "cstr (umem user_proc) 0x300 [37, 100, 37, 37]" by (simp add: user_proc_def user_mem_def)
  have l: "length [37, 100, 37, 37 :: u8] < 2147483648" "length [52, 50, 37 :: u8] < 256" by simp_all
  have u: "untouched 0x1000 0x2000 256 0x300 (Suc (length [37, 100, 37, 37 :: u8]))"
    by (auto simp: untouched_def in_range_interval)
  obtain m' where m': "\<forall>j<length [52, 50, 37 :: u8]. m' (0x2000 + of_nat j) = [52, 50, 37] ! j"
    "printf_u syscall_handler user_lit 0x2000 0x1000 0x300 [42] user_proc =
      syscall syscall_handler 4 (stdout_fileno user_proc) 0x2000 (of_nat (length [52, 50, 37 :: u8])) 0 (user_proc\<lparr>umem := m'\<rparr>)"
    using printf_spec [OF t c l u user_sources, of syscall_handler] by blast
  have "m' 0x2000 = 52" "m' 0x2001 = 50" "m' 0x2002 = 37"
    using spec [OF m'(1), of 0] spec [OF m'(1), of 1] spec [OF m'(1), of 2] by simp_all
  with m'(2) show ?thesis by (intro exI [of _ m']) (simp add: user_proc_def)
qed

text \<open>
  Widths and flags. A character after the percent sign that is no conversion of \<open>sprintf\<close> is dropped without
  taking an argument: \<open>ls\<close> and \<open>hexdump\<close>, which ask for \<open>%08lu\<close>, \<open>%08lx\<close> and \<open>%02x\<close>, get the rest of the specification as text.
\<close>

theorem sprintf_ignores_width:
  assumes "c \<notin> {37, 83, 88, 100, 115, 120}" "utext S f ap = Some t" "cstr m fmt (37 # c # f)" "length f < 1000000"
    and "length t < 2147483648" "untouched sb buf (Suc (length t)) fmt (length f + 3)" "sources_ok lit S m sb buf (Suc (length t))"
  shows "\<exists>m'. sprintf lit sb m buf fmt ap = ret (m', of_nat (length t)) \<and> (\<forall>j<length t. m' (buf + of_nat j) = t ! j)"
  using assms by (rule sprintf_unknown)

theorem sprintf_ignores_width_witness:
  "\<exists>m'. sprintf user_lit 0x1000 ((umem user_proc)(0x300 := 37, 0x301 := 48, 0x302 := 50, 0x303 := 120)) 0x2000 0x300 [255] =
     ret (m', 2) \<and> m' 0x2000 = 50 \<and> m' 0x2001 = 120"
proof -
  let ?m = "(umem user_proc)(0x300 := 37, 0x301 := 48, 0x302 := 50, 0x303 := 120)"
  have iv: "in_range x p n \<longleftrightarrow> unat p \<le> unat x \<and> unat x < unat p + n" if "unat p + n \<le> 4294967296" for x p n
    by (rule in_range_interval [OF that])
  have s: "sources_ok user_lit (\<lambda>_. None) ?m 0x1000 0x2000 (Suc (length [50, 120 :: u8]))"
    by (auto simp: sources_ok_def literals_ok_def user_lit_def user_proc_def user_mem_def iv)
  have c: "cstr ?m 0x300 (37 # 48 # [50, 120])" by (simp add: user_proc_def user_mem_def)
  have u: "untouched 0x1000 0x2000 (Suc (length [50, 120 :: u8])) 0x300 (length [50, 120 :: u8] + 3)"
    by (auto simp: untouched_def iv)
  have n: "(48 :: u8) \<notin> {37, 83, 88, 100, 115, 120}" "length [50, 120 :: u8] < 1000000" "length [50, 120 :: u8] < 2147483648"
    by simp_all
  have t: "utext (\<lambda>_. None) [50, 120] [255] = Some [50, 120]" by simp
  obtain m' where m': "sprintf user_lit 0x1000 ?m 0x2000 0x300 [255] = ret (m', of_nat (length [50, 120 :: u8]))"
    "\<forall>j<length [50, 120 :: u8]. m' (0x2000 + of_nat j) = [50, 120] ! j"
    using sprintf_ignores_width [OF n(1) t c n(2,3) u s] by blast
  have "m' 0x2000 = 50" "m' 0x2001 = 120" using spec [OF m'(2), of 0] spec [OF m'(2), of 1] by simp_all
  with m'(1) show ?thesis by (intro exI [of _ m']) simp
qed

text \<open>
  \<open>basename\<close> of a path with a slash is what follows the last one. Without a slash the search leaves the
  string at its first byte: with a zero byte before the string the result is the whole path, and with a slash there a
  pointer to the same path; with any other byte the search goes on before it.
\<close>

theorem basename_spec:
  assumes "cstr m p (a @ b)" "47 \<notin> set b" "a = [] \<or> last a = 47"
  shows "basename m p = (if a \<noteq> [] then ret (p + of_nat (length a))
     else if m (p - 1) = 0 \<or> m (p - 1) = 47 then ret p else basename_loop m p (- 1))"
proof -
  have nz: "0 \<notin> set (a @ b)" by (rule cstr_nz [OF assms(1)])
  have ch: "\<forall>k<length (a @ b). m (p + of_nat k) = (a @ b) ! k" using assms(1) unfolding cstr_index by blast
  have "\<forall>j<length b. m (p + of_nat (length a + j)) \<noteq> 0 \<and> m (p + of_nat (length a + j)) \<noteq> 47"
  proof (intro allI impI)
    fix j assume j: "j < length b"
    then have "length a + j < length (a @ b)" by simp
    from ch [rule_format, OF this] have "m (p + of_nat (length a + j)) = b ! j" by (simp only: nth_append_length_plus)
    then show "m (p + of_nat (length a + j)) \<noteq> 0 \<and> m (p + of_nat (length a + j)) \<noteq> 47"
      using nz assms(2) nth_mem [OF j] by auto
  qed
  then have "basename m p = basename_loop m p (of_nat (length a))"
    using basename_loop_back [of "length b" m p "length a"] strlen_u_cstr [OF assms(1)] by (simp add: basename_def)
  moreover have "basename_loop m p (of_nat (length a)) = (if a \<noteq> [] then ret (p + of_nat (length a))
     else if m (p - 1) = 0 \<or> m (p - 1) = 47 then ret p else basename_loop m p (- 1))"
  proof (cases a rule: rev_cases)
    case Nil
    then show ?thesis by (subst basename_loop.simps) (auto simp: Let_def)
  next
    case (snoc a' c)
    have "m (p + of_nat (length a')) = 47" using ch snoc assms(3) by (simp add: nth_append)
    then show ?thesis using snoc by (subst basename_loop.simps) (simp add: Let_def)
  qed
  ultimately show ?thesis by simp
qed

theorem basename_spec_witness:
  "basename ((\<lambda>_. 0)(0x100 := 47, 0x101 := 108, 0x102 := 115)) 0x100 = ret 0x101"
  using basename_spec [of "(\<lambda>_. 0)(0x100 := 47, 0x101 := 108, 0x102 := 115)" "0x100" "[47]" "[108, 115]"] by simp

end
