(* ===== verification/Ushell.thy ===== *)
theory Ushell
  imports Ustdio
begin

text \<open>
  The first programs of user space: the shell \<open>userspace/ushell/ushell.c\<close> and \<open>userspace/init/init.c\<close>. The
  addresses of the string literals and of the local and global arrays of a program are fields of one record. \<open>getline\<close> is
  compared with the list of the words of a line; the two programs are then run on this kernel, through the system
  calls of \<open>Syscall\<close>.
\<close>

section \<open>The code\<close>

record frame =
  flit :: "string \<Rightarrow> addr"
  printf_buf :: addr
  sprintf_buf :: addr
  getchar_c :: addr
  putchar_c :: addr

record ush_frame = frame +
  argvp :: addr
  wd_buf :: addr
  execve_argv :: addr

definition ARG_LENGTH :: nat where "ARG_LENGTH = 64"
definition ARGV_MAX :: nat where "ARGV_MAX = 16"

text \<open>\<open>argv[argc][argc_ind]\<close>, with rows of 16 bytes; no index is checked. 32 is the space, 10 the newline.\<close>

definition argv_cell :: "addr \<Rightarrow> s32 \<Rightarrow> s32 \<Rightarrow> addr" where
  "argv_cell argv argc argc_ind = argv + argc * of_nat ARGV_MAX + argc_ind"

partial_function (option) getline_loop ::
  "'z ustdio_ext trap \<Rightarrow> addr \<Rightarrow> addr \<Rightarrow> addr \<Rightarrow> s32 \<Rightarrow> s32 \<Rightarrow> 'z ustdio_scheme \<Rightarrow> (s32 \<times> 'z ustdio_scheme) exec" where
  "getline_loop int80 gc pc argv argc argc_ind s =
     bindX (getchar_u int80 gc s) (\<lambda>(c, s).
       if c = - 1 then ret (argc, s)
       else bindX (putchar_u int80 pc c s) (\<lambda>(_, s).
         if c = 32 \<or> c = 10
         then let s = s\<lparr>umem := (umem s)(argv_cell argv argc argc_ind := 0)\<rparr>;
                  argc = (if argc_ind \<noteq> 0 then argc + 1 else argc)
              in if c = 10 then ret (argc, s) else getline_loop int80 gc pc argv argc 0 s
         else getline_loop int80 gc pc argv argc (argc_ind + 1)
                (s\<lparr>umem := (umem s)(argv_cell argv argc argc_ind := c)\<rparr>)))"

definition getline :: "'z ustdio_ext trap \<Rightarrow> addr \<Rightarrow> addr \<Rightarrow> addr \<Rightarrow> ('z ustdio_ext, s32) ucall" where
  "getline int80 gc pc argv s = getline_loop int80 gc pc argv 0 0 s"

text \<open>The calls of \<open>printf\<close> and \<open>strcmp\<close> with a literal, and \<open>strerror\<close>, whose result is the address of a message.\<close>

definition print :: "'z ustdio_ext trap \<Rightarrow> 'f frame_scheme \<Rightarrow> string \<Rightarrow> u32 list \<Rightarrow> ('z ustdio_ext, unit) ucall" where
  "print int80 F fmt args s =
     bindX (printf_u int80 (flit F) (printf_buf F) (sprintf_buf F) (flit F fmt) args s) (\<lambda>(_, s). ret ((), s))"

definition print_error :: "'z ustdio_ext trap \<Rightarrow> 'f frame_scheme \<Rightarrow> string \<Rightarrow> u32 list \<Rightarrow> ('z ustdio_ext, unit) ucall" where
  "print_error int80 F fmt args s =
     bindX (strerror_u (errno_u s)) (\<lambda>e. print int80 F fmt (args @ [flit F e]) s)"

definition is_word :: "'f frame_scheme \<Rightarrow> addr \<Rightarrow> string \<Rightarrow> 'z ulibc_scheme \<Rightarrow> bool exec" where
  "is_word F p w s = bindX (strcmp_u (umem s) p (flit F w)) (\<lambda>r. ret (r = 0))"

text \<open>
  \<open>for (i = 0; i < argc; i++)\<close>: the pointers to the words go to \<open>execve_argv\<close>; a last word \<open>&\<close> is left out, and
  its slot keeps what it had.
\<close>

function fill_argv :: "ush_frame \<Rightarrow> nat \<Rightarrow> nat \<Rightarrow> 'z ulibc_scheme \<Rightarrow> bool \<Rightarrow> ('z ulibc_scheme \<times> bool) exec" where
  "fill_argv F argc i s detached =
     (if i < argc
      then bindX (if i = argc - 1 then is_word F (argv_cell (argvp F) (of_nat i) 0) ''&'' s else ret False) (\<lambda>amp.
             if amp then fill_argv F argc (i + 1) s True
             else fill_argv F argc (i + 1)
               (s\<lparr>umem := store32 (umem s) (execve_argv F + 4 * of_nat i) (argv_cell (argvp F) (of_nat i) 0)\<rparr>) detached)
      else ret (s, detached))"
  by pat_completeness auto
termination by (relation "measure (\<lambda>(F, argc, i, s, d). argc - i)") auto

declare fill_argv.simps [simp del]

text \<open>One round of the main loop: \<open>Some\<close> of the exit status, or \<open>None\<close> to go on.\<close>

definition ush_prompt :: "'z ustdio_ext trap \<Rightarrow> ush_frame \<Rightarrow> ('z ustdio_ext, unit) ucall" where
  "ush_prompt int80 F s =
     bindX (getwd_u int80 (wd_buf F) s) (\<lambda>(p, s).
       if p = 0 then print int80 F ''$'' [] s else print int80 F ''%s$ '' [wd_buf F] s)"

definition ush_cd :: "'z ustdio_ext trap \<Rightarrow> ush_frame \<Rightarrow> s32 \<Rightarrow> ('z ustdio_ext, unit) ucall" where
  "ush_cd int80 F argc s =
     bindX (chdir_u int80 (if argc <s 2 then flit F ''/'' else argv_cell (argvp F) 1 0) s) (\<lambda>(r, s).
       if r <s 0 then print_error int80 F ''error: %s\<newline>'' [] s else ret ((), s))"

definition ush_pwd :: "'z ustdio_ext trap \<Rightarrow> ush_frame \<Rightarrow> ('z ustdio_ext, unit) ucall" where
  "ush_pwd int80 F s =
     bindX (getwd_u int80 (wd_buf F) s) (\<lambda>(p, s).
       if p \<noteq> 0 then print int80 F ''%s\<newline>'' [wd_buf F] s else print_error int80 F ''error: %s\<newline>'' [] s)"

definition ush_run :: "'z ustdio_ext trap \<Rightarrow> ush_frame \<Rightarrow> s32 \<Rightarrow> ('z ustdio_ext, unit) ucall" where
  "ush_run int80 F argc s =
     bindX (fill_argv F (nat (sint argc)) 0 s False) (\<lambda>(s, detached).
       let s = s\<lparr>umem := store32 (umem s) (execve_argv F + 4 * of_nat (nat (sint argc))) 0\<rparr>
       in bindX (fork_u int80 s) (\<lambda>(child, s).
          bindX (if child = 0
                 then bindX (execve_u int80 (argvp F) (execve_argv F) 0 s) (\<lambda>(r, s).
                        if r <s 0
                        then bindX (print_error int80 F ''error: %s: %s\<newline>'' [argvp F] s) (\<lambda>(_, s). exit_u int80 1 s)
                        else ret ((), s))
                 else ret ((), s)) (\<lambda>(_, s).
          if \<not> detached then bindX (waitpid_u int80 child 0 0 s) (\<lambda>(_, s). ret ((), s)) else ret ((), s))))"

definition ush_step :: "'z ustdio_ext trap \<Rightarrow> ush_frame \<Rightarrow> ('z ustdio_ext, s32 option) ucall" where
  "ush_step int80 F s =
     bindX (ush_prompt int80 F s) (\<lambda>(_, s).
     bindX (getline int80 (getchar_c F) (putchar_c F) (argvp F) s) (\<lambda>(argc, s).
       if argc = 0 then ret (None, s)
       else bindX (is_word F (argvp F) ''exit'' s) (\<lambda>b. if b then ret (Some 0, s) else
            bindX (is_word F (argvp F) ''kheap'' s) (\<lambda>b.
              if b then bindX (kdebug_u int80 3 0 0 s) (\<lambda>(_, s). ret (None, s)) else
            bindX (is_word F (argvp F) ''cd'' s) (\<lambda>b.
              if b then bindX (ush_cd int80 F argc s) (\<lambda>(_, s). ret (None, s)) else
            bindX (is_word F (argvp F) ''pwd'' s) (\<lambda>b.
              if b then bindX (ush_pwd int80 F s) (\<lambda>(_, s). ret (None, s))
              else bindX (ush_run int80 F argc s) (\<lambda>(_, s). ret (None, s))))))))"

partial_function (option) ush_loop :: "'z ustdio_ext trap \<Rightarrow> ush_frame \<Rightarrow> 'z ustdio_scheme \<Rightarrow> (s32 \<times> 'z ustdio_scheme) exec" where
  "ush_loop int80 F s =
     bindX (ush_step int80 F s) (\<lambda>(r, s). case r of Some n \<Rightarrow> ret (n, s) | None \<Rightarrow> ush_loop int80 F s)"

definition ush_main :: "'z ustdio_ext trap \<Rightarrow> ush_frame \<Rightarrow> ('z ustdio_ext, s32) ucall" where
  "ush_main int80 F s =
     bindX (print int80 F ''ULMIX shell\<newline>\<newline>'' [] s) (\<lambda>(_, s). ush_loop int80 F s)"

text \<open>
  \<open>init\<close>. The fields of \<open>struct utsname\<close> are 33 bytes long: \<open>sysname\<close>, \<open>version\<close> and \<open>machine\<close> are the fields 0, 3 and 4.
\<close>

record init_frame = frame +
  uts :: addr
  prog_args :: addr

definition start_program :: "'z ustdio_ext trap \<Rightarrow> init_frame \<Rightarrow> addr \<Rightarrow> ('z ustdio_ext, unit) ucall" where
  "start_program int80 F filename s =
     (let m = store32 (store32 (umem s) (prog_args F) filename) (prog_args F + 4) 0
      in bindX (fork_u int80 (s\<lparr>umem := m\<rparr>)) (\<lambda>(pid, s).
         if pid = 0
         then bindX (execve_u int80 filename (prog_args F) 0 s) (\<lambda>(r, s).
                if r <s 0 then puts_u int80 (flit F ''error: execve() returned an error'') s else ret ((), s))
         else ret ((), s)))"

definition init_main :: "'z ustdio_ext trap \<Rightarrow> init_frame \<Rightarrow> s32 \<Rightarrow> addr \<Rightarrow> ('z ustdio_ext, s32) ucall" where
  "init_main int80 F argc argv s =
     bindX (getpid_u int80 s) (\<lambda>(pid, s).
       if pid \<noteq> 1
       then bindX (print int80 F ''init should only be run by the kernel\<newline>'' [] s) (\<lambda>(_, s). ret (1, s))
       else bindX (open_u int80 (flit F ''/dev/tty1'') O_RDWR s) (\<lambda>(fd, s).
            bindX (if fd <s 0 then exit_u int80 (- fd) s else ret ((), s)) (\<lambda>(_, s).
            bindX (print int80 F ''init argc=%d\<newline>'' [argc] s) (\<lambda>(_, s).
            bindX (uname_u int80 (uts F) s) (\<lambda>(_, s).
            bindX (print int80 F
                ''%s %s %s    \<newline>Copyright (C) 2018-2019\<newline>Written by Alexander Ulmer\<newline>\<newline>''
                [uts F, uts F + 99, uts F + 132] s) (\<lambda>(_, s).
            bindX (start_program int80 F (flit F ''/bin/dhcpd'') s) (\<lambda>(_, s).
            bindX (start_program int80 F (flit F ''/bin/ush'') s) (\<lambda>(_, s). ret (0, s)))))))))"

section \<open>getline splits a line into its words\<close>

text \<open>The words of a line; the first argument is the word that has been begun.\<close>

fun words_of :: "u8 list \<Rightarrow> u8 list \<Rightarrow> u8 list list" where
  "words_of w [] = (if w = [] then [] else [w])"
| "words_of w (c # cs) =
     (if c = 32 then (if w = [] then words_of [] cs else w # words_of [] cs) else words_of (w @ [c]) cs)"

lemma words_of_begun: "w \<noteq> [] \<Longrightarrow> \<exists>v ws. words_of w cs = (w @ v) # ws"
proof (induction cs arbitrary: w)
  case (Cons c cs)
  then show ?case using Cons.IH [of "w @ [c]"] by auto
qed simp

text \<open>
  A kernel with a console: reading one character gives the next one of the input, writing one
  succeeds, and both leave the memory of the process alone but for the character's own byte.
\<close>

definition console :: "'z ustdio_ext trap \<Rightarrow> addr \<Rightarrow> addr \<Rightarrow> ('z ustdio_scheme \<Rightarrow> u8 list) \<Rightarrow> bool" where
  "console int80 gc pc inp \<longleftrightarrow>
     (\<forall>s c cs. inp s = c # cs \<longrightarrow> (\<exists>s'. getchar_u int80 gc s = ret (c, s') \<and> inp s' = cs \<and>
        (\<forall>x. x \<noteq> gc \<longrightarrow> umem s' x = umem s x))) \<and>
     (\<forall>s c. \<exists>s'. putchar_u int80 pc c s = ret ((), s') \<and> inp s' = inp s \<and> (\<forall>x. x \<noteq> pc \<longrightarrow> umem s' x = umem s x)) \<and>
     (\<forall>s m. inp (s\<lparr>umem := m\<rparr>) = inp s)"

lemma console_char:
  assumes "console int80 gc pc inp" "inp s = c # cs"
  shows "\<exists>s1 s2. getchar_u int80 gc s = ret (c, s1) \<and> putchar_u int80 pc c s1 = ret ((), s2) \<and> inp s2 = cs \<and>
    (\<forall>x. x \<noteq> gc \<longrightarrow> x \<noteq> pc \<longrightarrow> umem s2 x = umem s x)"
proof -
  obtain s1 where s1: "getchar_u int80 gc s = ret (c, s1)" "inp s1 = cs" "\<forall>x. x \<noteq> gc \<longrightarrow> umem s1 x = umem s x"
    using assms unfolding console_def by blast
  obtain s2 where "putchar_u int80 pc c s1 = ret ((), s2)" "inp s2 = inp s1" "\<forall>x. x \<noteq> pc \<longrightarrow> umem s2 x = umem s1 x"
    using assms(1) unfolding console_def by blast
  with s1 show ?thesis by (intro exI [of _ s1] exI [of _ s2]) simp
qed

text \<open>The rows hold the words: row \<open>i\<close> starts at byte \<open>16 * i\<close>.\<close>

definition rows :: "addr \<Rightarrow> mem \<Rightarrow> u8 list list \<Rightarrow> bool" where
  "rows argv m ws \<longleftrightarrow> (\<forall>i<length ws. length (ws ! i) < 16 \<and> cstr m (argv + of_nat (16 * i)) (ws ! i))"

definition same_cells :: "addr \<Rightarrow> nat \<Rightarrow> mem \<Rightarrow> mem \<Rightarrow> bool" where
  "same_cells argv n m m' \<longleftrightarrow> (\<forall>j<n. m' (argv + of_nat j) = m (argv + of_nat j))"

lemma rows_same:
  assumes "rows argv m ws" "same_cells argv (16 * length ws) m m'"
  shows "rows argv m' ws"
  unfolding rows_def
proof (intro allI impI conjI)
  fix i assume i: "i < length ws"
  with assms(1) have r: "length (ws ! i) < 16" "cstr m (argv + of_nat (16 * i)) (ws ! i)" by (auto simp: rows_def)
  then show "length (ws ! i) < 16" by simp
  have "m' (argv + of_nat (16 * i) + of_nat k) = m (argv + of_nat (16 * i) + of_nat k)" if "k < 16" for k
  proof -
    have "16 * i + k < 16 * length ws" using that i by linarith
    then have "m' (argv + of_nat (16 * i + k)) = m (argv + of_nat (16 * i + k))" using assms(2) unfolding same_cells_def by blast
    then show ?thesis by (simp add: add.assoc)
  qed
  with r show "cstr m' (argv + of_nat (16 * i)) (ws ! i)" unfolding cstr_index by simp
qed

lemma same_cells_write: "n \<le> j \<Longrightarrow> j < 1024 \<Longrightarrow> same_cells argv n m (m(argv + of_nat j := c))"
proof -
  assume j: "n \<le> j" "j < 1024"
  have "argv + of_nat i \<noteq> argv + of_nat j" if "i < n" for i
    using that j by (subst index_eq_iff) simp_all
  then show ?thesis by (simp add: same_cells_def)
qed

lemma same_cells_trans: "same_cells argv n m m' \<Longrightarrow> same_cells argv n m' m'' \<Longrightarrow> same_cells argv n m m''"
  by (simp add: same_cells_def)

lemma same_cells_less: "same_cells argv n m m' \<Longrightarrow> k \<le> n \<Longrightarrow> same_cells argv k m m'"
  by (simp add: same_cells_def)

lemma same_cells_char:
  assumes "\<forall>x. x \<noteq> gc \<longrightarrow> x \<noteq> pc \<longrightarrow> m' x = m x" "\<not> in_range gc argv 1024" "\<not> in_range pc argv 1024"
  shows "same_cells argv 1024 m m'"
  unfolding same_cells_def
proof (intro allI impI)
  fix j :: nat assume "j < 1024"
  then have "in_range (argv + of_nat j) argv 1024" by (simp add: in_range_def unat_of_nat_u32)
  then have "argv + of_nat j \<noteq> gc" "argv + of_nat j \<noteq> pc" using assms(2,3) by metis+
  then show "m' (argv + of_nat j) = m (argv + of_nat j)" using assms(1) by simp
qed

text \<open>The word that has been begun, and how it becomes a row.\<close>

definition begun :: "addr \<Rightarrow> mem \<Rightarrow> nat \<Rightarrow> u8 list \<Rightarrow> bool" where
  "begun argv m n w \<longleftrightarrow> length w < 16 \<and> 0 \<notin> set w \<and> (\<forall>k<length w. m (argv + of_nat (16 * n + k)) = w ! k)"

lemma begun_same: "begun argv m n w \<Longrightarrow> same_cells argv (16 * n + length w) m m' \<Longrightarrow> begun argv m' n w"
  by (auto simp: begun_def same_cells_def simp del: of_nat_add of_nat_mult)

lemma begun_next:
  assumes "begun argv m n w" "c \<noteq> 0" "length w < 15" "n < 64"
  shows "begun argv (m(argv + of_nat (16 * n + length w) := c)) n (w @ [c])"
proof -
  have "same_cells argv (16 * n + length w) m (m(argv + of_nat (16 * n + length w) := c))"
    using assms by (intro same_cells_write) simp_all
  with assms(1) have "begun argv (m(argv + of_nat (16 * n + length w) := c)) n w" by (rule begun_same)
  then show ?thesis using assms(2,3) by (auto simp: begun_def nth_append less_Suc_eq)
qed

lemma row_done:
  assumes "rows argv m ws" "begun argv m (length ws) w" "length ws < 64"
  shows "rows argv (m(argv + of_nat (16 * length ws + length w) := 0)) (ws @ [w])"
proof -
  let ?m = "m(argv + of_nat (16 * length ws + length w) := 0)"
  have w: "length w < 16" using assms(2) by (simp add: begun_def)
  have same: "same_cells argv (16 * length ws + length w) m ?m" using assms(3) w by (intro same_cells_write) simp_all
  have "rows argv ?m ws" using assms(1) same_cells_less [OF same] by (rule rows_same) simp
  moreover have "begun argv ?m (length ws) w" using assms(2) same by (rule begun_same)
  then have "cstr ?m (argv + of_nat (16 * length ws)) w"
    by (auto simp: cstr_index begun_def add.assoc)
  ultimately show ?thesis using w by (auto simp: rows_def nth_append less_Suc_eq)
qed

lemma cell_index: "argv_cell argv (of_nat n) (of_nat k) = argv + of_nat (16 * n + k)"
  by (simp add: argv_cell_def ARGV_MAX_def mult.commute add.assoc)

lemma getline_loop_spec:
  assumes "console int80 gc pc inp" "\<not> in_range gc argv 1024" "\<not> in_range pc argv 1024"
    and "inp s = line @ 10 # rest" "set line \<inter> {0, 10, - 1} = {}"
    and "rows argv (umem s) ws" "begun argv (umem s) (length ws) w"
    and "\<forall>v\<in>set (words_of w line). length v < 16" "length ws + length (words_of w line) < 64"
  shows "\<exists>s'. getline_loop int80 gc pc argv (of_nat (length ws)) (of_nat (length w)) s =
      ret (of_nat (length (ws @ words_of w line)), s') \<and> inp s' = rest \<and> rows argv (umem s') (ws @ words_of w line)"
  using assms(4-9)
proof (induction line arbitrary: ws w s)
  case Nil
  obtain s1 s2 where c: "getchar_u int80 gc s = ret (10, s1)" "putchar_u int80 pc 10 s1 = ret ((), s2)" "inp s2 = rest"
    "\<forall>x. x \<noteq> gc \<longrightarrow> x \<noteq> pc \<longrightarrow> umem s2 x = umem s x"
    using console_char [OF assms(1)] Nil.prems(1) by (metis append_Nil)
  have same: "same_cells argv 1024 (umem s) (umem s2)"
    by (rule same_cells_char [OF c(4) assms(2,3)])
  have w: "length w < 16" using Nil.prems(4) by (simp add: begun_def)
  have nz: "(of_nat (length w) :: s32) \<noteq> 0 \<longleftrightarrow> w \<noteq> []" using w index_eq_iff [of "length w" 0 0] by simp
  let ?m = "(umem s2)(argv + of_nat (16 * length ws + length w) := 0)"
  have i: "inp (s2\<lparr>umem := m\<rparr>) = rest" for m using assms(1) c(3) by (simp add: console_def)
  have ws: "rows argv (umem s2) ws" "begun argv (umem s2) (length ws) w"
    using rows_same [OF Nil.prems(3) same_cells_less [OF same]] begun_same [OF Nil.prems(4) same_cells_less [OF same]]
      Nil.prems(6) w by simp_all
  have step: "getline_loop int80 gc pc argv (of_nat (length ws)) (of_nat (length w)) s =
      ret (if w \<noteq> [] then of_nat (length ws) + 1 else of_nat (length ws), s2\<lparr>umem := ?m\<rparr>)"
    using c(1,2) nz by (subst getline_loop.simps) (simp add: cell_index Let_def del: of_nat_add of_nat_mult)
  show ?case
  proof (cases "w = []")
    case True
    have "same_cells argv (16 * length ws) (umem s2) ?m"
      using Nil.prems(6) True by (intro same_cells_write) simp_all
    then have "rows argv ?m ws" by (rule rows_same [OF ws(1)])
    then show ?thesis using True i unfolding step by auto
  next
    case False
    have "rows argv ?m (ws @ [w])" using row_done [OF ws] Nil.prems(6) by simp
    then show ?thesis using False i unfolding step by auto
  qed
next
  case (Cons ch line)
  obtain s1 s2 where c: "getchar_u int80 gc s = ret (ch, s1)" "putchar_u int80 pc ch s1 = ret ((), s2)" "inp s2 = line @ 10 # rest"
    "\<forall>x. x \<noteq> gc \<longrightarrow> x \<noteq> pc \<longrightarrow> umem s2 x = umem s x"
    using console_char [OF assms(1)] Cons.prems(1) by (metis append_Cons)
  have ch: "ch \<noteq> 0" "ch \<noteq> 10" "ch \<noteq> - 1" "set line \<inter> {0, 10, - 1} = {}" using Cons.prems(2) by auto
  have same: "same_cells argv 1024 (umem s) (umem s2)"
    by (rule same_cells_char [OF c(4) assms(2,3)])
  have w: "length w < 16" using Cons.prems(4) by (simp add: begun_def)
  have nz: "(of_nat (length w) :: s32) \<noteq> 0 \<longleftrightarrow> w \<noteq> []" using w index_eq_iff [of "length w" 0 0] by simp
  have ws: "rows argv (umem s2) ws" "begun argv (umem s2) (length ws) w"
    using rows_same [OF Cons.prems(3) same_cells_less [OF same]] begun_same [OF Cons.prems(4) same_cells_less [OF same]]
      Cons.prems(6) w by simp_all
  have i: "inp (s2\<lparr>umem := m\<rparr>) = line @ 10 # rest" for m using assms(1) c(3) by (simp add: console_def)
  define m where "m = (\<lambda>b. (umem s2)(argv + of_nat (16 * length ws + length w) := b))"
  show ?case
  proof (cases "ch = 32")
    case True
    have step: "getline_loop int80 gc pc argv (of_nat (length ws)) (of_nat (length w)) s =
        getline_loop int80 gc pc argv (if w \<noteq> [] then of_nat (length ws) + 1 else of_nat (length ws)) 0 (s2\<lparr>umem := m 0\<rparr>)"
      using c(1,2) nz True by (subst getline_loop.simps) (simp add: cell_index m_def Let_def del: of_nat_add of_nat_mult)
    have b: "begun argv (umem (s2\<lparr>umem := m 0\<rparr>)) n []" for n by (simp add: begun_def)
    show ?thesis
    proof (cases "w = []")
      case w: True
      have "same_cells argv (16 * length ws) (umem s2) (m 0)"
        unfolding m_def using Cons.prems(6) w by (intro same_cells_write) simp_all
      then have "rows argv (umem (s2\<lparr>umem := m 0\<rparr>)) ws" using rows_same [OF ws(1)] by simp
      from Cons.IH [OF i ch(4) this b] Cons.prems(5,6) show ?thesis using w True unfolding step by simp
    next
      case False
      have "rows argv (umem (s2\<lparr>umem := m 0\<rparr>)) (ws @ [w])"
        using row_done [OF ws] Cons.prems(6) by (simp add: m_def)
      from Cons.IH [OF i ch(4) this b] Cons.prems(5,6) show ?thesis using False True unfolding step by (simp add: add.commute)
    qed
  next
    case False
    obtain v vs where v: "words_of (w @ [ch]) line = (w @ [ch] @ v) # vs"
      using words_of_begun [of "w @ [ch]" line] by auto
    have l: "length w < 15" "length ws < 64" using Cons.prems(5,6) False v by auto
    have b: "begun argv (umem (s2\<lparr>umem := m ch\<rparr>)) (length ws) (w @ [ch])"
      using begun_next [OF ws(2) ch(1) l] by (simp add: m_def)
    have "same_cells argv (16 * length ws) (umem s2) (m ch)"
      unfolding m_def using l by (intro same_cells_write) simp_all
    then have r: "rows argv (umem (s2\<lparr>umem := m ch\<rparr>)) ws" using rows_same [OF ws(1)] by simp
    have step: "getline_loop int80 gc pc argv (of_nat (length ws)) (of_nat (length w)) s =
        getline_loop int80 gc pc argv (of_nat (length ws)) (of_nat (length (w @ [ch]))) (s2\<lparr>umem := m ch\<rparr>)"
      using c(1,2) ch False by (subst getline_loop.simps) (simp add: cell_index m_def Let_def add.commute del: of_nat_add of_nat_mult)
    have e: "words_of w (ch # line) = words_of (w @ [ch]) line" using False by simp
    show ?thesis unfolding e step using Cons.IH [OF i ch(4) r b] Cons.prems(5,6) unfolding e by blast
  qed
qed

section \<open>The programs on this kernel\<close>

lemma getline_eof: "getline syscall_handler gc pc argv s = ret (0, s\<lparr>actual_errno := 38\<rparr>)"
  unfolding getline_def
  by (subst getline_loop.simps) (simp add: getchar_u_def stdlib_calls word_sless_alt)

lemma utext_plain: "37 \<notin> set f \<Longrightarrow> utext S f ap = Some f"
  by (induction f) auto

text \<open>The literals a program prints are in memory, outside the buffers of \<open>printf\<close>.\<close>

definition prints :: "'f frame_scheme \<Rightarrow> mem \<Rightarrow> string list \<Rightarrow> bool" where
  "prints F m ws \<longleftrightarrow> sources_ok (flit F) (\<lambda>_. None) m (sprintf_buf F) (printf_buf F) 256 \<and>
     (\<forall>w\<in>set ws. cstr m (flit F w) (map of_char w) \<and> untouched (sprintf_buf F) (printf_buf F) 256 (flit F w) (Suc (length w)))"

lemma prints_kept:
  assumes "prints F m ws" "keeps_rest (sprintf_buf F) (printf_buf F) 256 m m'" "\<forall>w\<in>set ws. length w < 256"
  shows "prints F m' ws"
  unfolding prints_def
proof (intro conjI ballI)
  show "sources_ok (flit F) (\<lambda>_. None) m' (sprintf_buf F) (printf_buf F) 256"
    by (rule sources_frame [OF _ assms(2)]) (use assms(1) in \<open>simp_all add: prints_def\<close>)
  fix w assume w: "w \<in> set ws"
  then have a: "cstr m (flit F w) (map of_char w)" "untouched (sprintf_buf F) (printf_buf F) 256 (flit F w) (Suc (length w))"
    "length w < 256" using assms(1,3) by (auto simp: prints_def)
  then show "untouched (sprintf_buf F) (printf_buf F) 256 (flit F w) (Suc (length w))" by simp
  show "cstr m' (flit F w) (map of_char w)"
    using a assms(2) by (subst cstr_cong [where m' = m]) (auto simp: keeps_rest_def untouched_def)
qed

lemma print_on_kernel:
  assumes "prints F (umem s) ws" "w \<in> set ws" "37 \<notin> set (map of_char w :: u8 list)" "\<forall>w\<in>set ws. length w < 256"
  shows "\<exists>s'. print syscall_handler F w [] s = ret ((), s') \<and> prints F (umem s') ws"
proof -
  let ?f = "map of_char w :: u8 list"
  have a: "cstr (umem s) (flit F w) ?f" "untouched (sprintf_buf F) (printf_buf F) 256 (flit F w) (Suc (length ?f))"
    "sources_ok (flit F) (\<lambda>_. None) (umem s) (sprintf_buf F) (printf_buf F) 256" "length w < 256"
    using assms by (auto simp: prints_def)
  have sub: "in_range x (printf_buf F) 256" if "in_range x (printf_buf F) (Suc (length ?f))" for x
    using that a(4) by (simp add: in_range_def)
  have "untouched (sprintf_buf F) (printf_buf F) (Suc (length ?f)) (flit F w) (Suc (length ?f))"
    using a(2) sub unfolding untouched_def by blast
  note u = this
  have so: "sources_ok (flit F) (\<lambda>_. None) (umem s) (sprintf_buf F) (printf_buf F) (Suc (length ?f))"
    by (rule sources_frame [OF a(3) _ sub]) (simp add: keeps_rest_def)
  have l: "length ?f < 2147483648" using a(4) by simp
  obtain m' where m': "sprintf (flit F) (sprintf_buf F) (umem s) (printf_buf F) (flit F w) [] = ret (m', of_nat (length ?f))"
    "keeps_rest (sprintf_buf F) (printf_buf F) (Suc (length ?f)) (umem s) m'"
    using sprintf_text [OF utext_plain [OF assms(3)] a(1) l l u so] by blast
  have "prints F m' ws" by (rule prints_kept [OF assms(1) keeps_wider [OF m'(2) sub] assms(4)])
  then show ?thesis using m'(1) by (simp add: print_def printf_u_def stdlib_calls)
qed

lemma ush_step_on_kernel:
  assumes "prints F (umem s) [''$'']"
  shows "\<exists>s'. ush_step syscall_handler F s = ret (None, s') \<and> prints F (umem s') [''$'']"
proof -
  have "prints F (umem (s\<lparr>actual_errno := 38\<rparr>)) [''$'']" using assms by simp
  from print_on_kernel [OF this, of "''$''"] obtain s' where
    "print syscall_handler F ''$'' [] (s\<lparr>actual_errno := 38\<rparr>) = ret ((), s')" "prints F (umem s') [''$'']" by auto
  then show ?thesis by (simp add: ush_step_def ush_prompt_def stdlib_calls getline_eof)
qed

lemma ush_loop_result:
  assumes "ush_loop int80 F s = Some y"
  shows "int80 = syscall_handler \<longrightarrow> \<not> prints F (umem s) [''$'']"
proof (rule ush_loop.raw_induct [where P = "\<lambda>int80 F s y. int80 = syscall_handler \<longrightarrow> \<not> prints F (umem s) [''$'']", OF _ assms],
    intro impI notI)
  fix loop int80 F s y
  assume IH: "\<And>int80 F s y. loop int80 F s = Some y \<Longrightarrow> int80 = syscall_handler \<longrightarrow> \<not> prints F (umem s) [''$'']"
    and body: "bindX (ush_step int80 F s) (\<lambda>(r, s). case r of None \<Rightarrow> loop int80 F s | Some n \<Rightarrow> ret (n, s)) = Some y"
    and a: "int80 = syscall_handler" "prints F (umem s) [''$'']"
  from ush_step_on_kernel [OF a(2)] obtain s' where s': "ush_step syscall_handler F s = ret (None, s')" "prints F (umem s') [''$'']"
    by blast
  with body a(1) have "loop int80 F s' = Some y" by simp
  from IH [OF this] a(1) s'(2) show False by blast
qed

lemma ush_loop_on_kernel: "prints F (umem s) [''$''] \<Longrightarrow> ush_loop syscall_handler F s = None"
  using ush_loop_result [of syscall_handler F s] by (cases "ush_loop syscall_handler F s") auto

section \<open>Properties\<close>

text \<open>
  C27: Reading a line. On a kernel with a console, \<open>getline\<close> of a line of fewer than 64 words of fewer than 16 characters returns
  the number of its words and leaves word \<open>i\<close>, terminated, in row \<open>i\<close>, however many spaces are around the words; it
  takes the line and its newline from the input and nothing more.
\<close>

theorem getline_spec:
  assumes "console int80 gc pc inp" "\<not> in_range gc argv 1024" "\<not> in_range pc argv 1024"
    and "inp s = line @ 10 # rest" "set line \<inter> {0, 10, - 1} = {}"
    and "\<forall>v\<in>set (words_of [] line). length v < 16" "length (words_of [] line) < 64"
  shows "\<exists>s'. getline int80 gc pc argv s = ret (of_nat (length (words_of [] line)), s') \<and> inp s' = rest \<and>
    (\<forall>i<length (words_of [] line). cstr (umem s') (argv + of_nat (16 * i)) (words_of [] line ! i))"
proof -
  have "rows argv (umem s) []" "begun argv (umem s) (length ([] :: u8 list list)) []" by (simp_all add: rows_def begun_def)
  from getline_loop_spec [OF assms(1-5) this] assms(6,7) obtain s' where
    "getline_loop int80 gc pc argv 0 0 s = ret (of_nat (length (words_of [] line)), s')" "inp s' = rest"
    "rows argv (umem s') (words_of [] line)" by auto
  then show ?thesis by (intro exI [of _ s']) (simp add: getline_def rows_def)
qed

text \<open>A kernel that serves reads of one byte from a list, and accepts every write.\<close>

record tty = ustdio +
  tty_input :: "u8 list"

definition tty_kernel :: "u32 \<Rightarrow> u32 \<Rightarrow> u32 \<Rightarrow> u32 \<Rightarrow> u32 \<Rightarrow> tty \<Rightarrow> (u32 \<times> tty) exec" where
  "tty_kernel nr a b c d s =
     (if nr = 3 then (case tty_input s of [] \<Rightarrow> ret (0, s) | ch # cs \<Rightarrow> ret (1, s\<lparr>umem := (umem s)(b := ch), tty_input := cs\<rparr>))
      else ret (c, s))"

lemma tty_console: "console tty_kernel gc pc tty_input"
  by (auto simp: console_def getchar_u_def putchar_u_def read_u_def write_u_def syscall_def tty_kernel_def word_sless_alt)

definition tty_proc :: tty where
  "tty_proc = \<lparr>umem = (\<lambda>_. 0xff), actual_errno = 0, stdin_fileno = 0, stdout_fileno = 0,
     tty_input = [32, 108, 115, 32, 32, 47, 10, 120]\<rparr>"

theorem getline_spec_witness:
  "\<exists>s'. getline tty_kernel 0x10 0x11 0x100 tty_proc = ret (2, s') \<and> tty_input s' = [120] \<and>
     cstr (umem s') 0x100 [108, 115] \<and> cstr (umem s') 0x110 [47]"
proof -
  have w: "words_of [] [32, 108, 115, 32, 32, 47] = [[108, 115], [47]]" by simp
  have s: "tty_input tty_proc = [32, 108, 115, 32, 32, 47] @ 10 # [120]" by (simp add: tty_proc_def)
  have a: "\<not> in_range 0x10 0x100 1024" "\<not> in_range 0x11 0x100 1024" by (simp_all add: in_range_def)
  obtain s' where "getline tty_kernel 0x10 0x11 0x100 tty_proc = ret (2, s')" "tty_input s' = [120]"
    and c: "\<forall>i<length [[108, 115], [47 :: u8]]. cstr (umem s') (0x100 + of_nat (16 * i)) ([[108, 115], [47]] ! i)"
    using getline_spec [OF tty_console a s] unfolding w by auto
  then show ?thesis using spec [OF c, of 0] spec [OF c, of 1] by auto
qed


text \<open>A process image with these literals.\<close>

definition image_lit :: "string \<Rightarrow> addr" where
  "image_lit w = (if w = ''init should only be run by the kernel\<newline>'' then 0x4000
     else if w = ''ULMIX shell\<newline>\<newline>'' then 0x5000 else if w = ''$'' then 0x6000 else user_lit w)"

definition image_mem :: mem where
  "image_mem = put_bytes (put_bytes (put_bytes user_mem 0x6000 (map of_char ''$'' @ [0]))
     0x5000 (map of_char ''ULMIX shell\<newline>\<newline>'' @ [0])) 0x4000 (map of_char ''init should only be run by the kernel\<newline>'' @ [0])"

definition image_proc :: ustdio where
  "image_proc = \<lparr>umem = image_mem, actual_errno = 0, stdin_fileno = 0, stdout_fileno = 0\<rparr>"

lemma image_mem_low: "unat x < 0x4000 \<Longrightarrow> image_mem x = user_mem x"
  by (simp add: image_mem_def put_bytes_other in_range_interval del: put_bytes.simps)

lemma image_strings:
  "cstr image_mem 0x4000 (map of_char ''init should only be run by the kernel\<newline>'')"
  "cstr image_mem 0x5000 (map of_char ''ULMIX shell\<newline>\<newline>'')"
  "cstr image_mem 0x6000 (map of_char ''$'')"
proof -
  show "cstr image_mem 0x4000 (map of_char ''init should only be run by the kernel\<newline>'')"
    unfolding image_mem_def by (rule cstr_put_bytes) simp_all
  let ?b = "map of_char ''ULMIX shell\<newline>\<newline>'' :: u8 list"
  have "cstr (put_bytes m 0x5000 (?b @ [0])) 0x5000 ?b" for m by (rule cstr_put_bytes) simp_all
  then show "cstr image_mem 0x5000 ?b"
    unfolding image_mem_def
    by (subst cstr_cong) (auto simp: put_bytes_other in_range_interval simp del: put_bytes.simps)
  have "cstr (put_bytes m 0x6000 (map of_char ''$'' @ [0])) 0x6000 (map of_char ''$'')" for m
    by (rule cstr_put_bytes) simp_all
  then show "cstr image_mem 0x6000 (map of_char ''$'')"
    unfolding image_mem_def
    by (subst cstr_cong) (auto simp: put_bytes_other in_range_interval simp del: put_bytes.simps)
qed

lemma image_prints:
  "flit F = image_lit \<Longrightarrow> printf_buf F = 0x2000 \<Longrightarrow> sprintf_buf F = 0x1000 \<Longrightarrow>
   prints F image_mem [''init should only be run by the kernel\<newline>'', ''ULMIX shell\<newline>\<newline>'', ''$'']"
proof -
  assume F: "flit F = image_lit" "printf_buf F = 0x2000" "sprintf_buf F = 0x1000"
  have "sources_ok image_lit (\<lambda>_. None) image_mem 0x1000 0x2000 256"
    by (auto simp: sources_ok_def literals_ok_def image_lit_def user_lit_def image_mem_low user_mem_def in_range_interval)
  moreover have "untouched 0x1000 0x2000 256 p n" if "0x4000 \<le> unat p" "unat p + n \<le> 4294967296" for p n
    using that by (auto simp: untouched_def in_range_interval)
  ultimately show ?thesis using image_strings F
    by (simp add: prints_def image_lit_def del: cstr.simps)
qed

definition image_init :: init_frame where
  "image_init = \<lparr>flit = image_lit, printf_buf = 0x2000, sprintf_buf = 0x1000, getchar_c = 0x3000, putchar_c = 0x3001,
     uts = 0x7000, prog_args = 0x7100\<rparr>"

definition image_ush :: ush_frame where
  "image_ush = \<lparr>flit = image_lit, printf_buf = 0x2000, sprintf_buf = 0x1000, getchar_c = 0x3000, putchar_c = 0x3001,
     argvp = 0x8000, wd_buf = 0x9000, execve_argv = 0xa000\<rparr>"


end
