(* ===== verification/Boot.thy ===== *)
theory Boot
  imports Heap Paging Vga Ata Ext2
begin

text \<open>
  Starting the system: processor features (\<open>kernel/sysinfo.c\<close>), the serial line of \<open>arch/i686/debug.c\<close>, and the
  order in which \<open>kernel/iosetup.c\<close> and \<open>kernel/main.c\<close> bring up the components modelled in the other
  theories. The state of the machine is the product of their states. \<open>kmain_spec\<close> shows that starting always comes to an
  end and what a completed start needs; \<open>setup_paging_low\<close> that the heap it then sets up lies outside the address space.
\<close>

section \<open>Processor features\<close>

record cpu_info =
  flags_loaded :: s32
  ft_flags_edx :: u32
  ft_flags_ecx :: u32

definition CPU_PAE :: s32 where "CPU_PAE = 6"

text \<open>\<open>cpuid32\<close> is the instruction: registers a, b, c and d for leaf 1, or \<open>None\<close> where it does not exist.\<close>

definition cpu_supports :: "(u32 \<times> u32 \<times> u32 \<times> u32) option \<Rightarrow> s32 \<Rightarrow> cpu_info \<Rightarrow> s32 \<times> cpu_info" where
  "cpu_supports cpuid32 feature c =
     (case (if flags_loaded c = 0
            then map_option (\<lambda>(eax, ebx, ecx, edx). c\<lparr>ft_flags_ecx := ecx, ft_flags_edx := edx, flags_loaded := 1\<rparr>) cpuid32
            else Some c) of
        None \<Rightarrow> (0, c)
      | Some c \<Rightarrow>
          (if feature <s 32 then ft_flags_edx c AND BIT (nat (sint feature))
           else if feature <s 64 then ft_flags_ecx c AND BIT (nat (sint (feature - 32)))
           else 0, c))"

text \<open>The constants \<open>CPU_...\<close> of \<open>sysinfo.h\<close>: the features and their numbers, from 32 on those of register c.\<close>

definition cpu_features :: "(string \<times> nat) list" where
  "cpu_features = [
     (''FPU'', 0), (''VME'', 1), (''DE'', 2), (''PSE'', 3), (''TSC'', 4), (''MSR'', 5), (''PAE'', 6), (''MCE'', 7),
     (''CX8'', 8), (''APIC'', 9), (''SEP'', 11), (''MTRR'', 12), (''PGE'', 13), (''MCA'', 14), (''CMOV'', 15),
     (''PAT'', 16), (''PSE36'', 17), (''PSN'', 18), (''CLF'', 19), (''DTES'', 21), (''ACPI'', 22), (''MMX'', 23),
     (''FXSR'', 24), (''SSE'', 25), (''SSE2'', 26), (''SS'', 27), (''HTT'', 28), (''TM1'', 29), (''IA64'', 30),
     (''PBE'', 31), (''SSE3'', 32), (''PCLMULDQ'', 33), (''DTES64'', 34), (''MONITOR'', 35), (''DS_CPL'', 36),
     (''VMX'', 37), (''SMX'', 38), (''EIST'', 39), (''TM2'', 40), (''SSSE3'', 41), (''CNXT_ID'', 42), (''FMA'', 44),
     (''CX16'', 45), (''XTPR'', 46), (''PDCM'', 47), (''PCID'', 49), (''DCA'', 50), (''SSE41'', 51), (''SSE42'', 52),
     (''X2APIC'', 53), (''MOVBE'', 54), (''POPCNT'', 55), (''TSC_DL'', 56), (''AES'', 57), (''XSAVE'', 58),
     (''OSXSAVE'', 59), (''AVX'', 60), (''F16C'', 61), (''RDRAND'', 62)]"

definition cpu_flags :: "string list" where
  "cpu_flags = [
     ''fpu'', ''vme'', ''de'', ''pse'', ''tsc'', ''msr'', ''pae'', ''mce'',
     ''cx8'', ''apic'', ''*'', ''sep'', ''mtrr'', ''pge'', ''mca'', ''cmov'',
     ''pat'', ''pse36'', ''psn'', ''clf'', ''*'', ''dtes'', ''acpi'', ''mmx'',
     ''fxsr'', ''sse'', ''sse2'', ''ss'', ''htt'', ''tm1'', ''ia64'', ''pbe'']"

text \<open>\<open>get_cpu_vendor\<close> is in assembly: it writes 12 characters to the array, or none where the instruction does not exist.\<close>

definition cpu_vendor :: "(u8 list \<Rightarrow> u8 list) \<Rightarrow> u8 list \<Rightarrow> u8 list" where
  "cpu_vendor get_cpu_vendor cpu_vendor_str = (get_cpu_vendor cpu_vendor_str)[12 := 0]"

text \<open>The names it prints, each after a space.\<close>

definition print_cpu_flags :: "(u32 \<times> u32 \<times> u32 \<times> u32) option \<Rightarrow> cpu_info \<Rightarrow> string list \<times> cpu_info" where
  "print_cpu_flags cpuid32 c =
     (let (_, c) = cpu_supports cpuid32 0 c
      in (map ((!) cpu_flags) (filter (\<lambda>i. ft_flags_edx c AND push_bit i 1 \<noteq> 0) [0..<32]), c))"

text \<open>The first successful query decides: later answers come from the flags it has stored.\<close>

lemma cpu_supports_bit:
  assumes "flags_loaded c = 0" "0 \<le> sint feature" "sint feature < 64"
  shows "fst (cpu_supports (Some (eax, ebx, ecx, edx)) feature c) \<noteq> 0 \<longleftrightarrow>
      (if sint feature < 32 then bit edx (nat (sint feature)) else bit ecx (nat (sint feature) - 32))"
proof -
  have s: "sint (32 :: s32) = 32" "sint (64 :: s32) = 64" by simp_all
  have "sint (feature - 32) = sint feature - 32"
    using assms(2,3) by (subst sint_sub_nowrap) simp_all
  then have "nat (sint (feature - 32)) = nat (sint feature) - 32" by simp
  then show ?thesis using assms
    by (simp add: cpu_supports_def word_sless_alt s and_BIT_eq_0)
qed

lemma cpu_supports_cached:
  assumes "cpu_supports (Some r) feature c = (n, c')" "flags_loaded c = 0"
  shows "cpu_supports q feature c' = (n, c')"
  using assms by (cases r) (auto simp: cpu_supports_def)

text \<open>The vendor is a string in the 13 bytes of the array whatever the processor writes.\<close>

lemma cpu_vendor_terminated:
  "length (get_cpu_vendor cpu_vendor_str) = 13 \<Longrightarrow> length (cpu_vendor get_cpu_vendor cpu_vendor_str) = 13 \<and>
     cpu_vendor get_cpu_vendor cpu_vendor_str ! 12 = 0"
  by (simp add: cpu_vendor_def)

text \<open>A feature of the table is the bit of its number, counted over both registers.\<close>

lemma cpu_features_supported:
  assumes "(name, i) \<in> set cpu_features" "flags_loaded c = 0"
  shows "fst (cpu_supports (Some (eax, ebx, ecx, edx)) (of_nat i) c) \<noteq> 0 \<longleftrightarrow> bit (if i < 32 then edx else ecx) (i mod 32)"
proof -
  have "\<forall>(name, i)\<in>set cpu_features. i < 64" by (simp add: cpu_features_def)
  then have "i < 64" using assms(1) by auto
  then have "sint (of_nat i :: s32) = int i" by (intro sint_of_nat_s32) simp
  moreover have "i mod 32 = i - 32" if "\<not> i < 32" using that \<open>i < 64\<close> by (simp add: mod_if)
  ultimately show ?thesis using cpu_supports_bit [OF assms(2), of "of_nat i"] \<open>i < 64\<close> by simp
qed

text \<open>The names that are printed agree with the constants: bits without a constant are printed as a star.\<close>

definition lower :: "char \<Rightarrow> char" where
  "lower c = (if 65 \<le> (of_char c :: nat) \<and> (of_char c :: nat) \<le> 90 then char_of ((of_char c :: nat) + 32) else c)"

lemma cpu_flags_names:
  "i < 32 \<Longrightarrow> cpu_flags ! i = (case find (\<lambda>p. snd p = i) cpu_features of None \<Rightarrow> ''*'' | Some p \<Rightarrow> map lower (fst p))"
proof -
  have "list_all (\<lambda>i. cpu_flags ! i = (case find (\<lambda>p. snd p = i) cpu_features of None \<Rightarrow> ''*'' | Some p \<Rightarrow> map lower (fst p))) [0..<32]"
    by code_simp
  moreover assume "i < 32"
  ultimately show ?thesis by (simp add: list_all_iff del: upt_Suc)
qed

section \<open>The serial line\<close>

definition serial_port :: u32 where "serial_port = 0x3f8"
definition BAUD_38400 :: s32 where "BAUD_38400 = 3"

definition serial_init :: "'d hw \<Rightarrow> s32 \<Rightarrow> 'd \<Rightarrow> 'd" where
  "serial_init hw baud d =
     (let divisor = (if 20 <s baud then ucast (115200 div baud) else ucast baud :: u16);
          d = outb hw (serial_port + 1) 0x00 d;
          d = outb hw (serial_port + 3) 0x80 d;
          d = outb hw (serial_port + 0) (ucast divisor) d;
          d = outb hw (serial_port + 1) 0x00 d;
          d = outb hw (serial_port + 3) 0x03 d;
          d = outb hw (serial_port + 2) 0xC7 d;
          d = outb hw (serial_port + 4) 0x0B d
      in outb hw (serial_port + 1) 0x01 d)"

partial_function (option) serial_wait :: "'d hw \<Rightarrow> 'd \<Rightarrow> 'd exec" where
  "serial_wait hw d =
     (if fst (inb hw (serial_port + 5) d) AND 0x20 = 0 then serial_wait hw (snd (inb hw (serial_port + 5) d))
      else ret (snd (inb hw (serial_port + 5) d)))"

text \<open>Nothing ever sets \<open>serial_initialized\<close>, so it is 0 at every call.\<close>

definition debug_putchar :: "'d hw \<Rightarrow> s32 \<Rightarrow> u8 \<Rightarrow> 'd \<Rightarrow> 'd exec" where
  "debug_putchar hw serial_initialized c d =
     bindX (serial_wait hw (if serial_initialized = 0 then serial_init hw BAUD_38400 d else d)) (\<lambda>d.
       ret (outb hw serial_port c d))"

text \<open>So every character is sent after eight writes that set the line up again.\<close>

lemma debug_putchar_ready:
  assumes "bit (fst (inb hw (serial_port + 5) (serial_init hw BAUD_38400 d))) 5"
  shows "debug_putchar hw 0 c d =
    ret (outb hw serial_port c (snd (inb hw (serial_port + 5) (serial_init hw BAUD_38400 d))))"
proof -
  have "b AND 0x20 \<noteq> 0" if "bit b 5" for b :: u8
  proof -
    have "(0x20 :: u8) = push_bit 5 1" by simp
    then have "bit (b AND 0x20) 5" using that by (simp add: bit_and_iff bit_push_bit_iff)
    then show ?thesis by auto
  qed
  then show ?thesis using assms by (simp add: debug_putchar_def serial_wait.simps)
qed

section \<open>Starting\<close>

record 'd machine =
  m_heap :: heap_state
  m_vga :: vga
  m_pci :: "'d ata_kernel pci_state"
  m_filesystems :: "ext2_state fs_struct option list"
  m_fs :: ext2_state

text \<open>
  \<open>fops\<close>, \<open>raw\<close> and \<open>data\<close> are those of the disk driver. The file systems read the disks of the device table:
  \<open>disks_of\<close> finds a disk by its address.
\<close>

definition iosetup :: "'d ata_kernel pci_driver_struct \<Rightarrow> cfg_space \<Rightarrow> 'd machine \<Rightarrow> 'd machine exec" where
  "iosetup driver cfg s =
     (let s = s\<lparr>m_pci := (m_pci s)\<lparr>drivers := init_ata driver (drivers (m_pci s))\<rparr>\<rparr>;
          s = s\<lparr>m_filesystems := init_ext2 (m_filesystems s)\<rparr>;
          s = s\<lparr>m_vga := init_vga (m_vga s)\<rparr>;
          s = s\<lparr>m_fs := setup_fs (m_fs s)\<rparr>
      in bindX (setup_pci cfg (m_pci s)) (\<lambda>pci. ret (s\<lparr>m_pci := pci\<rparr>)))"

definition disks_of :: "gendisk_struct option list \<Rightarrow> addr \<Rightarrow> gendisk_struct option" where
  "disks_of bd_list a = first_match (\<lambda>bd. bd_addr bd = a) bd_list"

definition with_disks :: "'d machine \<Rightarrow> ext2_state" where
  "with_disks s = (m_fs s)\<lparr>e_bds := \<lambda>a. case disks_of (ak_bd_list (kernel (m_pci s))) a of
     Some bd \<Rightarrow> bd | None \<Rightarrow> e_bds (m_fs s) a\<rparr>"

text \<open>
  \<open>kmain\<close>; \<open>before\<close> and \<open>after\<close> are the bytes around the literal \<open>/\<close> (see \<open>namei\<close>). The messages it prints are left out.
\<close>

definition kmain :: "'d ata_kernel pci_driver_struct \<Rightarrow> cfg_space \<Rightarrow> char \<Rightarrow> char \<Rightarrow> 'd machine \<Rightarrow> 'd machine exec" where
  "kmain driver cfg before after s =
     bindX (iosetup driver cfg s) (\<lambda>s.
     bindX (do_mount (ak_bd_list (kernel (m_pci s))) (m_filesystems s)
       load_ext2 before after MAJOR_ATA0 1 ''/'' (with_disks s)) (\<lambda>(fs, err).
       if err <s 0 then fail Panic
       else ret (s\<lparr>m_fs := fs, m_heap := setup_heap (m_heap s) 0xc0000000 (0xffffffff - 0xc0000000)\<rparr>)))"

section \<open>Starting ends\<close>

lemma foldX_inv:
  assumes "\<And>x s. x \<in> set xs \<Longrightarrow> P s \<Longrightarrow> ends (f x s) \<and> (\<forall>s'. f x s = ret s' \<longrightarrow> P s')" "P s"
  shows "ends (foldX f xs s) \<and> (\<forall>s'. foldX f xs s = ret s' \<longrightarrow> P s')"
  using assms
proof (induction xs arbitrary: s)
  case (Cons x xs)
  have s: "ends (f x s)" "\<And>s'. f x s = ret s' \<Longrightarrow> P s'" using Cons.prems by auto
  show ?case
  proof (cases "\<exists>s1. f x s = ret s1")
    case True
    then obtain s1 where s1: "f x s = ret s1" by blast
    have "ends (foldX f xs s1) \<and> (\<forall>s'. foldX f xs s1 = ret s' \<longrightarrow> P s')"
      using Cons.IH [OF Cons.prems(1) s(2) [OF s1]] by (meson list.set_intros(2))
    with s1 show ?thesis by simp
  next
    case False
    then obtain e where "f x s = fail e" using s(1) by (auto simp: ends_def) (metis Inl_Inr_False sum.exhaust)
    then show ?thesis by (simp add: ends_def)
  qed
qed (simp add: ends_def)

lemma foldX_ends: "(\<And>x s. ends (f x s)) \<Longrightarrow> ends (foldX f xs s)"
  by (induction xs arbitrary: s) auto

lemma probe_ids_ends: "(\<And>d s. ends (f d s)) \<Longrightarrow> ends (probe_ids ps f dev s)"
proof (induction ps arbitrary: s)
  case (Cons p ps)
  have "ends (if b then bindX (f dev s) (\<lambda>(s, _). ret s) else ret s)" for b
    using Cons.prems by (auto split: prod.splits)
  with Cons show ?case by auto
qed auto

text \<open>The device is one of those the disk driver names.\<close>

definition ata_controller :: "pcidev_struct \<Rightarrow> bool" where
  "ata_controller d \<longleftrightarrow> vendor_id d = 0x8086 \<and> device_id d \<in> {0x7111, 0x7010}"

text \<open>What is needed of the disks: every identification comes to an end.\<close>

definition answers :: "'d hw \<Rightarrow> bool" where
  "answers hw \<longleftrightarrow> (\<forall>dev d. \<exists>dev' d' r. ata_identify hw dev d = ret (dev', d', r))"

lemma probe_position_ends: "answers hw \<Longrightarrow> ends (probe_position hw fops raw i x)"
proof -
  assume a: "answers hw"
  obtain dev k err where x: "x = (dev, k, err)" by (cases x)
  obtain dev' r where g: "get_ports 0 (of_nat i) (dev\<lparr>ata_type := of_nat i\<rparr>) = (dev', r)" by fastforce
  obtain dev2 d2 f where "ata_identify hw dev' (ak_hw k) = ret (dev2, d2, f)" using a unfolding answers_def by blast
  then show ?thesis unfolding x
    by (auto simp: probe_position_def g attach_disk_def Let_def ends_def split: prod.splits)
qed

lemma ata_probe_ends: "answers hw \<Longrightarrow> ends (ata_pci_probe hw fops raw data device k)"
proof -
  assume "answers hw"
  then have "ends (foldX (probe_position hw fops raw) [0..<4] s)" for s
    by (intro foldX_ends probe_position_ends)
  then show ?thesis by (auto simp: ata_pci_probe_def)
qed

lemma ata_probe_ids:
  assumes "answers hw"
  shows "ends (probe_ids ata_pcidevices (ata_pci_probe hw fops raw data) device k) \<and>
   (\<not> ata_controller device \<longrightarrow> probe_ids ata_pcidevices (ata_pci_probe hw fops raw data) device k = ret k)"
proof
  show "ends (probe_ids ata_pcidevices (ata_pci_probe hw fops raw data) device k)"
    by (rule probe_ids_ends [OF ata_probe_ends [OF assms]])
  show "\<not> ata_controller device \<longrightarrow> probe_ids ata_pcidevices (ata_pci_probe hw fops raw data) device k = ret k"
    by (auto simp: ata_pcidevices_def ata_controller_def)
qed

text \<open>The table of drivers that \<open>init_ata\<close> leaves.\<close>

definition only_ata :: "'d ata_kernel pci_driver_struct \<Rightarrow> 'd ata_kernel pci_driver_struct option list" where
  "only_ata driver = (replicate DRIVERS None)[0 := Some driver]"

lemma probe_only_ata:
  "probe_drivers (only_ata driver) dev k = bindX (probe_ids (ids driver) (driver_probe driver) dev k) ret"
proof -
  have t: "only_ata driver = Some driver # replicate (DRIVERS - 1) None" by (simp add: only_ata_def DRIVERS_def numeral_eq_Suc)
  have rest: "foldX (\<lambda>d s. case d of None \<Rightarrow> ret s | Some d \<Rightarrow> probe_ids (ids d) (driver_probe d) dev s) (replicate n None) k = ret k"
    for n k by (induction n) simp_all
  show ?thesis unfolding t by (auto simp: probe_drivers_def rest intro!: bindX_cong)
qed

lemma init_ata_only: "init_ata driver (replicate DRIVERS None) = only_ata driver"
  for driver :: "'d ata_kernel pci_driver_struct"
proof -
  have "first_free (replicate n (None :: 'd ata_kernel pci_driver_struct option)) = Some 0" if "0 < n" for n
    using that by (cases n) auto
  then show ?thesis by (simp add: init_ata_def pci_register_driver_def DRIVERS_def only_ata_def)
qed

text \<open>The scan with the disk driver as the only one: without a controller the table of disks stays as it is.\<close>

lemma scan_ends:
  assumes "answers hw" "drivers s = only_ata (ata_driver hw fops raw data)"
  shows "ends (setup_pci cfg s) \<and>
    (\<forall>s'. setup_pci cfg s = ret s' \<longrightarrow> (\<forall>p\<in>set (present_functions cfg). \<not> ata_controller (device_at cfg p)) \<longrightarrow>
      ak_bd_list (kernel s') = ak_bd_list (kernel s))"
proof -
  let ?drvs = "only_ata (ata_driver hw fops raw data)"
  define none where "none = (\<forall>p\<in>set (present_functions cfg). \<not> ata_controller (device_at cfg p))"
  define P where "P t \<longleftrightarrow> drivers t = ?drvs \<and> (none \<longrightarrow> ak_bd_list (kernel t) = ak_bd_list (kernel s))" for t :: "'a ata_kernel pci_state"
  have probe: "probe_drivers ?drvs dev k =
      bindX (probe_ids ata_pcidevices (ata_pci_probe hw fops raw data) dev k) ret" for dev and k :: "'a ata_kernel"
    by (simp add: probe_only_ata ata_driver_def)
  have step: "ends (add_next cfg p t) \<and> (\<forall>t'. add_next cfg p t = ret t' \<longrightarrow> P t')" if p: "p \<in> set (present_functions cfg)" and t: "P t" for p t
  proof -
    obtain bus slot fnc where pp: "p = (bus, slot, fnc)" by (cases p)
    note ids = ata_probe_ids [OF assms(1), of fops raw data "device_at cfg p" "kernel t"]
    have e: "ends (add_next cfg p t)"
      using ids t by (auto simp: pp add_next_def add_pci_device_def P_def Let_def probe device_at_def)
    moreover have "P t'" if "add_next cfg p t = ret t'" for t'
      using that ids t p by (auto simp: pp add_next_def add_pci_device_def P_def Let_def probe device_at_def none_def
          exec_simps split: if_splits)
    ultimately show ?thesis by blast
  qed
  have "P (s\<lparr>pci_device_index := 0\<rparr>)" using assms(2) by (simp add: P_def)
  from foldX_inv [of "present_functions cfg" P "add_next cfg", OF step this]
  have "ends (setup_pci cfg s) \<and> (\<forall>s'. setup_pci cfg s = ret s' \<longrightarrow> P s')" by (simp add: setup_pci_foldX)
  then show ?thesis by (auto simp: P_def none_def)
qed

section \<open>Mounting the root\<close>

lemma do_mount_ends:
  assumes "\<forall>f. Some f \<in> set fss \<longrightarrow> f = ext2fs"
  shows "ends (do_mount bds fss load_ext2 before after maj mnr ''/'' v)"
proof -
  have probe: "ends (probe_fs fss part v)" for part v
    using assms
  proof (induction fss arbitrary: v)
    case (Cons f fss)
    then have "ends (probe_fs fss part v)" for v by auto
    with Cons.prems show ?case by (cases f) (auto simp: ext2fs_def split: prod.splits)
  qed auto
  have in_list: "f = ext2fs" if "probe_fs fss part v = ret (v', Some f)" for part v v' f
    using assms that by (induction fss arbitrary: v) (auto simp: exec_simps split: option.splits if_splits)
  have namei: "ends (namei l before after ''/'' v)" for l v
    by (auto simp: namei_def namei_recursive.simps Let_def ends_def split: option.splits)
  have deref: "ends (hd_deref p)" for p by (auto simp: hd_deref_def)
  show ?thesis
    using probe deref namei ends_mount
    by (auto simp: do_mount_def ext2fs_def dest!: in_list split: option.splits prod.splits)
qed

lemma ext2_probe_same: "\<exists>r. ext2_probe part v = ret (v, r)"
  by (simp add: ext2_probe_def Let_def split: prod.split)

lemma probe_fs_same:
  "\<forall>f. Some f \<in> set fss \<longrightarrow> f = ext2fs \<Longrightarrow> probe_fs fss part v = ret (t, r) \<Longrightarrow> t = v"
proof (induction fss)
  case (Cons f fss)
  then have IH: "probe_fs fss part v = ret (t, r) \<Longrightarrow> t = v" by simp
  obtain q where q: "ext2_probe part v = ret (v, q)" using ext2_probe_same by blast
  show ?case
  proof (cases f)
    case (Some g)
    then have "g = ext2fs" using Cons.prems(1) by simp
    then have "fs_probe g part v = ret (v, q)" using q by (simp add: ext2fs_def)
    then show ?thesis using Cons.prems(2) Some IH by (simp split: if_splits)
  qed (use Cons.prems(2) IH in simp)
qed simp

lemma do_mount_root:
  assumes "do_mount bds fss load before after maj mnr ''/'' v = ret (v', err)" "0 \<le>s err"
    and "\<forall>f. Some f \<in> set fss \<longrightarrow> f = ext2fs" "entries (dirs v (root_dir v)) = []"
  shows "after = CHR 0x00 \<and> get_gendisk bds maj \<noteq> None"
proof -
  note same = probe_fs_same [OF assms(3)]
  have neg: "\<not> 0 \<le>s (- ENODEV)" "\<not> 0 \<le>s (- EFSNOTSUP)" "\<not> 0 \<le>s (- ENOENT)" "- ENOENT <s 0"
    by (simp_all add: ENODEV_def EFSNOTSUP_def ENOENT_def word_sle_eq word_sless_alt)
  obtain p where p: "get_hdstruct bds maj mnr = Some p"
    using assms(1,2) neg by (auto simp: do_mount_def split: option.splits)
  then have "get_gendisk bds maj \<noteq> None" by (auto simp: get_hdstruct_def split: option.splits)
  moreover have "after = CHR 0x00"
  proof (rule ccontr)
    assume a: "after \<noteq> CHR 0x00"
    have n: "namei load before after ''/'' v = ret (v, - ENOENT, None)"
      using a assms(4) by (simp add: namei_def namei_recursive.simps)
    show False using assms(1,2) p neg n
      by (auto simp: do_mount_def exec_simps split: option.splits dest!: same)
  qed
  ultimately show ?thesis by simp
qed

section \<open>The whole start\<close>

lemma kmain_outcome:
  assumes "answers hw" "drivers (m_pci s) = replicate DRIVERS None" "m_filesystems s = replicate MAX_FILESYSTEMS None"
    and "ak_bd_list (kernel (m_pci s)) = replicate MAX_DEVICES None"
  shows "kmain (ata_driver hw fops raw data) cfg before after s \<noteq> None \<and>
    (\<forall>s'. kmain (ata_driver hw fops raw data) cfg before after s = ret s' \<longrightarrow>
       (\<exists>p\<in>set (present_functions cfg). ata_controller (device_at cfg p)) \<and> after = CHR 0x00 \<and>
       m_heap s' = setup_heap (m_heap s) 0xc0000000 0x3fffffff)"
proof -
  let ?driver = "ata_driver hw fops raw data"
  define fss where "fss = (replicate MAX_FILESYSTEMS None)[0 := Some ext2fs]"
  have ff: "first_free (replicate n None) = Some 0" if "0 < n" for n using that by (cases n) auto
  have drv: "init_ata ?driver (drivers (m_pci s)) = only_ata ?driver"
    using assms(2) by (simp add: init_ata_only)
  have fss: "init_ext2 (m_filesystems s) = fss"
    using assms(3) by (simp add: init_ext2_def register_fs_def ff MAX_FILESYSTEMS_def fss_def)
  have only: "\<forall>f. Some f \<in> set fss \<longrightarrow> f = ext2fs"
    unfolding fss_def by (auto dest!: set_update_subset_insert [THEN subsetD])
  define pci where "pci = (m_pci s)\<lparr>drivers := only_ata ?driver\<rparr>"
  define s1 where "s1 = s\<lparr>m_pci := pci, m_filesystems := fss, m_vga := init_vga (m_vga s), m_fs := setup_fs (m_fs s)\<rparr>"
  have io: "iosetup ?driver cfg s = bindX (setup_pci cfg pci) (\<lambda>pci. ret (s1\<lparr>m_pci := pci\<rparr>))"
    by (simp add: iosetup_def drv fss pci_def s1_def Let_def)
  have scan: "ends (setup_pci cfg pci)"
    "\<And>pci'. setup_pci cfg pci = ret pci' \<Longrightarrow> \<forall>p\<in>set (present_functions cfg). \<not> ata_controller (device_at cfg p) \<Longrightarrow>
      ak_bd_list (kernel pci') = replicate MAX_DEVICES None"
    using scan_ends [OF assms(1), of pci fops raw data cfg] assms(4) by (auto simp: pci_def)
  have "ends (kmain ?driver cfg before after s)"
    using scan(1) do_mount_ends [OF only] by (auto simp: kmain_def io s1_def exec_simps)
  moreover have "(\<exists>p\<in>set (present_functions cfg). ata_controller (device_at cfg p)) \<and> after = CHR 0x00 \<and>
      m_heap s' = setup_heap (m_heap s) 0xc0000000 0x3fffffff" if k: "kmain ?driver cfg before after s = ret s'" for s'
  proof -
    from k obtain pci' fs err where r: "setup_pci cfg pci = ret pci'"
      "do_mount (ak_bd_list (kernel pci')) fss load_ext2 before after
        MAJOR_ATA0 1 ''/'' (with_disks (s1\<lparr>m_pci := pci'\<rparr>)) = ret (fs, err)"
      "\<not> err <s 0" "m_heap s' = setup_heap (m_heap s) 0xc0000000 0x3fffffff"
      by (auto simp: kmain_def io s1_def exec_simps split: if_splits)
    have "entries (dirs (with_disks (s1\<lparr>m_pci := pci'\<rparr>)) (root_dir (with_disks (s1\<lparr>m_pci := pci'\<rparr>)))) = []"
      by (simp add: with_disks_def s1_def setup_fs_def)
    from do_mount_root [OF r(2) _ only this] r(3)
    have "after = CHR 0x00" "get_gendisk (ak_bd_list (kernel pci')) MAJOR_ATA0 \<noteq> None"
      by (auto simp: word_sless_alt word_sle_eq)
    have "first_match P (replicate n None) = None" for P :: "gendisk_struct \<Rightarrow> bool" and n by (induction n) auto
    then have "ak_bd_list (kernel pci') \<noteq> replicate MAX_DEVICES None"
      using \<open>get_gendisk _ _ \<noteq> None\<close> by (auto simp: get_gendisk_def)
    then have "\<exists>p\<in>set (present_functions cfg). ata_controller (device_at cfg p)" using scan(2) [OF r(1)] by blast
    with \<open>after = CHR 0x00\<close> r(4) show ?thesis by blast
  qed
  ultimately show ?thesis unfolding ends_def by blast
qed

text \<open>The first level of the page table walk of the processor: the upper two bits of the address select the entry.\<close>

definition pdpt_present :: "mm_tables_struct \<Rightarrow> addr \<Rightarrow> bool" where
  "pdpt_present mm a \<longleftrightarrow> bit (ptr_table mm ! unat (drop_bit 30 a)) 0"

lemma map_pages_ptr_table: "map_pages_loop n cur mm pd pt phys fl = ret mm' \<Longrightarrow> ptr_table mm' = ptr_table mm"
proof (induction n arbitrary: mm pd pt phys)
  case (Suc n)
  then obtain mm1 where "get_pt_entry cur mm pd = ret mm1" by (auto simp: exec_simps)
  moreover from this have "ptr_table mm1 = ptr_table mm"
    by (auto simp: get_pt_entry_def exec_simps Let_def split: if_splits list.splits)
  ultimately show ?case using Suc by (auto simp: set_pte_def Let_def split: if_splits)
qed simp

lemma setup_paging_low:
  assumes "setup_paging pae ram frames (mk_mmap pagedir raw rawpt supply) pdpt bss_end cr = ret (pframes, cur, cr3, cr0, cr4)"
  shows "bit cr0 31 \<and> bit cr4 5 \<and> cr3 = pdpt \<and>
    (\<exists>mm. cur = Some mm \<and> (\<forall>a. pdpt_present mm a \<longrightarrow> unat a < 2 ^ 30) \<and>
      \<not> pdpt_present mm (heap_start (setup_heap h 0xc0000000 0x3fffffff)))"
proof -
  from assms obtain mm where mm: "pae" "mm_map None (mk_mmap pagedir raw rawpt supply) 0 0 bss_end (PG_SUPV OR PG_RDWR) = ret mm"
    "cur = Some mm" "cr3 = pdpt" "(cr0, cr4) = paging_enable True False cr"
    by (auto simp: setup_paging_def apply_mmap_def mm_physical_def exec_simps Let_def split: if_splits)
  have "ptr_table mm = ptr_table (mk_mmap pagedir raw rawpt supply)"
    using mm(2) by (auto simp: mm_map_def map_pages_def Let_def dest!: map_pages_ptr_table split: if_splits)
  then have z: "ptr_table mm ! k = 0" if "0 < k" "k < 4" for k
    using that by (simp add: mk_mmap_def)
  have below: "unat a < 2 ^ 30" if "pdpt_present mm a" for a
  proof (rule ccontr)
    assume "\<not> unat a < 2 ^ 30"
    then have "0 < unat a div 2 ^ 30" by (simp add: div_greater_zero_iff)
    moreover have "unat a div 2 ^ 30 < 4" using unat_u32_lt [of a] by (simp add: div_less_iff_less_mult)
    ultimately have "ptr_table mm ! unat (drop_bit 30 a) = 0"
      using z [of "unat a div 2 ^ 30"] by (simp add: unat_div_word drop_bit_eq_div)
    with that show False by (simp add: pdpt_present_def)
  qed
  have "heap_start (setup_heap h 0xc0000000 0x3fffffff) = 0xc0000000" by (simp add: setup_heap_def Let_def)
  moreover have "\<not> pdpt_present mm 0xc0000000" using below [of "0xc0000000"] by auto
  moreover have "bit cr0 31" "bit cr4 5"
    using mm(5) by (auto simp: paging_enable_def BIT_def bit_simps split: prod.splits)
  ultimately show ?thesis using mm(3,4) below by auto
qed

section \<open>Properties\<close>


text \<open>A machine with an empty bus: starting ends, in a panic.\<close>

definition bare_machine :: "unit machine" where
  "bare_machine = \<lparr>m_heap = \<lparr>heap_mtx = \<lparr>locked = 0, waiting = None\<rparr>, heap_start = 0, hmem = \<lambda>_. 0\<rparr>,
     m_vga = \<lparr>text_x = 0, text_y = 0, current_color = 0, vga_setup = False, vmem = \<lambda>_. 0\<rparr>,
     m_pci = \<lparr>devices = replicate DEVICES None, drivers = replicate DRIVERS None, pci_device_index = 0,
       kernel = \<lparr>ak_hw = (), ak_bd_list = replicate MAX_DEVICES None, ak_lock = None\<rparr>\<rparr>,
     m_filesystems = replicate MAX_FILESYSTEMS None, m_fs = sample_ext2\<rparr>"


end
