(* ===== verification/Boot_Disk.thy ===== *)
theory Boot_Disk
  imports Boot Ext2_Tree
begin

text \<open>
  Starting from a disk: the whole of \<open>kmain\<close> on a machine whose controller has a disk that behaves as the ATA standard
  says, with an ext2 partition as its first. The theory puts the PCI scan, the disk driver, the partition scan, the mount and
  path lookup together: what the kernel finds under a path is what the sectors of the disk hold.
\<close>

section \<open>The bytes of a disk\<close>

definition disk_bytes :: "(nat \<Rightarrow> u16 list) \<Rightarrow> bytes" where
  "disk_bytes disk k = bytes_of (disk (k div 512)) ! (k mod 512)"

lemma read_words_length: "(\<And>i. length (disk i) = 256) \<Longrightarrow> length (bytes_of (read_words disk lba n)) = 512 * n"
  by (simp add: length_bytes_of read_words_def length_concat comp_def sum_list_triv)

lemma read_words_nth:
  assumes "\<And>i. length (disk i) = 256" "k < 512 * n"
  shows "bytes_of (read_words disk lba n) ! k = disk_bytes disk (512 * lba + k)"
  using assms(2)
proof (induction n arbitrary: lba k)
  case (Suc n)
  have w: "read_words disk lba (Suc n) = disk lba @ read_words disk (Suc lba) n"
    by (simp add: read_words_def upt_conv_Cons del: upt_Suc)
  show ?case
  proof (cases "k < 512")
    case True
    then show ?thesis by (simp add: w bytes_of_append nth_append length_bytes_of assms(1) disk_bytes_def)
  next
    case False
    then have "k - 512 < 512 * n" "512 * Suc lba + (k - 512) = 512 * lba + k" using Suc.prems by auto
    then show ?thesis using Suc.IH [of "k - 512" "Suc lba"] False
      by (simp add: w bytes_of_append nth_append length_bytes_of assms(1))
  qed
qed simp

text \<open>
  The read function \<open>rd\<close> of a disk, as the file systems call it, is \<open>ata_read\<close>: the result and the bytes it leaves in any buffer.
\<close>

definition reads_through :: "'d hw \<Rightarrow> ata_dev_struct \<Rightarrow> (u32 \<Rightarrow> u32 \<Rightarrow> s32 \<times> bytes) \<Rightarrow> bool" where
  "reads_through hw dev rd \<longleftrightarrow> (\<forall>c lba buf m mtx d. unat c \<le> 65536 \<longrightarrow> \<not> held mtx \<longrightarrow>
     (\<exists>m' mtx' d'. ata_read hw dev buf c lba (m, mtx, d) = ret ((m', mtx', d'), fst (rd c lba)) \<and>
        (\<forall>k < 512 * unat c. snd (rd c lba) k = m' (buf + of_nat k))))"

lemma reads_disk:
  assumes c: "conforms hw (base_io dev) disk regs delay" and rd: "reads_through hw dev rd" and n: "unat count \<le> 65536"
  shows "fst (rd count lba) = count \<and> (\<forall>k < 512 * unat count. snd (rd count lba) k = disk_bytes disk (512 * unat lba + k))"
proof -
  define mtx where "mtx = \<lparr>locked = 0, waiting = None\<rparr>"
  have h: "\<not> held mtx" by (simp add: held_def mtx_def)
  from rd n h obtain m' mtx2 d2 where read: "ata_read hw dev 0 count lba (\<lambda>_. 0, mtx, undefined) = ret ((m', mtx2, d2), fst (rd count lba))"
    "\<forall>k < 512 * unat count. snd (rd count lba) k = m' (0 + of_nat k)" unfolding reads_through_def by blast
  show ?thesis
  proof (cases "count = 0")
    case True
    with read show ?thesis by (simp add: ata_read_def)
  next
    case False
    have len: "length (disk i) = 256" for i using c by (simp add: conforms_def)
    note l = read_words_length [where disk = disk and lba = "unat lba" and n = "unat count", OF len]
    obtain mtx' d' where "ata_read hw dev 0 count lba (\<lambda>_. 0, mtx, undefined) =
        ret ((put_bytes (\<lambda>_. 0) 0 (bytes_of (read_words disk (unat lba) (unat count))), mtx', d'), count)"
      using ata_read_sectors [OF c False n h] by blast
    with read have e: "fst (rd count lba) = count"
      "\<forall>k < 512 * unat count. snd (rd count lba) k =
         put_bytes (\<lambda>_. 0) 0 (bytes_of (read_words disk (unat lba) (unat count))) (0 + of_nat k)" by simp_all
    have "snd (rd count lba) k = disk_bytes disk (512 * unat lba + k)" if "k < 512 * unat count" for k
    proof -
      have "snd (rd count lba) k = bytes_of (read_words disk (unat lba) (unat count)) ! k"
        using e(2) that put_bytes_nth [of k "bytes_of (read_words disk (unat lba) (unat count))" "\<lambda>_. 0" 0] l n by simp
      then show ?thesis using read_words_nth [OF len that] by simp
    qed
    with e(1) show ?thesis by simp
  qed
qed

section \<open>The scan of the bus\<close>

definition one_controller :: "cfg_space \<Rightarrow> bool" where
  "one_controller cfg \<longleftrightarrow> length (present_functions cfg) \<le> DEVICES \<and>
     length (filter (\<lambda>p. ata_controller (device_at cfg p)) (present_functions cfg)) = 1 \<and>
     (\<forall>p\<in>set (present_functions cfg). ata_controller (device_at cfg p) \<longrightarrow> class_no (device_at cfg p) = 1)"

lemma one_controller_split:
  assumes "one_controller cfg"
  obtains ps c qs where "present_functions cfg = ps @ c # qs" "length ps + 1 + length qs \<le> DEVICES" "ata_controller (device_at cfg c)"
    "class_no (device_at cfg c) = 1" "\<forall>p\<in>set ps \<union> set qs. \<not> ata_controller (device_at cfg p)"
proof -
  let ?P = "\<lambda>p. ata_controller (device_at cfg p)"
  from assms obtain c where "filter ?P (present_functions cfg) = [c]"
    unfolding one_controller_def by (metis length_0_conv length_Suc_conv One_nat_def)
  then obtain ps qs where s: "present_functions cfg = ps @ c # qs" "\<forall>p\<in>set ps. \<not> ?P p" "?P c" "[] = filter ?P qs"
    by (auto dest!: filter_eq_ConsD)
  from s(4) [symmetric] have "\<forall>p\<in>set qs. \<not> ?P p" by (simp add: filter_empty_conv)
  with s(1-3) show ?thesis using assms by (intro that [of ps c qs]) (auto simp: one_controller_def)
qed

text \<open>Other functions only enter the device table.\<close>

lemma scan_quiet:
  assumes "drivers s = only_ata (ata_driver hw fops raw data)" "\<forall>p\<in>set ps. \<not> ata_controller (device_at cfg p)"
    and "pci_device_index s + length ps \<le> DEVICES"
  shows "\<exists>s'. foldX (add_next cfg) ps s = ret s' \<and> drivers s' = drivers s \<and> kernel s' = kernel s \<and>
    pci_device_index s' = pci_device_index s + length ps"
  using assms
proof (induction ps arbitrary: s)
  case (Cons p ps)
  obtain bus slot fnc where p: "p = (bus, slot, fnc)" by (cases p)
  let ?dev = "device_at cfg p"
  have q: "probe_ids ata_pcidevices (ata_pci_probe hw fops raw data) ?dev k = ret k" for k
    using Cons.prems(2) by (auto simp: ata_pcidevices_def ata_controller_def)
  define s1 where "s1 = s\<lparr>pci_device_index := pci_device_index s + 1, devices := (devices s)[pci_device_index s := Some ?dev]\<rparr>"
  have "add_next cfg p s = ret s1"
    using Cons.prems(1,3) q by (simp add: p add_next_def add_pci_device_def Let_def s1_def probe_only_ata ata_driver_def device_at_def)
  moreover have "\<exists>s'. foldX (add_next cfg) ps s1 = ret s' \<and> drivers s' = drivers s1 \<and> kernel s' = kernel s1 \<and>
      pci_device_index s' = pci_device_index s1 + length ps"
    using Cons.prems by (intro Cons.IH) (simp_all add: s1_def)
  ultimately show ?case by (auto simp: s1_def)
qed simp

text \<open>The controller's first position has a disk: it becomes the first of the table.\<close>

definition first_position :: "pcidev_struct \<Rightarrow> u16 list \<Rightarrow> ata_dev_struct" where
  "first_position device data = \<lparr>ata_pci = device, ata_type = 0, base_io = PRIMARY1_BASE, ctrl_io = PRIMARY1_CTRL, ata_data = data\<rparr>"

lemma probe_first_disk:
  assumes "answers hw" "class_no device = 1" "ak_bd_list k = replicate MAX_DEVICES None"
    and "ata_identify hw (first_position device data) (ak_hw k) = ret (dev, d, 1)"
  shows "\<exists>k' zs. ata_pci_probe hw fops raw data device k = ret (k', SUCCESS) \<and>
    ak_bd_list k' = packed MAX_DEVICES (gendisk_partscan (new_disk fops (raw 0) dev) # zs)"
proof -
  let ?g = "gendisk_partscan (new_disk fops (raw 0) dev)"
  let ?k = "k\<lparr>ak_lock := None\<rparr>" and ?dev = "\<lparr>ata_pci = device, ata_type = 0, base_io = 0, ctrl_io = 0, ata_data = data\<rparr>"
  have id: "\<And>dev d. \<exists>dev' d' r. ata_identify hw dev d = ret (dev', d', r)" using assms(1) by (simp add: answers_def)
  have "ak_bd_list (?k\<lparr>ak_hw := d\<rparr>) = packed MAX_DEVICES []" using assms(3) by (simp add: packed_def)
  from attach_disk_packed [OF this, of fops "raw 0" dev] obtain k1 where
    k1: "attach_disk fops (raw 0) dev (?k\<lparr>ak_hw := d\<rparr>) = ret k1" "ak_bd_list k1 = packed MAX_DEVICES [?g]"
    by (auto simp: MAX_DEVICES_def)
  have 0: "probe_position hw fops raw 0 (?dev, ?k, 0) = ret (dev, k1, 0)"
    using assms(4) k1(1) by (simp add: probe_position_def get_ports_def first_position_def)
  from probe_all [OF id k1(2), of 1 3 fops raw dev] obtain dev' k' zs where
    "foldX (probe_position hw fops raw) [1..<4] (dev, k1, 0) = ret (dev', k', 0)" "ak_bd_list k' = packed MAX_DEVICES (?g # zs)"
    by auto
  moreover have "[0..<4] = 0 # [1..<4]" by (simp add: upt_rec)
  ultimately show ?thesis using assms(2) 0 by (auto simp: ata_pci_probe_def)
qed

lemma scan_first_disk:
  assumes "answers hw" "one_controller cfg" "drivers s = only_ata (ata_driver hw fops raw data)"
    and "ak_bd_list (kernel s) = replicate MAX_DEVICES None"
    and "\<forall>device. \<exists>ws d'. ata_identify hw (first_position device data) (ak_hw (kernel s)) = ret (first_position device ws, d', 1)"
  shows "\<exists>s' device ws zs. setup_pci cfg s = ret s' \<and>
    ak_bd_list (kernel s') = packed MAX_DEVICES (gendisk_partscan (new_disk fops (raw 0) (first_position device ws)) # zs)"
proof -
  from one_controller_split [OF assms(2)] obtain ps c qs where
    l: "present_functions cfg = ps @ c # qs" "length ps + 1 + length qs \<le> DEVICES" "ata_controller (device_at cfg c)"
      "class_no (device_at cfg c) = 1" "\<forall>p\<in>set ps. \<not> ata_controller (device_at cfg p)" "\<forall>p\<in>set qs. \<not> ata_controller (device_at cfg p)"
    by (metis UnI1 UnI2)
  obtain bus slot fnc where c: "c = (bus, slot, fnc)" by (cases c)
  let ?dev = "device_at cfg c" and ?s = "s\<lparr>pci_device_index := 0\<rparr>"
  obtain s1 where s1: "foldX (add_next cfg) ps ?s = ret s1" "drivers s1 = drivers s" "kernel s1 = kernel s" "pci_device_index s1 = length ps"
    using scan_quiet [of ?s hw fops raw data ps cfg] assms(3) l(2,5) by auto
  obtain ws d' where "ata_identify hw (first_position ?dev data) (ak_hw (kernel s)) = ret (first_position ?dev ws, d', 1)"
    using assms(5) by blast
  from probe_first_disk [OF assms(1) l(4) assms(4) this, of fops raw] obtain k zs where
    k: "ata_pci_probe hw fops raw data ?dev (kernel s) = ret (k, SUCCESS)"
    "ak_bd_list k = packed MAX_DEVICES (gendisk_partscan (new_disk fops (raw 0) (first_position ?dev ws)) # zs)" by blast
  have "probe_ids ata_pcidevices (ata_pci_probe hw fops raw data) ?dev (kernel s) = ret k"
    using l(3) k(1) by (auto simp: ata_pcidevices_def ata_controller_def)
  then have "probe_drivers (drivers s1) ?dev (kernel s1) = ret k"
    using assms(3) s1 by (simp add: probe_only_ata ata_driver_def)
  then obtain s2 where s2: "add_next cfg c s1 = ret s2" "drivers s2 = drivers s" "kernel s2 = k" "pci_device_index s2 = length ps + 1"
    using l(2) s1 by (auto simp: c add_next_def add_pci_device_def Let_def device_at_def)
  obtain s3 where "foldX (add_next cfg) qs s2 = ret s3" "kernel s3 = k"
    using scan_quiet [of s2 hw fops raw data qs cfg] assms(3) l(2,6) s2 by auto
  then show ?thesis using k(2) s1(1) s2(1) by (auto simp: setup_pci_foldX l(1) foldX_append)
qed

section \<open>The first partition\<close>

text \<open>
  The master boot record in the first sector: entry 0 is used and of type 0x83, and its sectors lie below the limit of sector numbers.
  A single \<open>ata_read\<close> takes at most 65536 sectors.
\<close>

definition root_partition :: "bytes \<Rightarrow> bool" where
  "root_partition whole \<longleftrightarrow> is_mbr whole \<and> entry_used whole 0 \<and> fs_id (mbr_entry whole 0) = 0x83 \<and>
     unat (sector_count (mbr_entry whole 0)) \<le> 65536 \<and>
     unat (start_sector (mbr_entry whole 0)) + unat (sector_count (mbr_entry whole 0)) < 4294967296"

definition partition_sectors :: "bytes \<Rightarrow> nat" where
  "partition_sectors whole = unat (sector_count (mbr_entry whole 0))"

definition partition_bytes :: "bytes \<Rightarrow> bytes" where
  "partition_bytes whole k = whole (512 * unat (start_sector (mbr_entry whole 0)) + k)"

definition root_hd :: "gendisk_struct \<Rightarrow> bytes \<Rightarrow> hd_struct" where
  "root_hd raw whole = part_of_entry raw (mbr_entry whole 0)"

lemma mbr_entry_cong: "(\<And>k. k < 512 \<Longrightarrow> b k = b' k) \<Longrightarrow> i < 4 \<Longrightarrow> mbr_entry b i = mbr_entry b' i"
  by (simp add: mbr_entry_def buf32_def Let_def)

lemma scan_entry_read: "bd_read (foldl (scan_entry mbr) bd is) = bd_read bd"
  by (induction "is" arbitrary: bd) (simp_all add: scan_entry_def bd_add_part_def Let_def)

lemma scanned_disk:
  assumes root: "root_partition whole" and raw: "part_count raw = 0" "length (part_list raw) = 4"
    and rd: "\<And>c lba. unat c \<le> 65536 \<Longrightarrow> fst (fops dev c lba) = c \<and> (\<forall>k < 512 * unat c. snd (fops dev c lba) k = whole (512 * unat lba + k))"
  defines "g \<equiv> gendisk_partscan (new_disk fops raw dev)"
  shows "part_count g \<noteq> 0" "hd_deref (g, 0) = ret (root_hd raw whole)" "bd_read g = fops dev" "bd_addr g = bd_addr raw"
proof -
  let ?bd = "new_disk fops raw dev" and ?mbr = "snd (fops dev 1 0)"
  have b: "?mbr k = whole k" if "k < 512" for k using rd [of 1 0] that by simp
  have m: "is_mbr ?mbr" "mbr_entry ?mbr 0 = mbr_entry whole 0" "entry_used ?mbr 0"
    using root b mbr_entry_cong [of ?mbr whole 0] by (simp_all add: root_partition_def is_mbr_def entry_used_def)
  have g: "g = foldl (scan_entry ?mbr) ?bd [0..<4]"
    using rd [of 1 0] m(1) by (auto simp: g_def gendisk_partscan_def word_sless_alt split: prod.splits)
  have "length (filter (entry_used ?mbr) [0..<4]) \<le> 4" using length_filter_le [of "entry_used ?mbr" "[0..<4]"] by simp
  moreover have "length (filter (entry_used ?mbr) [0..<4]) \<noteq> 0" using m(3) by (auto simp: filter_empty_conv)
  moreover have "part_count g = of_nat (length (filter (entry_used ?mbr) [0..<4]))"
    unfolding g using scan_fields(5) [where n = 4 and mbr = ?mbr and bd = ?bd] raw(1) by simp
  ultimately have "unat (part_count g) \<noteq> 0" by (simp add: unat_of_nat_u32 del: length_0_conv)
  then show "part_count g \<noteq> 0" by auto
  have "length (part_list g) = 4" unfolding g using scan_fields(3) [where n = 4 and mbr = ?mbr and bd = ?bd] raw(2) by simp
  moreover have "part_list g ! 0 = root_hd raw whole"
    unfolding g using scan_fields(6) [where n = 4 and mbr = ?mbr and bd = ?bd and j = 0] raw(2) m
    by (simp add: root_hd_def part_of_entry_def)
  ultimately show "hd_deref (g, 0) = ret (root_hd raw whole)" by (simp add: hd_deref_def)
  show "bd_read g = fops dev" unfolding g by (simp add: scan_entry_read)
  show "bd_addr g = bd_addr raw" unfolding g using scan_fields(1) [where n = 4 and mbr = ?mbr and bd = ?bd] by simp
qed

lemma scanned_image:
  assumes root: "root_partition whole"
    and rd: "\<And>c lba. unat c \<le> 65536 \<Longrightarrow> fst (bd_read g c lba) = c \<and> (\<forall>k < 512 * unat c. snd (bd_read g c lba) k = whole (512 * unat lba + k))"
    and s: "e_bds s (bd_addr raw) = g"
  shows "part_image s (root_hd raw whole) (partition_sectors whole) (partition_bytes whole)"
proof -
  let ?L = "start_sector (mbr_entry whole 0)"
  have h: "hdd_read s (root_hd raw whole) c lba = bd_read g c (lba + ?L)" for c lba
    using s by (simp add: hdd_read_def root_hd_def part_of_entry_def)
  have r: "fst (bd_read g c (lba + ?L)) = c \<and> (\<forall>k < 512 * unat c. snd (bd_read g c (lba + ?L)) k = partition_bytes whole (512 * unat lba + k))"
    if "unat lba + unat c \<le> partition_sectors whole" for c lba
  proof -
    have "unat c \<le> 65536" "unat lba + unat ?L < 4294967296" using that root by (auto simp: root_partition_def partition_sectors_def)
    moreover from this have "unat (lba + ?L) = unat lba + unat ?L" by (simp add: unat_word_ariths)
    ultimately show ?thesis using rd [of c "lba + ?L"] by (simp add: partition_bytes_def algebra_simps)
  qed
  show ?thesis unfolding part_image_def h using r root by (auto simp: root_partition_def partition_sectors_def)
qed

section \<open>The whole start\<close>

text \<open>
  The machine: the disk driver's \<open>hw\<close> has a disk with sectors \<open>disk\<close> at the first position of its controller, which is
  identified in every state, and the kernel reads it with \<open>ata_read\<close>.
\<close>

definition has_disk :: "'d hw \<Rightarrow> (ata_dev_struct \<Rightarrow> u32 \<Rightarrow> u32 \<Rightarrow> s32 \<times> bytes) \<Rightarrow> (nat \<Rightarrow> u16 list) \<Rightarrow> ('d \<Rightarrow> ata_regs) \<Rightarrow> ('d \<Rightarrow> nat) \<Rightarrow> bool" where
  "has_disk hw fops disk regs delay \<longleftrightarrow> answers hw \<and> conforms hw PRIMARY1_BASE disk regs delay \<and>
     (\<forall>device data d. \<exists>ws d'. ata_identify hw (first_position device data) d = ret (first_position device ws, d', 1)) \<and>
     (\<forall>device ws. reads_through hw (first_position device ws) (fops (first_position device ws)))"

text \<open>Memory before \<open>kmain\<close>: the tables of drivers, file systems and disks are empty.\<close>

definition fresh_machine :: "'d machine \<Rightarrow> bool" where
  "fresh_machine s \<longleftrightarrow> drivers (m_pci s) = replicate DRIVERS None \<and> m_filesystems s = replicate MAX_FILESYSTEMS None \<and>
     ak_bd_list (kernel (m_pci s)) = replicate MAX_DEVICES None"

lemma iosetup_disk:
  assumes hw: "has_disk hw fops disk regs delay" and bus: "one_controller cfg" and s: "fresh_machine s"
  shows "\<exists>s1 device ws zs. iosetup (ata_driver hw fops raw data) cfg s = ret s1 \<and> m_heap s1 = m_heap s \<and>
    m_fs s1 = setup_fs (m_fs s) \<and> m_filesystems s1 = init_ext2 (replicate MAX_FILESYSTEMS None) \<and>
    ak_bd_list (kernel (m_pci s1)) = packed MAX_DEVICES (gendisk_partscan (new_disk fops (raw 0) (first_position device ws)) # zs)"
proof -
  let ?driver = "ata_driver hw fops raw data"
  let ?pci = "(m_pci s)\<lparr>drivers := only_ata ?driver\<rparr>"
  have "ak_bd_list (kernel ?pci) = replicate MAX_DEVICES None" "answers hw"
    "\<forall>device. \<exists>ws d'. ata_identify hw (first_position device data) (ak_hw (kernel ?pci)) = ret (first_position device ws, d', 1)"
    using s hw by (simp_all add: fresh_machine_def has_disk_def)
  from scan_first_disk [OF this(2) bus _ this(1,3), of fops raw] obtain pci device ws zs where
    "setup_pci cfg ?pci = ret pci"
    "ak_bd_list (kernel pci) = packed MAX_DEVICES (gendisk_partscan (new_disk fops (raw 0) (first_position device ws)) # zs)" by auto
  then show ?thesis using s by (auto simp: iosetup_def init_ata_only Let_def fresh_machine_def)
qed

lemma kmain_from_disk:
  assumes hw: "has_disk hw fops disk regs delay" and bus: "one_controller cfg" and s: "fresh_machine s"
    and raw: "part_count (raw 0) = 0" "length (part_list (raw 0)) = 4"
    and root: "root_partition (disk_bytes disk)"
    and img: "img = partition_bytes (disk_bytes disk)" "n = partition_sectors (disk_bytes disk)"
      "fs = image_fs (root_hd (raw 0) (disk_bytes disk)) img" "mountable fs n" "image_tree fs img n dnos recs" "2 \<in> dnos" "\<forall>ino\<in>dnos. length (recs ino) \<le> N"
    and heap: "root_dir (m_fs s) \<noteq> 0" "heap_fresh {root_dir (m_fs s)} (e_heap (m_fs s))" "3 + (length cs + 1) * (1 + 3 * N) \<le> length (e_heap (m_fs s))"
    and path: "list_all component cs" "cs \<noteq> []" "CHR 0x00 \<notin> set (path_of cs slash)" "length (path_of cs slash) \<noteq> 1"
  shows "\<exists>s'. kmain (ata_driver hw fops raw data) cfg before CHR 0x00 s = ret s' \<and>
    m_heap s' = setup_heap (m_heap s) 0xc0000000 0x3fffffff \<and> paths_match fs img recs cs slash (m_fs s') b a"
proof -
  from iosetup_disk [OF hw bus s, of raw data] obtain s1 device ws zs where io: "iosetup (ata_driver hw fops raw data) cfg s = ret s1"
    "m_heap s1 = m_heap s" "m_fs s1 = setup_fs (m_fs s)" "m_filesystems s1 = Some ext2fs # replicate 15 None"
    "ak_bd_list (kernel (m_pci s1)) = packed MAX_DEVICES (gendisk_partscan (new_disk fops (raw 0) (first_position device ws)) # zs)"
    unfolding init_ext2_first by blast
  let ?dev = "first_position device ws"
  let ?g = "gendisk_partscan (new_disk fops (raw 0) ?dev)" and ?bds = "ak_bd_list (kernel (m_pci s1))" and ?v = "with_disks s1"
  have c: "conforms hw (base_io ?dev) disk regs delay" "reads_through hw ?dev (fops ?dev)"
    using hw by (simp_all add: has_disk_def first_position_def)
  note rd = reads_disk [OF c]
  note g = scanned_disk [where whole = "disk_bytes disk" and dev = ?dev and fops = fops, OF root raw rd]
  have p: "get_hdstruct ?bds MAJOR_ATA0 1 = Some (?g, 0)"
    using g(1) by (simp add: get_hdstruct_def get_gendisk_def io(5) first_match_packed)
  have im: "part_image ?v (root_hd (raw 0) (disk_bytes disk)) n img" unfolding img(1,2)
  proof (rule scanned_image [OF root])
    show "e_bds ?v (bd_addr (raw 0)) = ?g" using g(4) by (simp add: with_disks_def disks_of_def io(5) first_match_packed)
  qed (use rd g(3) in simp)
  have t: "fs_type (root_hd (raw 0) (disk_bytes disk)) = 0x83" using root by (simp add: root_partition_def root_hd_def part_of_entry_def)
  have v: "root_dir ?v = root_dir (m_fs s)" "directory (root_direntry ?v) = root_dir ?v" "entries (dirs ?v (root_dir ?v)) = []"
    "d_parent (dirs ?v (root_dir ?v)) = root_dir ?v" "e_heap ?v = e_heap (m_fs s)" by (simp_all add: with_disks_def io(3) setup_fs_def)
  have h: "root_dir ?v \<noteq> 0" "heap_fresh {root_dir ?v} (e_heap ?v)" "3 + (length cs + 1) * (1 + 3 * N) \<le> length (e_heap ?v)"
    using heap unfolding v by simp_all
  from mount_paths [OF p g(2) t im img(3-7) h(1) v(2-4) h(2,3) path]
  obtain v where "do_mount ?bds (Some ext2fs # replicate 15 None) load_ext2 before CHR 0x00 MAJOR_ATA0 1 ''/'' ?v = ret (v, SUCCESS)"
    "paths_match fs img recs cs slash v b a" by blast
  then show ?thesis by (auto simp: kmain_def io)
qed

section \<open>Property\<close>

text \<open>
  C4: From the sectors of the disk to a file. The machine has one disk controller the driver knows, with a disk in its
  first position that is identified and transfers as the ATA standard says. Its first sector holds a partition table whose first
  entry is an ext2 file system of at most 65536 sectors, with inodes of 128 bytes, whose directories are well-formed records in their first block. The
  memory for the disk structure has zero where the driver expects the number of partitions, the byte behind the literal
  \<open>/\<close> is zero, and the memory for the file system is large enough and cleared. Then \<open>kmain\<close> returns, with the empty heap at
  3 GB, and path lookup finds under any absolute path of one or more components, other than one character, what the sectors of the disk hold there.
\<close>

theorem kmain_disk_spec:
  assumes "has_disk hw fops disk regs delay" "one_controller cfg" "fresh_machine s"
    and "part_count (raw 0) = 0" "length (part_list (raw 0)) = 4"
    and "root_partition (disk_bytes disk)" "img = partition_bytes (disk_bytes disk)" "n = partition_sectors (disk_bytes disk)"
    and "fs = image_fs (root_hd (raw 0) (disk_bytes disk)) img" "mountable fs n"
    and "image_tree fs img n dnos recs" "2 \<in> dnos" "\<forall>ino\<in>dnos. length (recs ino) \<le> N"
    and "root_dir (m_fs s) \<noteq> 0" "heap_fresh {root_dir (m_fs s)} (e_heap (m_fs s))"
    and "3 + (length cs + 1) * (1 + 3 * N) \<le> length (e_heap (m_fs s))"
    and "list_all component cs" "cs \<noteq> []" "CHR 0x00 \<notin> set (path_of cs slash)" "length (path_of cs slash) \<noteq> 1"
  shows "\<exists>s'. kmain (ata_driver hw fops raw data) cfg before CHR 0x00 s = ret s' \<and>
    m_heap s' = setup_heap (m_heap s) 0xc0000000 0x3fffffff \<and> paths_match fs img recs cs slash (m_fs s') b a"
  using assms by (rule kmain_from_disk)

text \<open>A machine with a PIIX3 controller as its only PCI function.\<close>

definition boot_cfg :: cfg_space where
  "boot_cfg a = (if a = 0x80000000 then 0x70108086 else if a = 0x80000008 then 0x01018000 else - 1)"

lemma boot_functions: "present_functions boot_cfg = [(0, 0, 0)]"
proof -
  have z: "bus = 0 \<and> slot = 0 \<and> fnc = 0"
    if p: "pci_is_present boot_cfg bus slot fnc" and l: "slot < 32" "fnc < 8" for bus slot fnc
  proof -
    let ?a = "cfg_address (bare_device bus slot fnc) 0"
    note f = cfg_address_fields [of "bare_device bus slot fnc" 0] l
    have "?a = 0x80000000 \<or> ?a = 0x80000008"
      using p by (auto simp: pci_is_present_def pci_cfg_read16_def pci_cfg_read32_def boot_cfg_def split: if_splits)
    then show ?thesis using f by (auto simp: bare_device_def)
  qed
  have n: "\<not> pci_is_present boot_cfg (of_nat bus) (of_nat slot) (of_nat fnc)"
    if "bus < 256" "slot < 32" "fnc < 8" "bus \<noteq> 0 \<or> slot \<noteq> 0 \<or> fnc \<noteq> 0" for bus slot fnc
  proof
    assume "pci_is_present boot_cfg (of_nat bus) (of_nat slot) (of_nat fnc)"
    moreover have u: "unat (of_nat bus :: u8) = bus" "unat (of_nat slot :: u8) = slot" "unat (of_nat fnc :: u8) = fnc"
      using that by (simp_all add: unat_of_nat)
    ultimately have "(of_nat bus :: u8) = 0 \<and> (of_nat slot :: u8) = 0 \<and> (of_nat fnc :: u8) = 0"
      using that by (intro z) (simp_all add: word_less_nat_alt)
    then show False using u that(4) by (metis unat_0)
  qed
  have p: "pci_is_present boot_cfg 0 0 0"
    by (simp add: pci_is_present_def pci_cfg_read16_def pci_cfg_read32_def cfg_address_def bare_device_def boot_cfg_def BIT_def)
  have first: "concat (map f [0..<m]) = f 0" if "0 < m" "\<And>x. 0 < x \<Longrightarrow> x < m \<Longrightarrow> f x = []" for f :: "nat \<Rightarrow> (nat \<times> nat \<times> nat) list" and m
    using that by (simp add: upt_conv_Cons [of 0 m] del: upt_Suc)
  have "filter (\<lambda>fnc. pci_is_present boot_cfg 0 0 (of_nat fnc)) [1..<8] = []" using n [of 0 0] by (auto simp: filter_empty_conv)
  then have f: "filter (\<lambda>fnc. pci_is_present boot_cfg 0 0 (of_nat fnc)) [0..<8] = [0]"
    using p by (simp add: upt_conv_Cons [of 0 8] del: upt_Suc)
  have s: "\<not> pci_is_present boot_cfg (of_nat bus) (of_nat slot) 0" if "bus < 256" "slot < 32" "bus \<noteq> 0 \<or> slot \<noteq> 0" for bus slot
    using n [of bus slot 0] that by simp
  define g where "g bus slot = (if pci_is_present boot_cfg (of_nat bus) (of_nat slot) 0
     then map (\<lambda>fnc. (bus, slot, fnc)) (filter (\<lambda>fnc. pci_is_present boot_cfg (of_nat bus) (of_nat slot) (of_nat fnc)) [0..<8])
     else [])" for bus slot
  have "g 0 0 = [(0, 0, 0)]" using p f by (simp add: g_def)
  moreover have "g bus slot = []" if "bus < 256" "slot < 32" "bus \<noteq> 0 \<or> slot \<noteq> 0" for bus slot
    using s [OF that] by (simp add: g_def)
  ultimately have bus: "concat (map (g bus) [0..<32]) = (if bus = 0 then [(0, 0, 0)] else [])" if "bus < 256" for bus
    using that first [of 32 "g bus"] by simp
  have "concat (map (\<lambda>bus. concat (map (g bus) [0..<32])) [0..<256]) = [(0, 0, 0)]"
    using first [of 256 "\<lambda>bus. concat (map (g bus) [0..<32])"] bus by simp
  then show ?thesis unfolding present_functions_def g_def .
qed

lemma boot_reads:
  assumes "bus_no d = 0" "slot_no d = 0" "function_no d = 0"
  shows "pci_cfg_read16 boot_cfg d PCI_VENDOR_ID = 0x8086" "pci_cfg_read16 boot_cfg d PCI_DEVICE_ID = 0x7010"
    "pci_cfg_read8 boot_cfg d PCI_CLASS = 1"
  using assms by (simp_all add: pci_cfg_read16_def pci_cfg_read8_def pci_cfg_read32_def cfg_address_def boot_cfg_def BIT_def
      PCI_VENDOR_ID_def PCI_DEVICE_ID_def PCI_CLASS_def)

lemma boot_bus: "one_controller boot_cfg"
proof -
  have "vendor_id (device_at boot_cfg (0, 0, 0)) = 0x8086" "device_id (device_at boot_cfg (0, 0, 0)) = 0x7010"
    "class_no (device_at boot_cfg (0, 0, 0)) = 1"
    by (simp_all add: device_at_def read_device_def bare_device_def boot_reads Let_def)
  then show ?thesis by (simp add: one_controller_def ata_controller_def boot_functions DEVICES_def)
qed

text \<open>A disk with \<open>tree_image\<close> as its first partition, in the sectors from 1 on.\<close>

definition boot_mbr :: bytes where
  "boot_mbr = (\<lambda>_. 0)(510 := 0x55, 511 := 0xAA, 450 := 0x83, 454 := 1, 458 := 64)"

definition disk_contents :: bytes where
  "disk_contents k = (if k < 512 then boot_mbr k else tree_image (k - 512))"

definition word_at :: "bytes \<Rightarrow> nat \<Rightarrow> u16" where
  "word_at b i = ucast (b (2 * i)) OR push_bit 8 (ucast (b (2 * i + 1)))"

definition boot_sectors :: "nat \<Rightarrow> u16 list" where
  "boot_sectors lba = map (\<lambda>i. word_at disk_contents (256 * lba + i)) [0..<256]"

lemma word_at_bytes: "ucast (word_at b i) = b (2 * i)" "ucast (drop_bit 8 (word_at b i)) = b (2 * i + 1)"
  by (rule bit_word_eqI, auto simp: word_at_def bit_simps dest: bit_imp_le_length)+

lemma bytes_of_words: "k < 2 * n \<Longrightarrow> bytes_of (map (\<lambda>i. word_at b (j + i)) [0..<n]) ! k = b (2 * j + k)"
proof (induction n)
  case (Suc n)
  then have "k < 2 * n \<or> k = 2 * n \<or> k = 2 * n + 1" by auto
  then show ?case
    using Suc.IH by (elim disjE) (simp_all add: bytes_of_append nth_append length_bytes_of,
      simp_all add: bytes_of_def word_at_bytes algebra_simps)
qed simp

lemma boot_bytes: "disk_bytes boot_sectors = disk_contents"
proof
  fix k
  have "disk_bytes boot_sectors k = disk_contents (2 * (256 * (k div 512)) + k mod 512)"
    unfolding disk_bytes_def boot_sectors_def by (rule bytes_of_words) simp
  then show "disk_bytes boot_sectors k = disk_contents k" by (simp add: mult.assoc flip: mult.assoc)
qed

lemma boot_partition:
  "root_partition disk_contents" "partition_sectors disk_contents = 64" "partition_bytes disk_contents = tree_image"
proof -
  have "mbr_entry disk_contents 0 = \<lparr>bootable = False, is_lba48 = False, fs_id = 0x83, start_sector = 1, sector_count = 64, entry_id = 0\<rparr>"
    by (simp add: mbr_entry_def disk_contents_def boot_mbr_def buf32_def Let_def)
  then show "root_partition disk_contents" "partition_sectors disk_contents = 64" "partition_bytes disk_contents = tree_image"
    by (simp_all add: root_partition_def entry_used_def is_mbr_def partition_sectors_def partition_bytes_def fun_eq_iff)
      (simp_all add: disk_contents_def boot_mbr_def)
qed

definition boot_fops :: "ata_dev_struct \<Rightarrow> u32 \<Rightarrow> u32 \<Rightarrow> s32 \<times> bytes" where
  "boot_fops dev c lba = (c, \<lambda>k. disk_contents (512 * unat lba + k))"

lemma reads_through_disk:
  assumes c: "conforms hw (base_io dev) disk regs delay" and rd: "\<And>c lba. rd c lba = (c, \<lambda>k. disk_bytes disk (512 * unat lba + k))"
  shows "reads_through hw dev rd"
  unfolding reads_through_def rd
proof (intro allI impI)
  fix c lba buf m mtx d
  assume n: "unat (c :: u32) \<le> 65536" and h: "\<not> held mtx"
  show "\<exists>m' mtx' d'. ata_read hw dev buf c lba (m, mtx, d) = ret ((m', mtx', d'), fst (c, \<lambda>k. disk_bytes disk (512 * unat lba + k))) \<and>
      (\<forall>k<512 * unat c. snd (c, \<lambda>k. disk_bytes disk (512 * unat lba + k)) k = m' (buf + of_nat k))"
  proof (cases "c = 0")
    case True
    then show ?thesis by (simp add: ata_read_def)
  next
    case False
    have len: "length (disk i) = 256" for i using c by (simp add: conforms_def)
    then have "length (bytes_of (read_words disk (unat lba) (unat c))) = 512 * unat c" by (rule read_words_length)
    then show ?thesis using ata_read_sectors [OF c False n h, of buf lba m d] n
      by (auto simp: put_bytes_nth read_words_nth [OF len])
  qed
qed

lemma boot_disk: "has_disk (disk_hw boot_sectors) boot_fops boot_sectors id (\<lambda>_. 0)"
proof -
  let ?hw = "disk_hw boot_sectors"
  have c: "conforms ?hw PRIMARY1_BASE boot_sectors id (\<lambda>_. 0)"
    unfolding PRIMARY1_BASE_def by (rule disk_hw_conforms) (simp add: boot_sectors_def)
  have inb: "inb ?hw p d = (if ucast p = (0x1f7 :: u16) then 0x48 else 0, d)" for p d by (simp add: inb_def disk_hw_def)
  have "(0x48 :: u32) AND BSY = 0" "(0x48 :: u32) AND (DRQ OR ATA_ERR) \<noteq> 0" "(0x48 :: u32) AND ATA_ERR = 0"
    by (simp_all add: BSY_def DRQ_def ATA_ERR_def BIT_def)
  note bits = this
  have w: "ucast (p + ATA_STATUS) = (0x1f7 :: u16) \<Longrightarrow> wait_bsy ?hw p d = ret d"
    "ucast (p + ATA_STATUS) = (0x1f7 :: u16) \<Longrightarrow> wait_drq_error ?hw p d = ret d" for p d
    by (subst wait_bsy.simps wait_drq_error.simps, simp add: inb bits)+
  have "answers ?hw"
    unfolding answers_def by (auto simp: ata_identify_def Let_def inb w bits split: prod.splits)
  moreover have "\<exists>ws d'. ata_identify ?hw (first_position device data) d = ret (first_position device ws, d', 1)" for device data d
  proof -
    have u: "ucast (PRIMARY1_BASE + ATA_STATUS) = (0x1f7 :: u16)" "ucast (PRIMARY1_BASE + ATA_LBAMID) = (0x1f4 :: u16)"
      "ucast (PRIMARY1_BASE + ATA_LBAHI) = (0x1f5 :: u16)"
      by (simp_all add: PRIMARY1_BASE_def ATA_STATUS_def ATA_LBAMID_def ATA_LBAHI_def)
    show ?thesis by (simp add: ata_identify_def Let_def inb w u bits first_position_def split: prod.split)
  qed
  moreover have "reads_through ?hw (first_position device ws) (boot_fops (first_position device ws))" for device ws
    using c by (intro reads_through_disk [where disk = boot_sectors and regs = id and delay = "\<lambda>_. 0"])
      (simp_all add: first_position_def boot_fops_def boot_bytes)
  ultimately show ?thesis using c by (simp add: has_disk_def)
qed

definition boot_machine :: "ata_regs machine" where
  "boot_machine = \<lparr>m_heap = m_heap bare_machine, m_vga = m_vga bare_machine,
     m_pci = \<lparr>devices = replicate DEVICES None, drivers = replicate DRIVERS None, pci_device_index = 0,
       kernel = \<lparr>ak_hw = idle_regs, ak_bd_list = replicate MAX_DEVICES None, ak_lock = None\<rparr>\<rparr>,
     m_filesystems = replicate MAX_FILESYSTEMS None, m_fs = tree_state\<rparr>"

theorem kmain_disk_spec_witness:
  "\<exists>s' v e. kmain (ata_driver (disk_hw boot_sectors) boot_fops (\<lambda>_. one_entry_disk 0) []) boot_cfg CHR 0x00 CHR 0x00 boot_machine = ret s' \<and>
    namei load_ext2 CHR 0x00 CHR 0x00 ''/d/ab'' (m_fs s') = ret (v, SUCCESS, Some e) \<and> de_inode_no e = 12 \<and> de_size e = 5"
proof -
  let ?part = "root_hd (one_entry_disk 0) (disk_bytes boot_sectors)"
  have m: "fresh_machine boot_machine" "m_fs boot_machine = tree_state" by (simp_all add: fresh_machine_def boot_machine_def)
  have N: "\<forall>ino\<in>{2, 11}. length (tree_recs ino) \<le> 3" by (simp add: tree_recs_def)
  have raw: "part_count (one_entry_disk 0) = 0" "length (part_list (one_entry_disk 0)) = 4" by (simp_all add: one_entry_disk_def)
  have img: "tree_image = partition_bytes (disk_bytes boot_sectors)" "64 = partition_sectors (disk_bytes boot_sectors)"
    by (simp_all add: boot_bytes boot_partition)
  have c: "list_all component [''d'', ''ab'']" "3 + (length [''d'', ''ab''] + 1) * (1 + 3 * 3) \<le> length (e_heap (m_fs boot_machine))"
    by (simp_all add: component_def m tree_state_ok(5))
  have h: "root_dir (m_fs boot_machine) \<noteq> 0" "heap_fresh {root_dir (m_fs boot_machine)} (e_heap (m_fs boot_machine))"
    using tree_state_ok(4) by (simp_all add: m tree_state_ok(3))
  from kmain_disk_spec [where raw = "\<lambda>_. one_entry_disk 0", OF boot_disk boot_bus m(1) raw boot_partition(1) [folded boot_bytes] img tree_fs_def tree_state_ok(2)
      tree_image_tree _ N h c(2,1), where slash = False and data = "[]" and before = "CHR 0x00" and b = "CHR 0x00" and a = "CHR 0x00"]
  obtain s' where s: "kmain (ata_driver (disk_hw boot_sectors) boot_fops (\<lambda>_. one_entry_disk 0) []) boot_cfg CHR 0x00 CHR 0x00 boot_machine = ret s'"
    "paths_match (tree_fs ?part) tree_image tree_recs [''d'', ''ab''] False (m_fs s') CHR 0x00 CHR 0x00"
    by auto
  from s(2) obtain v e where "namei load_ext2 CHR 0x00 CHR 0x00 ''/d/ab'' (m_fs s') = ret (v, SUCCESS, Some e)"
    "entry_of (tree_fs ?part) tree_image \<lparr>r_ino = 12, r_type = 1, r_name = [97, 98], r_len = 1000\<rparr> e"
    unfolding paths_match_def tree_walk by auto
  with s(1) show ?thesis by (auto simp: entry_of_def Let_def tree_modes)
qed

end
