(* ===== verification/Uprograms.thy ===== *)
theory Uprograms
  imports Ushell
begin

text \<open>
  The other programs of user space: \<open>coreutils\<close> with \<open>ls\<close> (\<open>userspace/coreutils\<close>), \<open>hexdump\<close> and
  \<open>dhcpd\<close> (\<open>userspace/netutils/dhcp.c\<close>). Their arguments are a pointer to the array of argument pointers. A program is
  chosen by the base name of its path, which is proved for the programs \<open>coreutils\<close> holds, for every kernel; on this
  kernel \<open>hexdump\<close> reports the missing system call.
\<close>

section \<open>coreutils\<close>

definition F_LONG :: s32 where "F_LONG = 4"

text \<open>The characters of the file at \<open>fil\<close>: its name is the field at offset 11 of \<open>struct dirent\<close>.\<close>

definition ls_line :: "'z ustdio_ext trap \<Rightarrow> 'f frame_scheme \<Rightarrow> s32 \<Rightarrow> addr \<Rightarrow> ('z ustdio_ext, unit) ucall" where
  "ls_line int80 F flags fil s =
     (if flags AND F_LONG \<noteq> 0
      then print int80 F ''%c%s%s%s %s %s %08lu %s\<newline>''
             [0x64, flit F ''rwx'', flit F ''rwx'', flit F ''rwx'', flit F ''root'', flit F ''root'', 4096, fil + 11] s
      else print int80 F ''%s\<newline>'' [fil + 11] s)"

partial_function (option) ls_loop ::
  "'z ustdio_ext trap \<Rightarrow> 'f frame_scheme \<Rightarrow> addr \<Rightarrow> s32 \<Rightarrow> 'z ustdio_scheme \<Rightarrow> (unit \<times> 'z ustdio_scheme) exec" where
  "ls_loop int80 F dir flags s =
     bindX (readdir_u dir s) (\<lambda>(fil, s).
       if fil \<noteq> 0 then bindX (ls_line int80 F flags fil s) (\<lambda>(_, s). ls_loop int80 F dir flags s) else ret ((), s))"

definition ls_main :: "'z ustdio_ext trap \<Rightarrow> 'f frame_scheme \<Rightarrow> s32 \<Rightarrow> addr \<Rightarrow> ('z ustdio_ext, s32) ucall" where
  "ls_main int80 F argc argv s =
     bindX (opendir_u int80 (flit F ''.'') s) (\<lambda>(dir, s).
       if dir = 0
       then bindX (print_error int80 F ''%s: error: %s\<newline>'' [load32 (umem s) argv] s) (\<lambda>(_, s). ret (1, s))
       else bindX (ls_loop int80 F dir F_LONG s) (\<lambda>(_, s).
            bindX (closedir_u dir s) (\<lambda>(_, s). ret (0, s))))"

text \<open>\<open>prg\<close> is the address of the local copy of the program's path, an array of 32 bytes.\<close>

definition coreutils_main :: "'z ustdio_ext trap \<Rightarrow> 'f frame_scheme \<Rightarrow> addr \<Rightarrow> s32 \<Rightarrow> addr \<Rightarrow> ('z ustdio_ext, s32) ucall" where
  "coreutils_main int80 F prg argc argv s =
     (if argc <s 1 then ret (1, s)
      else bindX (strcpy_u (umem s) prg (load32 (umem s) argv)) (\<lambda>m.
           let s = s\<lparr>umem := m\<rparr>
           in bindX (basename (umem s) prg) (\<lambda>base.
              bindX (is_word F base ''coreutils'' s) (\<lambda>b.
                if b
                then bindX (print int80 F ''Ulmix coreutils\<newline>Copyright (C) 2019\<newline>Written by Alexander Ulmer\<newline>'' [] s) (\<lambda>(_, s). ret (0, s))
                else bindX (is_word F base ''ls'' s) (\<lambda>b.
                  if b then ls_main int80 F argc argv s
                  else bindX (print int80 F ''coreutils: %s: command not found\<newline>'' [base] s) (\<lambda>(_, s). ret (1, s)))))))"

definition dhcp_main :: "'z ustdio_ext trap \<Rightarrow> 'f frame_scheme \<Rightarrow> s32 \<Rightarrow> addr \<Rightarrow> ('z ustdio_ext, s32) ucall" where
  "dhcp_main int80 F argc argv s =
     bindX (print int80 F ''[DHCP] obtaining IP configuration\<newline>'' [] s) (\<lambda>(_, s). ret (0, s))"

section \<open>hexdump\<close>

definition put :: "'z ustdio_ext trap \<Rightarrow> 'f frame_scheme \<Rightarrow> u8 \<Rightarrow> ('z ustdio_ext, unit) ucall" where
  "put int80 F c = putchar_u int80 (putchar_c F) c"

primrec ascii_loop :: "'z ustdio_ext trap \<Rightarrow> 'f frame_scheme \<Rightarrow> addr \<Rightarrow> nat \<Rightarrow> 'z ustdio_scheme \<Rightarrow> 'z ustdio_scheme exec" where
  "ascii_loop int80 F buf 0 s = ret s"
| "ascii_loop int80 F buf (Suc n) s =
     bindX (put int80 F (if 32 \<le> umem s buf \<and> umem s buf < 127 then umem s buf else 46) s) (\<lambda>(_, s).
       ascii_loop int80 F (buf + 1) n s)"

definition print_ascii :: "'z ustdio_ext trap \<Rightarrow> 'f frame_scheme \<Rightarrow> addr \<Rightarrow> s32 \<Rightarrow> 'z ustdio_scheme \<Rightarrow> 'z ustdio_scheme exec" where
  "print_ascii int80 F buf len s =
     bindX (put int80 F 32 s) (\<lambda>(_, s). bindX (put int80 F 124 s) (\<lambda>(_, s).
     bindX (ascii_loop int80 F buf (nat (sint len)) s) (\<lambda>s.
     bindX (put int80 F 124 s) (\<lambda>(_, s). bindX (put int80 F 10 s) (\<lambda>(_, s). ret s)))))"

text \<open>\<open>for (int i = 0; i < len; i++)\<close> over the bytes; the first argument is the number of bytes left.\<close>

primrec data_loop :: "nat \<Rightarrow> 'z ustdio_ext trap \<Rightarrow> 'f frame_scheme \<Rightarrow> addr \<Rightarrow> nat \<Rightarrow> 'z ustdio_scheme \<Rightarrow> 'z ustdio_scheme exec" where
  "data_loop 0 int80 F buf i s = ret s"
| "data_loop (Suc n) int80 F buf i s =
     bindX (print int80 F ''%02x '' [ucast (umem s (buf + of_nat i))] s) (\<lambda>(_, s).
     bindX (if i = 7 then put int80 F 32 s else ret ((), s)) (\<lambda>(_, s). data_loop n int80 F buf (i + 1) s))"

text \<open>\<open>while (rem--)\<close>, which counts a negative number down through the whole range of \<open>int\<close>.\<close>

definition blanks :: "'z ustdio_ext trap \<Rightarrow> 'f frame_scheme \<Rightarrow> nat \<Rightarrow> 'z ustdio_scheme \<Rightarrow> 'z ustdio_scheme exec" where
  "blanks int80 F n = foldX (\<lambda>_ s. bindX (print int80 F ''   '' [] s) (\<lambda>(_, s). ret s)) [0..<n]"

text \<open>\<open>while ((len = read(fd, buf, 16)) > 0)\<close>\<close>

partial_function (option) dump_loop ::
  "'z ustdio_ext trap \<Rightarrow> 'f frame_scheme \<Rightarrow> addr \<Rightarrow> s32 \<Rightarrow> u32 \<Rightarrow> 'z ustdio_scheme \<Rightarrow> 'z ustdio_scheme exec" where
  "dump_loop int80 F buf fd offset s =
     bindX (read_u int80 fd buf 16 s) (\<lambda>(len, s).
       if 0 <s len
       then bindX (print int80 F ''0x%08lx:  '' [offset] s) (\<lambda>(_, s).
            bindX (data_loop (nat (sint len)) int80 F buf 0 s) (\<lambda>s.
            bindX (blanks int80 F (unat (16 - len)) s) (\<lambda>s.
            bindX (if len <s 8 then put int80 F 32 s else ret ((), s)) (\<lambda>(_, s).
            bindX (print_ascii int80 F buf len s) (\<lambda>s.
              if len <s 16 then ret s else dump_loop int80 F buf fd (offset + 16) s)))))
       else ret s)"

definition hexdump_main :: "'z ustdio_ext trap \<Rightarrow> 'f frame_scheme \<Rightarrow> addr \<Rightarrow> s32 \<Rightarrow> addr \<Rightarrow> ('z ustdio_ext, s32) ucall" where
  "hexdump_main int80 F buf argc argv s =
     (if argc <s 2 then bindX (print int80 F ''hexdump: error: too few arguments\<newline>'' [] s) (\<lambda>(_, s). ret (1, s))
      else bindX (open_u int80 (load32 (umem s) (argv + 4)) O_RDONLY s) (\<lambda>(fd, s).
        if fd <s 0
        then bindX (print int80 F ''hexdump: errno %d: cannot open file\<newline>'' [errno_u s] s) (\<lambda>(_, s). ret (1, s))
        else bindX (dump_loop int80 F buf fd 0 s) (\<lambda>s. bindX (close_u int80 fd s) (\<lambda>(_, s). ret (0, s)))))"

section \<open>Choosing a program\<close>

lemma is_word_cstr:
  "cstr (umem s) p t \<Longrightarrow> cstr (umem s) (flit F w) (map of_char w) \<Longrightarrow> is_word F p w s = ret (t = map of_char w)"
proof -
  assume c: "cstr (umem s) p t" "cstr (umem s) (flit F w) (map of_char w)"
  have "strcmp_u (umem s) p (flit F w) = ret (strcmp_spec t (map of_char w))"
    unfolding strcmp_u_def using c by (intro strcmp_loop_cstr) simp_all
  then show ?thesis by (simp add: is_word_def strcmp_spec_eq_0 [OF cstr_nz [OF c(1)] cstr_nz [OF c(2)]])
qed

lemma strcpy_u_cstr:
  assumes "cstr m p t" "length t < 4294967295" "d = p \<or> Suc (length t) \<le> unat (d - p)"
  shows "\<exists>m'. strcpy_u m d p = ret m' \<and> cstr m' d t \<and> (\<forall>x. \<not> in_range x d (Suc (length t)) \<longrightarrow> m' x = m x)"
proof -
  let ?m = "memcpy_loop (Suc (length t)) m d p"
  have e: "?m = (\<lambda>x. if in_range x d (Suc (length t)) then m (p + (x - d)) else m x)"
    using assms(2,3) by (intro memcpy_loop_eq) auto
  have i: "in_range (d + of_nat k) d (Suc (length t))" if "k \<le> length t" for k
    using that assms(2) by (simp add: in_range_def unat_of_nat_u32)
  have "cstr ?m d t" using assms(1) i unfolding cstr_index e by (auto simp: less_imp_le)
  moreover have "strcpy_u m d p = ret ?m" unfolding strcpy_u_def by (rule strcpy_loop_cstr [OF assms])
  moreover have "?m x = m x" if "\<not> in_range x d (Suc (length t))" for x unfolding e using that by simp
  ultimately show ?thesis by blast
qed

lemma cstr_keep:
  "cstr m p s \<Longrightarrow> (\<And>x. in_range x p (Suc (length s)) \<Longrightarrow> m' x = m x) \<Longrightarrow> length s < 4294967295 \<Longrightarrow> cstr m' p s"
  by (subst cstr_cong [where m' = m]) auto

lemma cstr_suffix: "cstr m p (a @ b) \<Longrightarrow> cstr m (p + of_nat (length a)) b"
proof (induction a arbitrary: p)
  case (Cons c a)
  then have "cstr m (p + 1 + of_nat (length a)) b" by simp
  then show ?case by (simp add: add.assoc)
qed simp

lemma basename_slash:
  assumes "cstr m p (a @ 47 # b)" "47 \<notin> set b"
  shows "basename m p = ret (p + of_nat (length a) + 1)"
proof -
  have ch: "m (p + of_nat k) = (a @ 47 # b) ! k" if "k < length (a @ 47 # b)" for k
    using assms(1) that unfolding cstr_index by blast
  have nz: "0 \<notin> set b" using cstr_nz [OF assms(1)] by simp
  have "m (p + of_nat (Suc (length a) + j)) \<noteq> 0 \<and> m (p + of_nat (Suc (length a) + j)) \<noteq> 47" if "j < length b" for j
  proof -
    have "m (p + of_nat (Suc (length a) + j)) = b ! j" using ch [of "Suc (length a) + j"] that by (simp add: nth_append)
    moreover have "b ! j \<in> set b" using that by simp
    ultimately show ?thesis using nz assms(2) by auto
  qed
  then have "basename_loop m p (of_nat (Suc (length a) + length b)) = basename_loop m p (of_nat (Suc (length a)))"
    by (intro basename_loop_back) blast
  moreover have "basename_loop m p (of_nat (Suc (length a))) = ret (p + of_nat (length a) + 1)"
    using ch [of "length a"] by (subst basename_loop.simps) (simp add: Let_def)
  ultimately show ?thesis using strlen_u_cstr [OF assms(1)] by (simp add: basename_def)
qed

section \<open>Printing on this kernel\<close>

lemma print_text_on_kernel:
  assumes "utext S (map of_char w) args = Some t" "cstr (umem s) (flit F w) (map of_char w)" "length w < 1000" "length t < 256"
    and "untouched (sprintf_buf F) (printf_buf F) 256 (flit F w) (Suc (length w))"
    and "sources_ok (flit F) S (umem s) (sprintf_buf F) (printf_buf F) 256"
  shows "\<exists>s'. print syscall_handler F w args s = ret ((), s') \<and> (\<forall>j<length t. umem s' (printf_buf F + of_nat j) = t ! j)"
proof -
  have sub: "in_range x (printf_buf F) 256" if "in_range x (printf_buf F) (Suc (length t))" for x
    using that assms(4) by (simp add: in_range_def)
  have u: "untouched (sprintf_buf F) (printf_buf F) (Suc (length t)) (flit F w) (Suc (length (map of_char w :: u8 list)))"
    using assms(5) sub by (auto simp: untouched_def)
  have "keeps_rest (sprintf_buf F) (printf_buf F) 256 (umem s) (umem s)" by (simp add: keeps_rest_def)
  note so = sources_frame [OF assms(6) this sub]
  have l: "length (map of_char w :: u8 list) < 2147483648" "length t < 2147483648" using assms(3,4) by simp_all
  obtain m' where "sprintf (flit F) (sprintf_buf F) (umem s) (printf_buf F) (flit F w) args = ret (m', of_nat (length t))"
    "\<forall>j<length t. m' (printf_buf F + of_nat j) = t ! j"
    using sprintf_text [OF assms(1,2) l u so] by blast
  then show ?thesis by (simp add: print_def printf_u_def stdlib_calls)
qed

text \<open>Opening a file is a call this kernel does not have: \<open>hexdump\<close> prints its error number and gives up.\<close>

lemma hexdump_on_kernel:
  assumes "2 \<le>s argc" "cstr (umem s) (flit F w) (map of_char w)" "w = ''hexdump: errno %d: cannot open file\<newline>''"
    and "untouched (sprintf_buf F) (printf_buf F) 256 (flit F w) (Suc (length w))"
    and "sources_ok (flit F) S (umem s) (sprintf_buf F) (printf_buf F) 256"
    and "t = map of_char ''hexdump: errno 38: cannot open file\<newline>''"
  shows "\<exists>s'. hexdump_main syscall_handler F buf argc argv s = ret (1, s') \<and>
    (\<forall>j<length t. umem s' (printf_buf F + of_nat j) = t ! j)"
proof -
  let ?s = "s\<lparr>actual_errno := 38\<rparr>"
  have u: "utext S (map of_char w) [38] = Some t"
    unfolding assms(3,6) by (simp add: uconv_text_def itoa_text_def digits_of.simps get_letter_def word_sless_alt)
  have l: "length w < 1000" "length t < 256" unfolding assms(3,6) by simp_all
  obtain s' where s': "print syscall_handler F w [38] ?s = ret ((), s')" "\<forall>j<length t. umem s' (printf_buf F + of_nat j) = t ! j"
    using print_text_on_kernel [OF u _ l assms(4), of ?s] assms(2,5) by auto
  have "\<not> argc <s 2" using assms(1) by (simp add: word_sle_eq word_sless_alt)
  then show ?thesis using s' unfolding assms(3)
    by (simp add: hexdump_main_def stdlib_calls errno_u_def word_sless_alt)
qed

section \<open>Properties\<close>

text \<open>
  C31: Choosing a program, on any kernel. Run under a path with a slash and fewer than 32 characters, \<open>coreutils\<close>
  behaves as the program that the last component names: the notice for its own name, \<open>ls\<close>, or else the
  message with that component; nothing but its copy of the path has changed before.
\<close>

theorem coreutils_spec:
  assumes "cstr (umem s) p (a @ 47 # b)" "47 \<notin> set b" "length (a @ 47 # b) < 32" "p = load32 (umem s) argv" "1 \<le>s argc"
    and "32 \<le> unat (prg - p)"
    and "cstr (umem s) (flit F ''coreutils'') (map of_char ''coreutils'')" "cstr (umem s) (flit F ''ls'') (map of_char ''ls'')"
    and "\<forall>x. in_range x prg 32 \<longrightarrow> \<not> in_range x (flit F ''coreutils'') 10 \<and> \<not> in_range x (flit F ''ls'') 3"
  shows "\<exists>m'. (\<forall>x. \<not> in_range x prg 32 \<longrightarrow> m' x = umem s x) \<and>
    coreutils_main int80 F prg argc argv s =
      (if b = map of_char ''coreutils''
       then bindX (print int80 F ''Ulmix coreutils\<newline>Copyright (C) 2019\<newline>Written by Alexander Ulmer\<newline>'' [] (s\<lparr>umem := m'\<rparr>))
              (\<lambda>(_, s). ret (0, s))
       else if b = map of_char ''ls'' then ls_main int80 F argc argv (s\<lparr>umem := m'\<rparr>)
       else bindX (print int80 F ''coreutils: %s: command not found\<newline>'' [prg + of_nat (length a) + 1] (s\<lparr>umem := m'\<rparr>))
              (\<lambda>(_, s). ret (1, s)))"
proof -
  have "Suc (length (a @ 47 # b)) \<le> unat (prg - p)" using assms(3,6) by simp
  with strcpy_u_cstr [OF assms(1), of prg] assms(3) obtain m' where m': "strcpy_u (umem s) prg p = ret m'"
    "cstr m' prg (a @ 47 # b)" "\<forall>x. \<not> in_range x prg (Suc (length (a @ 47 # b))) \<longrightarrow> m' x = umem s x" by auto
  have same: "m' x = umem s x" if "\<not> in_range x prg 32" for x
    using m'(3) that assms(3) by (auto simp: in_range_def)
  let ?s = "s\<lparr>umem := m'\<rparr>" and ?q = "prg + of_nat (length a) + 1"
  have l: "Suc (length (map of_char ''coreutils'' :: u8 list)) = 10" "Suc (length (map of_char ''ls'' :: u8 list)) = 3" by simp_all
  have "in_range x (flit F ''coreutils'') 10 \<Longrightarrow> m' x = umem s x" "in_range x (flit F ''ls'') 3 \<Longrightarrow> m' x = umem s x" for x
    using assms(9) same by blast+
  note far = this [folded l]
  have "cstr m' (flit F ''coreutils'') (map of_char ''coreutils'')"
    using cstr_keep [OF assms(7) far(1)] l(1) by linarith
  moreover have "cstr m' (flit F ''ls'') (map of_char ''ls'')"
    using cstr_keep [OF assms(8) far(2)] l(2) by linarith
  ultimately have w: "cstr m' (flit F ''coreutils'') (map of_char ''coreutils'')" "cstr m' (flit F ''ls'') (map of_char ''ls'')" .
  have "cstr m' ?q b" using cstr_suffix [of m' prg "a @ [47]" b] m'(2) by (simp add: ac_simps del: cstr.simps)
  then have c: "is_word F ?q ''coreutils'' ?s = ret (b = map of_char ''coreutils'')" "is_word F ?q ''ls'' ?s = ret (b = map of_char ''ls'')"
    using is_word_cstr [of ?s ?q b F] w by (simp_all del: list.map)
  have "\<not> argc <s 1" using assms(5) by (simp add: word_sle_eq word_sless_alt)
  then have "coreutils_main int80 F prg argc argv s =
      (if b = map of_char ''coreutils''
       then bindX (print int80 F ''Ulmix coreutils\<newline>Copyright (C) 2019\<newline>Written by Alexander Ulmer\<newline>'' [] ?s)
              (\<lambda>(_, s). ret (0, s))
       else if b = map of_char ''ls'' then ls_main int80 F argc argv ?s
       else bindX (print int80 F ''coreutils: %s: command not found\<newline>'' [?q] ?s) (\<lambda>(_, s). ret (1, s)))"
    using m'(1) basename_slash [OF m'(2) assms(2)] c assms(4) by (simp add: coreutils_main_def Let_def del: list.map)
  with same show ?thesis by blast
qed

text \<open>A process started as \<open>/x\<close>, a name of no program: the path at 0x300, the pointer to it at 0x400.\<close>

definition core_mem :: mem where
  "core_mem = put_bytes (put_bytes ((\<lambda>_. 0)(0x300 := 47, 0x301 := 120, 0x401 := 3)) 0x600 (map of_char ''ls''))
     0x500 (map of_char ''coreutils'')"

definition core_frame :: frame where
  "core_frame = \<lparr>flit = (\<lambda>w. if w = ''coreutils'' then 0x500 else if w = ''ls'' then 0x600 else 0x800),
     printf_buf = 0x2000, sprintf_buf = 0x1000, getchar_c = 0x3000, putchar_c = 0x3001\<rparr>"

definition core_proc :: ustdio where
  "core_proc = \<lparr>umem = core_mem, actual_errno = 0, stdin_fileno = 0, stdout_fileno = 0\<rparr>"

theorem coreutils_spec_witness:
  "\<exists>m'. coreutils_main syscall_handler core_frame 0x700 1 0x400 core_proc =
     bindX (print syscall_handler core_frame ''coreutils: %s: command not found\<newline>'' [0x701] (core_proc\<lparr>umem := m'\<rparr>)) (\<lambda>(_, s). ret (1, s))"
proof -
  have m: "cstr (umem core_proc) 0x300 ([] @ 47 # [120])"
    "cstr (umem core_proc) (flit core_frame ''coreutils'') (map of_char ''coreutils'')"
    "cstr (umem core_proc) (flit core_frame ''ls'') (map of_char ''ls'')"
    "0x300 = load32 (umem core_proc) 0x400"
    by (simp_all add: core_proc_def core_mem_def core_frame_def load32_def)
  have f: "\<forall>x. in_range x 0x700 32 \<longrightarrow> \<not> in_range x (flit core_frame ''coreutils'') 10 \<and> \<not> in_range x (flit core_frame ''ls'') 3"
    by (auto simp: core_frame_def in_range_interval)
  have n: "[120] \<noteq> (map of_char ''coreutils'' :: u8 list)" "[120] \<noteq> (map of_char ''ls'' :: u8 list)" by simp_all
  show ?thesis
    using coreutils_spec [OF m(1) _ _ m(4) _ _ m(2,3) f, of 1 syscall_handler] n by (auto simp: word_sle_eq)
qed

end
