(* ===== verification/Spec2Isabelle.thy ===== *)
theory Spec2Isabelle
  imports Sync CString Errno Heap Heap_Refine Heap_Props Allocator Heap_Runs Fault_Report Mmap Devices Vfs Pci Arch Paging Vga Kprintf Ata Ext2 Ext2_Lookup Fs_Interface Ext2_Tree File_Tree Syscall Ustring Ustdio Ushell Boot Boot_Disk Ksetup Uprograms
begin

text \<open>
  Verification library of ulmix-i686, a hobby kernel for the 32-bit PC and the first programs of its user space.

  The program. The boot loader enters the kernel in \<open>arch/i686\<close>. \<open>ksetup\<close> builds the
  descriptor tables, an early heap and the page tables, and calls \<open>kmain\<close>, which registers the drivers,
  scans the PCI bus, mounts the ext2 partition of the first disk and sets up the final heap. Processes would enter the
  kernel by the trap 0x80. The user space has a small C library, a shell, an init process and a few programs.

  How it is modelled. Memory is a function from 32-bit addresses to bytes; structures that the code links by pointers
  or overlays on memory (heap headers, address-space regions, the screen, strings, the boot loader's map) are read
  from and written to it at the offsets of their fields. Other structures are records. Integers are words of the width
  of their C type. Every fault (\<open>ASSERT\<close>, panic, division by zero, an access outside an array) is a value
  of the datatype \<open>fault\<close>, and a function of the code that may fault or not return gives \<open>Some (Inr
  r)\<close>, \<open>Some (Inl f)\<close> or \<open>None\<close>: type \<open>exec\<close> of \<open>Prelude\<close>.
  \<open>None\<close> is not returning: loops whose end is not evident are \<open>partial_function (option)\<close>,
  and that they end is proved. No fuel is used.

  Kernel theories and the files they model.
  \<open>Prelude\<close>: bytes, words and address ranges, the result type and its lemmas.
  \<open>Sync\<close>: \<open>kernel/sched/sync.c\<close>, the functions and the interleavings of several threads as a step relation.
  \<open>CString\<close>, \<open>Errno\<close>: \<open>libc/string.c\<close> and \<open>libc/include/errno.h\<close>.
  \<open>Heap\<close>: \<open>kernel/memory/heap.c\<close>, \<open>kmalloc.c\<close>, \<open>kfree.c\<close>. \<open>Heap_Refine\<close> holds the invariant that the
  headers in memory form a list of adjacent blocks, and the list operations that the code implements;
  \<open>Heap_Props\<close> the properties; \<open>Allocator\<close> the contract of an allocator as a locale, interpreted by \<open>kmalloc\<close>;
  \<open>Heap_Runs\<close> the runs of all clients as a step relation.
  \<open>Mmap\<close>: \<open>kernel/memory/mmap.c\<close>, the regions of an address space.
  \<open>Devices\<close>: \<open>kernel/devices.c\<close> and \<open>kernel/fs/partscan.c\<close>.
  \<open>Vfs\<close>: \<open>kernel/fs/vfs.c\<close>, \<open>fs.c\<close>, \<open>mount.c\<close>, \<open>file.c\<close>, \<open>stat.c\<close>.
  \<open>Fs_Interface\<close>: what \<open>vfs.c\<close> relies on in a file system, as a locale that the ext2 driver interprets, and the debug
  listing of \<open>vfs.c\<close>; \<open>File_Tree\<close> has the listing of an ext2 partition.
  \<open>Ext2\<close>: \<open>kernel/fs/ext2.c\<close>. \<open>Ext2_Lookup\<close> puts it together with path lookup in the root, on the bytes of a
  partition; \<open>Ext2_Tree\<close> with whole directory trees and \<open>do_mount\<close>.
  \<open>Pci\<close>: \<open>kernel/bus\<close>. \<open>Ata\<close>: \<open>drivers/ata.c\<close>. \<open>Vga\<close>: \<open>drivers/vga.c\<close>. \<open>Kprintf\<close>: \<open>kernel/kprintf.c\<close>.
  \<open>Arch\<close>: descriptor tables and interrupts. \<open>Fault_Report\<close>: exceptions and the report they print, the dump of
  the heap included. \<open>Paging\<close>: page tables, page frames and the memory map.
  \<open>Syscall\<close>: \<open>kernel/syscall.c\<close> and its handlers, and the wrappers of user space over them.
  \<open>Boot\<close>: \<open>kernel/main.c\<close>, \<open>iosetup.c\<close>, \<open>sysinfo.c\<close>, \<open>arch/i686/debug.c\<close> over all of these. \<open>Boot_Disk\<close>: the
  start from a given disk. \<open>Ksetup\<close>: \<open>arch/i686/ksetup.c\<close> and \<open>multiboot.h\<close>, the entry that runs everything.

  User theories. \<open>Ustring\<close>: \<open>userspace/stdlib/string.c\<close>. \<open>Ustdio\<close>:
  \<open>printf.c\<close>, \<open>stdio.c\<close>, \<open>crt0.c\<close>, \<open>libgen.c\<close>.
  \<open>Ushell\<close>: \<open>userspace/ushell\<close> and \<open>userspace/init\<close>. \<open>Uprograms\<close>:
  coreutils, hexdump and dhcpd. A user program is a function of the trap: it can be run on the kernel of
  \<open>Syscall\<close> or on another one.

  How the parts meet. \<open>Heap\<close> uses the lock of \<open>Sync\<close>, \<open>Mmap\<close> the heap through
  the allocator contract, \<open>Ata\<close> the device table of \<open>Devices\<close> and the lock,
  \<open>Pci\<close> the probe functions of the drivers, \<open>Vfs\<close> the load function of the file system through the locale of
  \<open>Fs_Interface\<close>, \<open>Ext2\<close> the read function of a disk, \<open>Kprintf\<close> the conversions of \<open>CString\<close>.
  \<open>Boot\<close> runs them in the order of the code on one state, and \<open>Ksetup\<close> puts the descriptor tables, the early heap,
  the memory map and paging before that.

  What the lemmas show. The allocator refines first fit on a list of blocks, with coalescing, and releasing what was
  allocated gives the heap back; in every run of clients that follow the rules no two blocks overlap. The console
  refines a scrolling terminal, \<open>kprintf\<close> a text function; an exception is reported in full when the
  print lock is free. Regions stay disjoint; path lookup is a walk over components; inodes are found where the layout
  of ext2 puts them; directory loading gives the records of the block, and mounting an image and looking any path up
  gives what the image holds, from the device table in \<open>Ext2_Tree\<close>, and in \<open>Boot_Disk\<close> from
  the sectors of a disk through the bus scan, the disk driver and the partition table; the file tree is printed as the
  listing of the image; disk reads return on every disk that follows the protocol; the bus scan gives the functions
  present. The descriptor tables decode to what the processor manual asks for. System calls, printing, the line input
  of the shell and the first programs are described for this kernel. Other theorems record where the code differs from
  what it means to do.

  Parameters. What is not code of the repository is an argument: the ports and the configuration space of the machine,
  the processor's answer to \<open>cpuid\<close>, the addresses the linker chooses, the contents of memory that is not
  initialised, the partition as a read function. Their hypotheses are \<open>conforms\<close> in \<open>Ata\<close> (a
  disk that becomes ready and then delivers its sectors), \<open>part_image\<close> in \<open>Ext2\<close>,
  \<open>drivers_ok\<close> in \<open>Pci\<close>, \<open>answers\<close> in \<open>Boot\<close>,
  \<open>has_disk\<close> in \<open>Boot_Disk\<close> (they hold together with a disk that reads through
  \<open>ata_read\<close>), \<open>report_env\<close> in \<open>Fault_Report\<close> (the string literals are in
  memory) and \<open>console\<close> in \<open>Ushell\<close>; witnesses give instances of them. In
  \<open>Ext2\<close> and \<open>Paging\<close> the results of \<open>kmalloc\<close> are a list of addresses with
  what the memory there holds; an empty list is an exhausted heap.

  Not modelled. The assembly stubs (\<open>exc.s\<close>, \<open>irq.s\<close>, \<open>cpuid.s\<close>, \<open>memop.s\<close>, \<open>multiboot.s\<close>) only move registers; the
  dispatch in \<open>syscall.s\<close> is modelled. The messages the kernel prints on the way are left out, except where
  printing is the subject. \<open>stdlib.c\<close> is empty and the timer
  interrupt has an empty body. Makefiles, linker scripts and the disk image have no logic. There is no scheduler in the
  code to model: \<open>fork\<close> and \<open>execve\<close> are calls that fail.
\<close>

end
